(* ===== verification/Prelude.thy ===== *)
theory Prelude
  imports Main "HOL-Library.Word"
begin

text \<open>
  Shared vocabulary of the development: the three-way result of Rust code that may return an
  error or panic, the insertion-ordered map that stands for \<^verbatim>\<open>IndexMap\<close>, \<^verbatim>\<open>HashMap\<close> and
  \<^verbatim>\<open>DashMap\<close>, the contract of such a map as a locale, and generic list lemmas.
\<close>

named_theorems wire_simps \<open>equations that compute on encoded bytes\<close>
named_theorems store_simps \<open>lookups after updates of a keyed store\<close>

section \<open>Results\<close>

text \<open>
  \<open>Ok\<close> and \<open>Err\<close> are Rust's \<^verbatim>\<open>Result\<close>. \<open>Panic\<close> is a panic (out-of-range slice, capacity
  overflow); the release profile of the workspace compiles with \<^verbatim>\<open>panic = "abort"\<close>.
\<close>

datatype ('e, 'a) outcome = Ok 'a | Err 'e | Panic

fun is_ok :: "('e, 'a) outcome \<Rightarrow> bool" where
  "is_ok (Ok _) = True"
| "is_ok _ = False"

fun ok_of_sum :: "'e + 'a \<Rightarrow> 'a option" where
  "ok_of_sum (Inr x) = Some x"
| "ok_of_sum (Inl _) = None"

text \<open>\<^verbatim>\<open>Option::ok_or\<close> and the \<^verbatim>\<open>?\<close> operator on \<^verbatim>\<open>Result\<close> without panics.\<close>

definition ok_or :: "'e \<Rightarrow> 'a option \<Rightarrow> 'e + 'a" where
  "ok_or e x = (case x of None \<Rightarrow> Inl e | Some v \<Rightarrow> Inr v)"

definition sbind :: "'e + 'a \<Rightarrow> ('a \<Rightarrow> 'e + 'b) \<Rightarrow> 'e + 'b" where
  "sbind r f = (case r of Inl e \<Rightarrow> Inl e | Inr x \<Rightarrow> f x)"

lemma sbind_simps [simp]: "sbind (Inl e) f = Inl e" "sbind (Inr x) f = f x"
  by (simp_all add: sbind_def)

lemma ok_or_simps [simp]: "ok_or e None = Inl e" "ok_or e (Some x) = Inr x"
  by (simp_all add: ok_or_def)

lemma sbind_Inr_iff: "sbind r f = Inr y \<longleftrightarrow> (\<exists>x. r = Inr x \<and> f x = Inr y)"
  by (cases r) auto

lemma sbind_cong [fundef_cong]:
  "r = r' \<Longrightarrow> (\<And>x. r' = Inr x \<Longrightarrow> f x = g x) \<Longrightarrow> sbind r f = sbind r' g"
  by (cases r') auto

text \<open>Collecting a list of results: the first error wins, as \<^verbatim>\<open>collect::<Result<Vec<_>, _>>\<close> does.\<close>

fun smap :: "('a \<Rightarrow> 'e + 'b) \<Rightarrow> 'a list \<Rightarrow> 'e + 'b list" where
  "smap f [] = Inr []"
| "smap f (x # xs) = sbind (f x) (\<lambda>y. sbind (smap f xs) (\<lambda>ys. Inr (y # ys)))"

lemma smap_cong [fundef_cong]:
  "xs = ys \<Longrightarrow> (\<And>x. x \<in> set ys \<Longrightarrow> f x = g x) \<Longrightarrow> smap f xs = smap g ys"
  by (induction ys arbitrary: xs) auto

lemma smap_Inr_length: "smap f xs = Inr ys \<Longrightarrow> length ys = length xs"
  by (induction xs arbitrary: ys) (auto simp: sbind_Inr_iff)

section \<open>Insertion-ordered maps\<close>

text \<open>
  An \<^verbatim>\<open>IndexMap\<close> is a list of pairs with distinct keys. \<^verbatim>\<open>insert\<close> replaces the value of a
  present key in place and appends a new key. The hash maps of the daemon use the same
  representation: their iteration order is unspecified, so a statement about them that holds
  for every such list holds for every order.
\<close>

type_synonym ('k, 'v) imap = "('k \<times> 'v) list"

abbreviation im_get :: "('k, 'v) imap \<Rightarrow> 'k \<Rightarrow> 'v option" where
  "im_get \<equiv> map_of"

definition im_keys :: "('k, 'v) imap \<Rightarrow> 'k list" where
  "im_keys m = map fst m"

definition im_wf :: "('k, 'v) imap \<Rightarrow> bool" where
  "im_wf m = distinct (im_keys m)"

fun im_insert :: "'k \<Rightarrow> 'v \<Rightarrow> ('k, 'v) imap \<Rightarrow> ('k, 'v) imap" where
  "im_insert k v [] = [(k, v)]"
| "im_insert k v ((k', v') # m) =
     (if k' = k then (k', v) # m else (k', v') # im_insert k v m)"

definition im_remove :: "'k \<Rightarrow> ('k, 'v) imap \<Rightarrow> ('k, 'v) imap" where
  "im_remove k m = filter (\<lambda>p. fst p \<noteq> k) m"

definition im_contains :: "'k \<Rightarrow> ('k, 'v) imap \<Rightarrow> bool" where
  "im_contains k m = (im_get m k \<noteq> None)"

text \<open>\<^verbatim>\<open>IndexMap::shift_insert(0, k, v)\<close> of a key the map does not hold.\<close>

definition im_insert_front :: "'k \<Rightarrow> 'v \<Rightarrow> ('k, 'v) imap \<Rightarrow> ('k, 'v) imap" where
  "im_insert_front k v m = (k, v) # m"

fun im_inserts :: "('k \<times> 'v) list \<Rightarrow> ('k, 'v) imap \<Rightarrow> ('k, 'v) imap" where
  "im_inserts [] m = m"
| "im_inserts ((k, v) # kvs) m = im_inserts kvs (im_insert k v m)"

lemma im_get_insert [store_simps]: "im_get (im_insert k v m) = (im_get m)(k \<mapsto> v)"
  by (induction k v m rule: im_insert.induct) (auto simp: fun_eq_iff)

lemma im_get_remove [store_simps]: "im_get (im_remove k m) = (im_get m)(k := None)"
  by (induction m) (auto simp: im_remove_def fun_eq_iff)

lemma im_keys_Nil [simp]: "im_keys [] = []"
  by (simp add: im_keys_def)

lemma im_keys_Cons [simp]: "im_keys ((k, v) # m) = k # im_keys m"
  by (simp add: im_keys_def)

lemma im_get_None_iff: "im_get m k = None \<longleftrightarrow> k \<notin> set (im_keys m)"
  by (simp add: im_keys_def map_of_eq_None_iff)

lemma im_keys_insert:
  "im_keys (im_insert k v m) = (if k \<in> set (im_keys m) then im_keys m else im_keys m @ [k])"
  by (induction k v m rule: im_insert.induct) auto

lemma im_wf_Nil [simp]: "im_wf []"
  by (simp add: im_wf_def)

lemma im_wf_insert [intro]: "im_wf m \<Longrightarrow> im_wf (im_insert k v m)"
  by (auto simp: im_wf_def im_keys_insert)

lemma im_wf_filter [intro]: "im_wf m \<Longrightarrow> im_wf (filter P m)"
  unfolding im_wf_def im_keys_def
  by (induction m) (auto simp: image_iff)

lemma im_wf_remove [intro]: "im_wf m \<Longrightarrow> im_wf (im_remove k m)"
  by (simp add: im_remove_def im_wf_filter)

lemma length_im_insert:
  "length (im_insert k v m) = (if k \<in> set (im_keys m) then length m else Suc (length m))"
  by (induction k v m rule: im_insert.induct) auto

lemma im_insert_new: "k \<notin> set (im_keys m) \<Longrightarrow> im_insert k v m = m @ [(k, v)]"
  by (induction k v m rule: im_insert.induct) auto

lemma im_inserts_append:
  "distinct (im_keys (m @ kvs)) \<Longrightarrow> im_inserts kvs m = m @ kvs"
proof (induction kvs arbitrary: m)
  case Nil
  then show ?case by simp
next
  case (Cons kv kvs)
  obtain k v where kv: "kv = (k, v)" by (cases kv)
  from Cons.prems kv have "k \<notin> set (im_keys m)" and "distinct (im_keys ((m @ [(k, v)]) @ kvs))"
    by (auto simp: im_keys_def)
  then show ?case
    using Cons.IH [of "m @ [(k, v)]"] kv by (simp add: im_insert_new)
qed

text \<open>Rebuilding a well-formed map entry by entry gives the map back, order included.\<close>

lemma im_inserts_id: "im_wf kvs \<Longrightarrow> im_inserts kvs [] = kvs"
  using im_inserts_append [of "[]" kvs] by (simp add: im_wf_def)

lemma im_wf_inserts: "im_wf m \<Longrightarrow> im_wf (im_inserts kvs m)"
  by (induction kvs m rule: im_inserts.induct) auto

lemma im_get_wf: "im_wf m \<Longrightarrow> (k, v) \<in> set m \<Longrightarrow> im_get m k = Some v"
  by (simp add: im_wf_def im_keys_def)

lemma im_inserts_snoc: "im_inserts (kvs @ [(k, v)]) m = im_insert k v (im_inserts kvs m)"
  by (induction kvs m rule: im_inserts.induct) auto

section \<open>The contract of a keyed store\<close>

text \<open>
  What the daemon's tables (cursors, subscriptions, triggers, roots, the file index) rely on:
  a lookup sees the last write, a removed key is absent, and the number of entries is the
  number of present keys.
\<close>

locale keyed_store =
  fixes empty :: "'m"
    and get :: "'m \<Rightarrow> 'k \<Rightarrow> 'v option"
    and put :: "'k \<Rightarrow> 'v \<Rightarrow> 'm \<Rightarrow> 'm"
    and del :: "'k \<Rightarrow> 'm \<Rightarrow> 'm"
    and len :: "'m \<Rightarrow> nat"
    and wf :: "'m \<Rightarrow> bool"
  assumes get_empty: "get empty k = None"
    and get_put: "get (put k v m) = (get m)(k \<mapsto> v)"
    and get_del: "get (del k m) = (get m)(k := None)"
    and wf_empty: "wf empty"
    and wf_put: "wf m \<Longrightarrow> wf (put k v m)"
    and wf_del: "wf m \<Longrightarrow> wf (del k m)"
    and fin_dom: "finite (dom (get m))"
    and len_card: "wf m \<Longrightarrow> len m = card (dom (get m))"
begin

lemma put_get_same: "get (put k v m) k = Some v"
  by (simp add: get_put)

lemma put_get_other: "k' \<noteq> k \<Longrightarrow> get (put k v m) k' = get m k'"
  by (simp add: get_put)

lemma del_get_same: "get (del k m) k = None"
  by (simp add: get_del)

lemma del_get_other: "k' \<noteq> k \<Longrightarrow> get (del k m) k' = get m k'"
  by (simp add: get_del)

lemma len_empty: "len empty = 0"
  using len_card [OF wf_empty] by (simp add: get_empty dom_def)

lemma len_put:
  assumes "wf m"
  shows "len (put k v m) = (if get m k = None then Suc (len m) else len m)"
proof -
  have "dom (get (put k v m)) = insert k (dom (get m))"
    by (auto simp: get_put)
  moreover have "(k \<in> dom (get m)) = (get m k \<noteq> None)" by (simp add: domIff)
  ultimately show ?thesis
    using assms fin_dom by (simp add: len_card wf_put card_insert_if)
qed

lemma len_del:
  assumes "wf m"
  shows "len (del k m) = (if get m k = None then len m else len m - 1)"
proof -
  have "dom (get (del k m)) = dom (get m) - {k}"
    by (auto simp: get_del split: if_splits)
  moreover have "(k \<in> dom (get m)) = (get m k \<noteq> None)" by (simp add: domIff)
  ultimately show ?thesis
    using assms fin_dom [of m] by (auto simp: len_card wf_del card_Diff_singleton_if)
qed

end

lemma im_length_card: "im_wf m \<Longrightarrow> length m = card (dom (im_get m))"
  unfolding im_wf_def im_keys_def
  by (metis distinct_card dom_map_of_conv_image_fst length_map set_map)

interpretation im: keyed_store "[]" im_get im_insert im_remove length im_wf
  by unfold_locales
    (auto simp: store_simps finite_dom_map_of im_length_card simp del: fun_upd_apply)

section \<open>Layers of step relations\<close>

text \<open>
  How one layer of the program rests on the one below: each step of the upper layer is a sequence of steps
  of the lower layer on the part of the state \<open>part\<close> the lower layer knows.
\<close>

locale forward_simulation =
  fixes upper :: "'c \<Rightarrow> 'c \<Rightarrow> bool"
    and lower :: "'a \<Rightarrow> 'a \<Rightarrow> bool"
    and part :: "'c \<Rightarrow> 'a"
  assumes simulate: "upper c c' \<Longrightarrow> lower\<^sup>*\<^sup>* (part c) (part c')"
begin

lemma simulate_steps: "upper\<^sup>*\<^sup>* c c' \<Longrightarrow> lower\<^sup>*\<^sup>* (part c) (part c')"
  by (induction rule: rtranclp_induct) (auto dest: simulate intro: rtranclp_trans)

end

text \<open>What the lower layer keeps, the upper layer keeps.\<close>

locale simulation_invariant = forward_simulation upper lower part
  for upper :: "'c \<Rightarrow> 'c \<Rightarrow> bool" and lower :: "'a \<Rightarrow> 'a \<Rightarrow> bool" and part :: "'c \<Rightarrow> 'a" +
  fixes kept_part :: "'a \<Rightarrow> bool"
  assumes lower_keeps: "kept_part a \<Longrightarrow> lower a a' \<Longrightarrow> kept_part a'"
begin

lemma lower_steps_keep: "lower\<^sup>*\<^sup>* a a' \<Longrightarrow> kept_part a \<Longrightarrow> kept_part a'"
  by (induction rule: rtranclp_induct) (auto dest: lower_keeps)

lemma step_keeps: "upper c c' \<Longrightarrow> kept_part (part c) \<Longrightarrow> kept_part (part c')"
  using simulate lower_steps_keep by blast

lemma steps_keep: "upper\<^sup>*\<^sup>* c c' \<Longrightarrow> kept_part (part c) \<Longrightarrow> kept_part (part c')"
  using simulate_steps lower_steps_keep by blast

end

section \<open>List lemmas\<close>

lemma drop_drop_add: "drop a (drop b xs) = drop (b + a) xs"
  by (simp add: add.commute)

lemma filter_length_split:
  "length (filter P xs) + length (filter (\<lambda>x. \<not> P x) xs) = length xs"
  by (induction xs) auto

end
