(* ===== verification/Rust_Std.thy ===== *)
theory Rust_Std
  imports Prelude
begin

text \<open>
  The parts of the Rust language and standard library the program uses: integer casts,
  little-endian byte conversions, UTF-8 validation and lossy decoding, ASCII case folding,
  decimal printing and parsing, and the string splitting functions. A \<^verbatim>\<open>String\<close> is its UTF-8
  bytes, as a \<open>char list\<close>; \<^verbatim>\<open>len()\<close> counts bytes.
\<close>

type_synonym byte = "8 word"

section \<open>Integer casts\<close>

text \<open>\<^verbatim>\<open>as i64\<close>, \<^verbatim>\<open>as u64\<close>, \<^verbatim>\<open>as u32\<close>: reduction to the width; \<^verbatim>\<open>as usize\<close> is 64 bits.\<close>

definition as_i64 :: "int \<Rightarrow> int" where
  "as_i64 x = (x + 2 ^ 63) mod 2 ^ 64 - 2 ^ 63"

definition as_u64 :: "int \<Rightarrow> int" where
  "as_u64 x = x mod 2 ^ 64"

definition as_u32 :: "int \<Rightarrow> int" where
  "as_u32 x = x mod 2 ^ 32"

definition i64_range :: "int \<Rightarrow> bool" where
  "i64_range x \<longleftrightarrow> - (2 ^ 63) \<le> x \<and> x < 2 ^ 63"

lemma as_i64_range [simp]: "i64_range (as_i64 x)"
proof -
  have "0 \<le> (x + 2 ^ 63) mod 2 ^ 64" and "(x + 2 ^ 63) mod 2 ^ 64 < (2 :: int) ^ 64"
    by simp_all
  then show ?thesis by (simp add: i64_range_def as_i64_def)
qed

lemma as_i64_id: "i64_range x \<Longrightarrow> as_i64 x = x"
  by (simp add: i64_range_def as_i64_def)

lemma as_i64_of_nat: "n < 2 ^ 63 \<Longrightarrow> as_i64 (int n) = int n"
  by (rule as_i64_id) (auto simp: i64_range_def intro: order_less_le_trans)

text \<open>Signed division of Rust truncates towards zero.\<close>

definition tdiv :: "int \<Rightarrow> int \<Rightarrow> int" where
  "tdiv a b = sgn a * sgn b * (\<bar>a\<bar> div \<bar>b\<bar>)"

lemma tdiv_nonneg: "0 \<le> a \<Longrightarrow> 0 < b \<Longrightarrow> tdiv a b = a div b"
  by (cases "a = 0") (auto simp: tdiv_def)

section \<open>Little-endian bytes\<close>

fun to_le_bytes :: "nat \<Rightarrow> int \<Rightarrow> byte list" where
  "to_le_bytes 0 x = []"
| "to_le_bytes (Suc k) x = word_of_int x # to_le_bytes k (x div 256)"

fun from_le_unsigned :: "byte list \<Rightarrow> int" where
  "from_le_unsigned [] = 0"
| "from_le_unsigned (b # bs) = uint b + 256 * from_le_unsigned bs"

text \<open>\<open>from_le_signed bs\<close> is \<^verbatim>\<open>iN::from_le_bytes\<close> for the \<open>N\<close> given by the number of bytes.\<close>

definition from_le_signed :: "byte list \<Rightarrow> int" where
  "from_le_signed bs =
     (let u = from_le_unsigned bs; m = 256 ^ length bs
      in if 2 * u < m then u else u - m)"

lemma length_to_le_bytes [simp]: "length (to_le_bytes k x) = k"
  by (induction k arbitrary: x) auto

lemma from_le_unsigned_bounds:
  "0 \<le> from_le_unsigned bs \<and> from_le_unsigned bs < 256 ^ length bs"
proof (induction bs)
  case Nil
  then show ?case by simp
next
  case (Cons b bs)
  have "0 \<le> uint b" and "uint b < 256"
    using uint_bounded [of b] by simp_all
  with Cons show ?case by simp
qed

lemma from_to_le_unsigned [wire_simps]:
  "from_le_unsigned (to_le_bytes k x) = x mod 256 ^ k"
proof (induction k arbitrary: x)
  case 0
  then show ?case by simp
next
  case (Suc k)
  have "uint (word_of_int x :: byte) = x mod 256"
    by (simp add: uint_word_of_int)
  moreover have "x mod (256 * 256 ^ k) = 256 * (x div 256 mod 256 ^ k) + x mod 256"
    by (rule zmod_zmult2_eq) simp
  ultimately show ?case using Suc by simp
qed

lemma from_to_le_signed:
  assumes "0 < k" and lo: "- (256 ^ k) \<le> 2 * x" and hi: "2 * x < 256 ^ k"
  shows "from_le_signed (to_le_bytes k x) = x"
proof (cases "0 \<le> x")
  case True
  then have "x mod 256 ^ k = x" using hi by simp
  then show ?thesis
    using hi True by (simp add: from_le_signed_def from_to_le_unsigned Let_def)
next
  case False
  have "(x + 256 ^ k) mod 256 ^ k = x + 256 ^ k"
    using False lo by (intro mod_pos_pos_trivial) linarith+
  then have "x mod 256 ^ k = x + 256 ^ k" by simp
  then show ?thesis
    using lo False by (simp add: from_le_signed_def from_to_le_unsigned Let_def)
qed

lemma from_le_signed_range:
  "bs \<noteq> [] \<Longrightarrow> length bs \<le> 8 \<Longrightarrow> i64_range (from_le_signed bs)"
proof -
  assume ne: "bs \<noteq> []" and le: "length bs \<le> 8"
  let ?u = "from_le_unsigned bs" and ?m = "(256 :: int) ^ length bs"
  have b: "0 \<le> ?u" "?u < ?m" using from_le_unsigned_bounds [of bs] by auto
  have "?m \<le> 256 ^ 8" by (rule power_increasing) (use le in auto)
  then have m: "?m \<le> 2 ^ 64" by simp
  show ?thesis
    using b m by (auto simp: from_le_signed_def i64_range_def Let_def)
qed

section \<open>Characters and bytes\<close>

definition byte_of_char :: "char \<Rightarrow> byte" where
  "byte_of_char c = word_of_nat (of_char c)"

definition char_of_byte :: "byte \<Rightarrow> char" where
  "char_of_byte b = char_of (unat b)"

definition as_bytes :: "string \<Rightarrow> byte list" where
  "as_bytes s = map byte_of_char s"

definition chars_of :: "byte list \<Rightarrow> string" where
  "chars_of bs = map char_of_byte bs"

lemma of_char_less_256 [simp]: "of_char c < (256 :: nat)"
  by simp

lemma char_of_byte_of_char [simp]: "char_of_byte (byte_of_char c) = c"
  by (simp add: char_of_byte_def byte_of_char_def unat_of_nat)

lemma byte_of_char_of_byte [simp]: "byte_of_char (char_of_byte b) = b"
proof -
  have "unat b < 256" by (rule order_less_le_trans [OF unsigned_less]) simp
  then show ?thesis by (simp add: char_of_byte_def byte_of_char_def)
qed

lemma length_as_bytes [simp]: "length (as_bytes s) = length s"
  by (simp add: as_bytes_def)

lemma length_chars_of [simp]: "length (chars_of bs) = length bs"
  by (simp add: chars_of_def)

lemma chars_of_as_bytes [simp]: "chars_of (as_bytes s) = s"
  by (simp add: chars_of_def as_bytes_def comp_def)

lemma as_bytes_chars_of [simp]: "as_bytes (chars_of bs) = bs"
  by (simp add: chars_of_def as_bytes_def comp_def)

lemma as_bytes_append [simp]: "as_bytes (s @ t) = as_bytes s @ as_bytes t"
  by (simp add: as_bytes_def)

section \<open>UTF-8\<close>

text \<open>
  One step of \<^verbatim>\<open>core::str::lossy::Utf8Chunks\<close>: whether the text starts with a complete scalar
  value, and how many bytes that value (or the maximal invalid prefix) takes. A read past the
  end yields 0, which is no continuation byte.
\<close>

definition code_at :: "string \<Rightarrow> nat \<Rightarrow> nat" where
  "code_at s i = (if i < length s then of_char (s ! i) else 0)"

definition utf8_cont :: "nat \<Rightarrow> bool" where
  "utf8_cont b \<longleftrightarrow> 128 \<le> b \<and> b \<le> 191"

definition utf8_second3 :: "nat \<Rightarrow> nat \<Rightarrow> bool" where
  "utf8_second3 b b1 =
     (if b = 224 then 160 \<le> b1 \<and> b1 \<le> 191
      else if b = 237 then 128 \<le> b1 \<and> b1 \<le> 159
      else utf8_cont b1)"

definition utf8_second4 :: "nat \<Rightarrow> nat \<Rightarrow> bool" where
  "utf8_second4 b b1 =
     (if b = 240 then 144 \<le> b1 \<and> b1 \<le> 191
      else if b = 244 then 128 \<le> b1 \<and> b1 \<le> 143
      else utf8_cont b1)"

definition utf8_class :: "nat \<Rightarrow> nat \<Rightarrow> nat \<Rightarrow> nat \<Rightarrow> bool \<times> nat" where
  "utf8_class b b1 b2 b3 =
     (if b < 128 then (True, 1)
      else if 194 \<le> b \<and> b \<le> 223 then (if utf8_cont b1 then (True, 2) else (False, 1))
      else if 224 \<le> b \<and> b \<le> 239 then
        (if \<not> utf8_second3 b b1 then (False, 1)
         else if \<not> utf8_cont b2 then (False, 2) else (True, 3))
      else if 240 \<le> b \<and> b \<le> 244 then
        (if \<not> utf8_second4 b b1 then (False, 1)
         else if \<not> utf8_cont b2 then (False, 2)
         else if \<not> utf8_cont b3 then (False, 3) else (True, 4))
      else (False, 1))"

definition utf8_chunk :: "string \<Rightarrow> bool \<times> nat" where
  "utf8_chunk s = utf8_class (code_at s 0) (code_at s 1) (code_at s 2) (code_at s 3)"

lemma utf8_class_cases:
  assumes "fst (utf8_class b b1 b2 b3)"
  obtains "\<And>x y z. utf8_class b x y z = (True, 1)"
  | "\<And>y z. utf8_class b b1 y z = (True, 2)" "b1 \<noteq> 0"
  | "\<And>z. utf8_class b b1 b2 z = (True, 3)" "b1 \<noteq> 0" "b2 \<noteq> 0"
  | "utf8_class b b1 b2 b3 = (True, 4)" "b1 \<noteq> 0" "b2 \<noteq> 0" "b3 \<noteq> 0"
proof -
  have nz: "utf8_cont x \<Longrightarrow> x \<noteq> 0" "utf8_second3 y x \<Longrightarrow> x \<noteq> 0" "utf8_second4 y x \<Longrightarrow> x \<noteq> 0"
    for x y by (auto simp: utf8_cont_def utf8_second3_def utf8_second4_def split: if_splits)
  show thesis
    using assms that nz unfolding utf8_class_def by (force split: if_splits)
qed

lemma utf8_chunk_pos: "0 < snd (utf8_chunk s)"
  by (simp add: utf8_chunk_def utf8_class_def)

function utf8_valid :: "string \<Rightarrow> bool" where
  "utf8_valid s =
     (if s = [] then True
      else fst (utf8_chunk s) \<and> utf8_valid (drop (snd (utf8_chunk s)) s))"
  by pat_completeness auto
termination
  by (relation "measure length") (auto simp: utf8_chunk_pos)

function from_utf8_lossy :: "string \<Rightarrow> string" where
  "from_utf8_lossy s =
     (if s = [] then []
      else (let n = snd (utf8_chunk s) in
            (if fst (utf8_chunk s) then take n s else map char_of [239, 191, 189 :: nat])
            @ from_utf8_lossy (drop n s)))"
  by pat_completeness auto
termination
  by (relation "measure length") (auto simp: utf8_chunk_pos)

declare utf8_valid.simps [simp del] from_utf8_lossy.simps [simp del]

lemma utf8_valid_Nil [simp]: "utf8_valid []"
  by (simp add: utf8_valid.simps)

lemma from_utf8_lossy_Nil [simp]: "from_utf8_lossy [] = []"
  by (simp add: from_utf8_lossy.simps)

lemma from_utf8_lossy_valid: "utf8_valid s \<Longrightarrow> from_utf8_lossy s = s"
proof (induction s rule: utf8_valid.induct)
  case (1 s)
  show ?case
  proof (cases "s = []")
    case True
    then show ?thesis by simp
  next
    case False
    with "1.prems" have "fst (utf8_chunk s)" "utf8_valid (drop (snd (utf8_chunk s)) s)"
      by (auto simp: utf8_valid.simps [of s])
    with "1.IH" [OF False] False show ?thesis
      by (simp add: from_utf8_lossy.simps [of s] Let_def)
  qed
qed

lemma utf8_valid_Cons_ascii [simp]:
  "of_char c < (128 :: nat) \<Longrightarrow> utf8_valid (c # s) = utf8_valid s"
  by (simp add: utf8_valid.simps [of "c # s"] utf8_chunk_def utf8_class_def code_at_def)

lemma from_utf8_lossy_Cons_ascii:
  "of_char c < (128 :: nat) \<Longrightarrow> from_utf8_lossy (c # s) = c # from_utf8_lossy s"
  by (simp add: from_utf8_lossy.simps [of "c # s"] utf8_chunk_def utf8_class_def code_at_def Let_def)

lemma utf8_valid_ascii: "(\<And>c. c \<in> set s \<Longrightarrow> of_char c < (128 :: nat)) \<Longrightarrow> utf8_valid s"
  by (induction s) auto

lemma code_at_nonzero: "code_at s i \<noteq> 0 \<Longrightarrow> i < length s"
  by (simp add: code_at_def split: if_splits)

lemma code_at_take_append:
  "i < n \<Longrightarrow> n \<le> length s \<Longrightarrow> code_at (take n s @ r) i = code_at s i"
  by (simp add: code_at_def nth_append)

text \<open>Whether a complete scalar value comes first depends on its own bytes only.\<close>

lemma utf8_chunk_take:
  assumes ok: "fst (utf8_chunk s)" and ne: "s \<noteq> []"
  shows "snd (utf8_chunk s) \<le> length s \<and>
    utf8_chunk (take (snd (utf8_chunk s)) s @ r) = utf8_chunk s"
proof -
  from ok have "fst (utf8_class (code_at s 0) (code_at s 1) (code_at s 2) (code_at s 3))"
    by (simp add: utf8_chunk_def)
  then show ?thesis
  proof (cases rule: utf8_class_cases)
    case 1
    then show ?thesis
      using ne by (simp add: utf8_chunk_def code_at_take_append Suc_le_eq)
  next
    case 2
    then show ?thesis
      using code_at_nonzero [of s 1] by (simp add: utf8_chunk_def code_at_take_append)
  next
    case 3
    then show ?thesis
      using code_at_nonzero [of s 2] by (simp add: utf8_chunk_def code_at_take_append)
  next
    case 4
    then show ?thesis
      using code_at_nonzero [of s 3] by (simp add: utf8_chunk_def code_at_take_append)
  qed
qed

lemma utf8_valid_chunk_append:
  assumes "fst (utf8_chunk s)" and "s \<noteq> []" and "utf8_valid r"
  shows "utf8_valid (take (snd (utf8_chunk s)) s @ r)"
proof -
  let ?n = "snd (utf8_chunk s)" and ?t = "take (snd (utf8_chunk s)) s @ r"
  have c: "utf8_chunk ?t = utf8_chunk s" and "?n \<le> length s"
    using utf8_chunk_take [OF assms(1,2), of r] by auto
  then have "drop ?n ?t = r" by simp
  then show ?thesis
    using assms c by (subst utf8_valid.simps) simp
qed

lemma utf8_valid_append: "utf8_valid s \<Longrightarrow> utf8_valid t \<Longrightarrow> utf8_valid (s @ t)"
proof (induction s rule: utf8_valid.induct)
  case (1 s)
  show ?case
  proof (cases "s = []")
    case True
    with "1.prems" show ?thesis by simp
  next
    case False
    let ?n = "snd (utf8_chunk s)"
    from "1.prems" False have ok: "fst (utf8_chunk s)" and rest: "utf8_valid (drop ?n s)"
      by (auto simp: utf8_valid.simps [of s])
    have "utf8_valid (drop ?n s @ t)"
      using "1.IH" [OF False] ok rest "1.prems"(2) by blast
    then have "utf8_valid (take ?n s @ drop ?n s @ t)"
      by (rule utf8_valid_chunk_append [OF ok False])
    then show ?thesis by (simp add: append_assoc [symmetric] del: append_assoc)
  qed
qed

text \<open>The result of lossy decoding is a Rust string.\<close>

lemma utf8_valid_lossy: "utf8_valid (from_utf8_lossy s)"
proof (induction s rule: from_utf8_lossy.induct)
  case (1 s)
  show ?case
  proof (cases "s = []")
    case True
    then show ?thesis by simp
  next
    case False
    let ?n = "snd (utf8_chunk s)"
    have IH: "utf8_valid (from_utf8_lossy (drop ?n s))"
      using "1" [OF False] by simp
    show ?thesis
    proof (cases "fst (utf8_chunk s)")
      case True
      then show ?thesis
        using False IH utf8_valid_chunk_append [of s]
        by (simp add: from_utf8_lossy.simps [of s] Let_def)
    next
      case c: False
      have "utf8_valid (map char_of [239, 191, 189 :: nat])"
        by (simp add: utf8_valid.simps utf8_chunk_def utf8_class_def code_at_def utf8_second3_def
            utf8_cont_def)
      then show ?thesis
        using False c IH utf8_valid_append
        by (simp add: from_utf8_lossy.simps [of s] Let_def del: list.map)
    qed
  qed
qed

end
