(* ===== verification/Rust_Str.thy ===== *)
theory Rust_Str
  imports Rust_Std
begin

text \<open>
  String functions of the standard library: ASCII case folding, prefixes, splitting and joining,
  decimal printing (\<^verbatim>\<open>Display\<close> of unsigned integers) and parsing (\<^verbatim>\<open>str::parse\<close>).
\<close>

section \<open>ASCII case\<close>

definition ascii_lower :: "char \<Rightarrow> char" where
  "ascii_lower c =
     (let n = (of_char c :: nat) in if 65 \<le> n \<and> n \<le> 90 then char_of (n + 32) else c)"

definition to_ascii_lowercase :: "string \<Rightarrow> string" where
  "to_ascii_lowercase s = map ascii_lower s"

definition eq_ignore_ascii_case :: "string \<Rightarrow> string \<Rightarrow> bool" where
  "eq_ignore_ascii_case s t = (to_ascii_lowercase s = to_ascii_lowercase t)"

lemma ascii_lower_idem [simp]: "ascii_lower (ascii_lower c) = ascii_lower c"
proof -
  have "(of_char c :: nat) + 32 < 256" if "(of_char c :: nat) \<le> 90" using that by simp
  then show ?thesis by (auto simp: ascii_lower_def Let_def)
qed

lemma to_ascii_lowercase_idem [simp]:
  "to_ascii_lowercase (to_ascii_lowercase s) = to_ascii_lowercase s"
  by (simp add: to_ascii_lowercase_def comp_def)

lemma to_ascii_lowercase_append [simp]:
  "to_ascii_lowercase (s @ t) = to_ascii_lowercase s @ to_ascii_lowercase t"
  by (simp add: to_ascii_lowercase_def)

section \<open>Prefixes, splitting, joining\<close>

fun str_strip_prefix :: "string \<Rightarrow> string \<Rightarrow> string option" where
  "str_strip_prefix [] s = Some s"
| "str_strip_prefix (p # ps) [] = None"
| "str_strip_prefix (p # ps) (c # s) = (if p = c then str_strip_prefix ps s else None)"

definition starts_with :: "string \<Rightarrow> string \<Rightarrow> bool" where
  "starts_with s p = (str_strip_prefix p s \<noteq> None)"

lemma str_strip_prefix_append [simp]: "str_strip_prefix p (p @ s) = Some s"
  by (induction p) auto

lemma str_strip_prefix_Some_iff: "str_strip_prefix p s = Some r \<longleftrightarrow> s = p @ r"
  by (induction p s rule: str_strip_prefix.induct) auto

text \<open>\<^verbatim>\<open>s.split(c)\<close> yields at least one piece; \<^verbatim>\<open>s.split_once(c)\<close> splits at the first \<open>c\<close>.\<close>

fun split_on :: "char \<Rightarrow> string \<Rightarrow> string list" where
  "split_on c [] = [[]]"
| "split_on c (x # s) =
     (if x = c then [] # split_on c s
      else (case split_on c s of [] \<Rightarrow> [[x]] | p # ps \<Rightarrow> (x # p) # ps))"

fun split_once :: "char \<Rightarrow> string \<Rightarrow> (string \<times> string) option" where
  "split_once c [] = None"
| "split_once c (x # s) =
     (if x = c then Some ([], s)
      else (case split_once c s of None \<Rightarrow> None | Some (a, b) \<Rightarrow> Some (x # a, b)))"

fun join_with :: "string \<Rightarrow> string list \<Rightarrow> string" where
  "join_with sep [] = []"
| "join_with sep [s] = s"
| "join_with sep (s # t # ts) = s @ sep @ join_with sep (t # ts)"

lemma split_on_ne [simp]: "split_on c s \<noteq> []"
  by (induction s) (auto split: list.splits)

lemma split_on_plain: "c \<notin> set s \<Longrightarrow> split_on c s = [s]"
  by (induction s) auto

lemma split_on_sep: "c \<notin> set s \<Longrightarrow> split_on c (s @ c # t) = s # split_on c t"
  by (induction s) auto

lemma split_once_sep: "c \<notin> set s \<Longrightarrow> split_once c (s @ c # t) = Some (s, t)"
  by (induction s) auto

lemma split_on_join:
  "ps \<noteq> [] \<Longrightarrow> (\<And>p. p \<in> set ps \<Longrightarrow> c \<notin> set p) \<Longrightarrow> split_on c (join_with [c] ps) = ps"
proof (induction "[c]" ps rule: join_with.induct)
  case 1
  then show ?case by simp
next
  case (2 s)
  then show ?case by (simp add: split_on_plain)
next
  case (3 s t ts)
  then show ?case by (simp add: split_on_sep)
qed

section \<open>Decimal numbers\<close>

definition digit_char :: "nat \<Rightarrow> char" where
  "digit_char d = char_of (48 + d)"

fun nat_str :: "nat \<Rightarrow> string" where
  "nat_str n = (if n < 10 then [digit_char n] else nat_str (n div 10) @ [digit_char (n mod 10)])"

declare nat_str.simps [simp del]

definition is_digit_char :: "char \<Rightarrow> bool" where
  "is_digit_char c = (let n = (of_char c :: nat) in 48 \<le> n \<and> n \<le> 57)"

definition digit_val :: "char \<Rightarrow> nat" where
  "digit_val c = of_char c - 48"

definition digits_val :: "string \<Rightarrow> nat" where
  "digits_val s = foldl (\<lambda>a c. 10 * a + digit_val c) 0 s"

text \<open>
  \<^verbatim>\<open>str::parse\<close> of an unsigned integer with greatest value \<open>m\<close>: an optional plus sign, at least one
  digit, nothing else, and no overflow.
\<close>

definition parse_uint :: "nat \<Rightarrow> string \<Rightarrow> nat option" where
  "parse_uint m s =
     (let ds = (case s of CHR ''+'' # r \<Rightarrow> r | _ \<Rightarrow> s)
      in if ds \<noteq> [] \<and> list_all is_digit_char ds \<and> digits_val ds \<le> m
         then Some (digits_val ds) else None)"

definition u64_max :: nat where
  "u64_max = 2 ^ 64 - 1"

definition u32_max :: nat where
  "u32_max = 2 ^ 32 - 1"

lemma of_char_digit [simp]: "d < 10 \<Longrightarrow> (of_char (digit_char d) :: nat) = 48 + d"
  by (simp add: digit_char_def)

lemma is_digit_digit_char [simp]: "d < 10 \<Longrightarrow> is_digit_char (digit_char d)"
  by (simp add: is_digit_char_def)

lemma digit_val_digit_char [simp]: "d < 10 \<Longrightarrow> digit_val (digit_char d) = d"
  by (simp add: digit_val_def)

lemma digits_val_snoc: "digits_val (s @ [c]) = 10 * digits_val s + digit_val c"
  by (simp add: digits_val_def)

lemma nat_str_digits: "nat_str n \<noteq> [] \<and> list_all is_digit_char (nat_str n) \<and> digits_val (nat_str n) = n"
proof (induction n rule: nat_str.induct)
  case (1 n)
  show ?case
  proof (cases "n < 10")
    case True
    then show ?thesis by (simp add: nat_str.simps [of n] digits_val_def)
  next
    case False
    with "1" show ?thesis
      by (simp add: nat_str.simps [of n] digits_val_snoc)
  qed
qed

lemma is_digit_char_cases: "is_digit_char c \<Longrightarrow> c \<noteq> CHR ''+'' \<and> c \<noteq> CHR '':''"
  by (auto simp: is_digit_char_def Let_def)

lemma parse_nat_str [simp]: "n \<le> m \<Longrightarrow> parse_uint m (nat_str n) = Some n"
proof -
  assume le: "n \<le> m"
  obtain c r where s: "nat_str n = c # r"
    using nat_str_digits [of n] by (cases "nat_str n") auto
  with nat_str_digits [of n] have "c \<noteq> CHR ''+''"
    using is_digit_char_cases [of c] by auto
  then have "(case nat_str n of CHR ''+'' # r \<Rightarrow> r | _ \<Rightarrow> nat_str n) = nat_str n"
    by (simp add: s split: list.splits char.splits bool.splits)
  then show ?thesis
    using nat_str_digits [of n] le by (simp add: parse_uint_def Let_def)
qed

lemma colon_notin_nat_str: "CHR '':'' \<notin> set (nat_str n)"
  using nat_str_digits [of n] is_digit_char_cases by (auto simp: list_all_iff)

lemma parse_uint_le: "parse_uint m s = Some n \<Longrightarrow> n \<le> m"
  by (auto simp: parse_uint_def Let_def split: if_splits)

lemma nat_str_ascii: "c \<in> set (nat_str n) \<Longrightarrow> of_char c < (128 :: nat)"
  using nat_str_digits [of n] by (auto simp: list_all_iff is_digit_char_def Let_def)

end
