(* ===== verification/Rust_Text.thy ===== *)
theory Rust_Text
  imports Rust_Str
begin

text \<open>
  The text functions of \<^verbatim>\<open>str\<close> the program uses on the output of other programs: \<^verbatim>\<open>trim\<close>,
  \<^verbatim>\<open>split_whitespace\<close> and \<^verbatim>\<open>lines\<close>. White space is the Unicode property, as the UTF-8 bytes of its characters.
\<close>

definition utf8_chars :: "nat list \<Rightarrow> string" where
  "utf8_chars = map char_of"

definition WHITE_SPACE :: "string list" where
  "WHITE_SPACE =
     map (\<lambda>n. utf8_chars [n]) [9, 10, 11, 12, 13, 32] @
     map utf8_chars [[194, 133], [194, 160], [225, 154, 128], [226, 128, 168], [226, 128, 169],
       [226, 128, 175], [226, 129, 159], [227, 128, 128]] @
     map (\<lambda>n. utf8_chars [226, 128, n]) [128..<139]"

definition ends_with :: "string \<Rightarrow> string \<Rightarrow> bool" where
  "ends_with s suffix = starts_with (rev s) (rev suffix)"

text \<open>The length of the white space character a string starts (ends) with, 0 if none.\<close>

definition front_space :: "string \<Rightarrow> nat" where
  "front_space s = (case List.find (starts_with s) WHITE_SPACE of None \<Rightarrow> 0 | Some w \<Rightarrow> length w)"

definition back_space :: "string \<Rightarrow> nat" where
  "back_space s = (case List.find (ends_with s) WHITE_SPACE of None \<Rightarrow> 0 | Some w \<Rightarrow> length w)"

lemma front_space_le: "front_space s \<le> length s"
  by (auto simp: front_space_def starts_with_def str_strip_prefix_Some_iff find_Some_iff split: option.splits)

lemma back_space_le: "back_space s \<le> length s"
proof -
  have "length w \<le> length s" if "ends_with s w" for w
  proof -
    from that obtain r where "rev s = rev w @ r"
      by (auto simp: ends_with_def starts_with_def str_strip_prefix_Some_iff)
    then have "length (rev s) = length w + length r" by simp
    then show ?thesis by simp
  qed
  then show ?thesis by (auto simp: back_space_def find_Some_iff split: option.splits)
qed

function trim_start :: "string \<Rightarrow> string" where
  "trim_start s = (if front_space s = 0 then s else trim_start (drop (front_space s) s))"
  by pat_completeness auto
termination
proof (relation "measure length")
  show "(drop (front_space s) s, s) \<in> measure length" if "front_space s \<noteq> 0" for s
    using that front_space_le [of s] by simp
qed simp

function trim_end :: "string \<Rightarrow> string" where
  "trim_end s = (if back_space s = 0 then s else trim_end (take (length s - back_space s) s))"
  by pat_completeness auto
termination
proof (relation "measure length")
  show "(take (length s - back_space s) s, s) \<in> measure length" if "back_space s \<noteq> 0" for s
    using that back_space_le [of s] by simp
qed simp

declare trim_start.simps [simp del] trim_end.simps [simp del]

definition trim :: "string \<Rightarrow> string" where
  "trim s = trim_end (trim_start s)"

text \<open>\<^verbatim>\<open>split_whitespace\<close>: the maximal runs of other characters.\<close>

fun words_from :: "string \<Rightarrow> nat \<Rightarrow> string \<Rightarrow> string list" where
  "words_from word 0 s = (if word = [] then [] else [word])"
| "words_from word (Suc fuel) s =
     (case s of
        [] \<Rightarrow> if word = [] then [] else [word]
      | c # cs \<Rightarrow>
          if front_space s = 0 then words_from (word @ [c]) fuel cs
          else (if word = [] then [] else [word]) @ words_from [] fuel (drop (front_space s) s))"

definition split_whitespace :: "string \<Rightarrow> string list" where
  "split_whitespace s = words_from [] (length s) s"

text \<open>\<^verbatim>\<open>lines\<close>: pieces ended by a newline, each without a carriage return before it.\<close>

definition NEWLINE_CHAR :: char where "NEWLINE_CHAR = char_of (10 :: nat)"
definition RETURN_CHAR :: char where "RETURN_CHAR = char_of (13 :: nat)"

definition strip_return :: "string \<Rightarrow> string" where
  "strip_return l = (if l \<noteq> [] \<and> last l = RETURN_CHAR then butlast l else l)"

definition lines :: "string \<Rightarrow> string list" where
  "lines s =
     (let pieces = split_on NEWLINE_CHAR s
      in map strip_return (butlast pieces) @ (if last pieces = [] then [] else [last pieces]))"

end
