(* ===== verification/Paths.thy ===== *)
theory Paths
  imports Rust_Str
begin

text \<open>
  \<^verbatim>\<open>std::path\<close> on Unix. A path is its list of components, which is what \<^verbatim>\<open>Path\<close> equality, hashing,
  \<^verbatim>\<open>strip_prefix\<close> and \<^verbatim>\<open>starts_with\<close> compare; \<open>path_of\<close> parses a string as \<^verbatim>\<open>Path::components\<close> does and
  \<open>path_str\<close> renders a path. The keys of the file index are relative paths.
\<close>

datatype path_component = RootDir | CurDir | ParentDir | Normal string

type_synonym path = "path_component list"

definition SLASH :: char where "SLASH = CHR ''/''"
definition DOT :: char where "DOT = CHR ''.''"

definition inner_component :: "string \<Rightarrow> path_component list" where
  "inner_component p =
     (if p = [] \<or> p = [DOT] then [] else if p = [DOT, DOT] then [ParentDir] else [Normal p])"

definition path_of :: "string \<Rightarrow> path" where
  "path_of s =
     (case split_on SLASH s of
        [] \<Rightarrow> []
      | p # ps \<Rightarrow>
          (if p = [] \<and> ps \<noteq> [] then RootDir # concat (map inner_component ps)
           else (if p = [DOT] then [CurDir] else inner_component p) @ concat (map inner_component ps)))"

fun component_str :: "path_component \<Rightarrow> string" where
  "component_str RootDir = []"
| "component_str CurDir = [DOT]"
| "component_str ParentDir = [DOT, DOT]"
| "component_str (Normal s) = s"

fun path_str :: "path \<Rightarrow> string" where
  "path_str [RootDir] = [SLASH]"
| "path_str cs = join_with [SLASH] (map component_str cs)"

definition to_string_lossy :: "path \<Rightarrow> string" where
  "to_string_lossy p = from_utf8_lossy (path_str p)"

definition path_file_name :: "path \<Rightarrow> string option" where
  "path_file_name p = (if p = [] then None else case last p of Normal s \<Rightarrow> Some s | _ \<Rightarrow> None)"

definition path_parent :: "path \<Rightarrow> path option" where
  "path_parent p = (if p = [] \<or> last p = RootDir then None else Some (butlast p))"

text \<open>The part of a file name after its last dot, unless that dot is the first character.\<close>

fun after_last_dot :: "string \<Rightarrow> string option" where
  "after_last_dot [] = None"
| "after_last_dot (c # s) =
     (case after_last_dot s of Some e \<Rightarrow> Some e | None \<Rightarrow> if c = DOT then Some s else None)"

definition name_extension :: "string \<Rightarrow> string option" where
  "name_extension n = (case n of [] \<Rightarrow> None | c # s \<Rightarrow> after_last_dot s)"

definition path_extension :: "path \<Rightarrow> string option" where
  "path_extension p = Option.bind (path_file_name p) name_extension"

fun path_strip_prefix :: "path \<Rightarrow> path \<Rightarrow> path option" where
  "path_strip_prefix [] p = Some p"
| "path_strip_prefix (b # bs) [] = None"
| "path_strip_prefix (b # bs) (c # cs) = (if b = c then path_strip_prefix bs cs else None)"

definition path_starts_with :: "path \<Rightarrow> path \<Rightarrow> bool" where
  "path_starts_with p base = (path_strip_prefix base p \<noteq> None)"

definition is_absolute :: "path \<Rightarrow> bool" where
  "is_absolute p = (p \<noteq> [] \<and> hd p = RootDir)"

text \<open>\<^verbatim>\<open>Path::join\<close>: an absolute argument replaces the base; a leading \<^verbatim>\<open>.\<close> of the argument disappears.\<close>

definition path_join :: "path \<Rightarrow> path \<Rightarrow> path" where
  "path_join p q =
     (if is_absolute q then q
      else if p \<noteq> [] \<and> q \<noteq> [] \<and> hd q = CurDir then p @ tl q
      else p @ q)"

section \<open>Lemmas\<close>

lemma path_strip_prefix_Some_iff: "path_strip_prefix b p = Some r \<longleftrightarrow> p = b @ r"
  by (induction b p rule: path_strip_prefix.induct) auto

lemma path_strip_prefix_append [simp]: "path_strip_prefix b (b @ r) = Some r"
  by (simp add: path_strip_prefix_Some_iff)

lemma path_starts_with_iff: "path_starts_with p b \<longleftrightarrow> (\<exists>r. p = b @ r)"
  by (auto simp: path_starts_with_def path_strip_prefix_Some_iff)

text \<open>A relative path below a directory: what \<^verbatim>\<open>strip_prefix(root)\<close> yields for a walked file.\<close>

definition plain_name :: "string \<Rightarrow> bool" where
  "plain_name s \<longleftrightarrow> s \<noteq> [] \<and> s \<noteq> [DOT] \<and> s \<noteq> [DOT, DOT] \<and> SLASH \<notin> set s"

definition plain_path :: "path \<Rightarrow> bool" where
  "plain_path p \<longleftrightarrow> (\<forall>c \<in> set p. \<exists>s. c = Normal s \<and> plain_name s)"

lemma plain_path_Nil [simp]: "plain_path []"
  by (simp add: plain_path_def)

lemma plain_path_append [simp]: "plain_path (p @ q) \<longleftrightarrow> plain_path p \<and> plain_path q"
  by (auto simp: plain_path_def)

lemma plain_path_Cons [simp]:
  "plain_path (c # p) \<longleftrightarrow> (\<exists>s. c = Normal s \<and> plain_name s) \<and> plain_path p"
  by (auto simp: plain_path_def)

lemma inner_component_plain: "plain_name s \<Longrightarrow> inner_component s = [Normal s]"
  by (simp add: inner_component_def plain_name_def)

lemma concat_inner_plain:
  "plain_path p \<Longrightarrow> concat (map inner_component (map component_str p)) = p"
  by (induction p) (auto simp: inner_component_plain)

lemma component_str_plain: "plain_path p \<Longrightarrow> c \<in> set p \<Longrightarrow> plain_name (component_str c)"
  by (auto simp: plain_path_def)

lemma path_str_plain: "plain_path p \<Longrightarrow> path_str p = join_with [SLASH] (map component_str p)"
  by (cases p rule: path_str.cases) auto

lemma split_path_str:
  assumes "plain_path p" and "p \<noteq> []"
  shows "split_on SLASH (path_str p) = map component_str p"
  unfolding path_str_plain [OF assms(1)]
  by (rule split_on_join) (use assms component_str_plain [OF assms(1)] in \<open>auto simp: plain_name_def\<close>)

text \<open>Rendering a relative path and parsing it again gives the path: the wire name identifies the file.\<close>

lemma path_of_path_str:
  assumes "plain_path p"
  shows "path_of (path_str p) = p"
proof (cases p)
  case Nil
  then show ?thesis by (simp add: path_of_def inner_component_def)
next
  case (Cons c cs)
  with assms obtain s where s: "c = Normal s" "plain_name s" "plain_path cs" by auto
  have "split_on SLASH (path_str p) = component_str c # map component_str cs"
    using split_path_str [OF assms] Cons by simp
  then show ?thesis
    using s Cons concat_inner_plain [OF s(3)] by (simp add: path_of_def plain_name_def inner_component_plain)
qed

lemma path_str_inj: "plain_path p \<Longrightarrow> plain_path q \<Longrightarrow> path_str p = path_str q \<Longrightarrow> p = q"
  by (metis path_of_path_str)

lemma path_join_strip: "plain_path q \<Longrightarrow> path_strip_prefix p (path_join p q) = Some q"
  by (cases q) (auto simp: path_join_def is_absolute_def path_strip_prefix_Some_iff)

end
