(* ===== verification/Root_Clock.thy ===== *)
theory Root_Clock
  imports Rust_Str
begin

text \<open>
  The clock of a watched root (\<^verbatim>\<open>daemon/clock.rs\<close>): the monotonic tick counter, its rendering as the
  string clients keep, and the clock specifications a \<^verbatim>\<open>since\<close> query may carry.
\<close>

section \<open>The clock\<close>

record clock =
  ticks :: nat
  root_number :: nat
  start_time :: nat
  pid :: nat

text \<open>\<open>now\<close> and \<open>pid\<close> are the seconds since the epoch and the process id at creation.\<close>

definition clock_new :: "nat \<Rightarrow> nat \<Rightarrow> nat \<Rightarrow> clock" where
  "clock_new now pid0 number =
     \<lparr> ticks = 1, root_number = number, start_time = now, pid = pid0 \<rparr>"

abbreviation current_tick :: "clock \<Rightarrow> nat" where
  "current_tick \<equiv> ticks"

text \<open>\<^verbatim>\<open>fetch_add\<close> wraps at the width of \<^verbatim>\<open>AtomicU64\<close>.\<close>

definition bump :: "clock \<Rightarrow> nat \<times> clock" where
  "bump c = (let t = (ticks c + 1) mod 2 ^ 64 in (t, c\<lparr>ticks := t\<rparr>))"

definition clock_encode :: "clock \<Rightarrow> nat \<Rightarrow> string" where
  "clock_encode c tick =
     ''c:'' @ nat_str (start_time c) @ '':'' @ nat_str (pid c) @ '':'' @ nat_str (root_number c)
       @ '':'' @ nat_str tick"

definition current_string :: "clock \<Rightarrow> string" where
  "current_string c = clock_encode c (current_tick c)"

definition clock_wf :: "clock \<Rightarrow> bool" where
  "clock_wf c \<longleftrightarrow> ticks c < 2 ^ 64 \<and> root_number c < 2 ^ 64 \<and> start_time c < 2 ^ 64 \<and> pid c < 2 ^ 32"

section \<open>Clock specifications\<close>

datatype scm_vcs = Git | Hg

datatype clock_spec =
    Epoch
  | Tick nat
  | Named string
  | FullClock nat nat nat nat
  | Scm scm_vcs string

definition parse_full :: "string \<Rightarrow> clock_spec" where
  "parse_full rest =
     (case split_on (CHR '':'') rest of
        [a, b, c, d] \<Rightarrow>
          (case (parse_uint u64_max a, parse_uint u32_max b, parse_uint u64_max c, parse_uint u64_max d) of
             (Some st, Some p, Some rn, Some t) \<Rightarrow> FullClock st p rn t
           | _ \<Rightarrow> Epoch)
      | _ \<Rightarrow> Epoch)"

definition parse_scm :: "string \<Rightarrow> clock_spec" where
  "parse_scm scm =
     (let (vcs, mergebase) = (case split_once (CHR '':'') scm of None \<Rightarrow> (scm, []) | Some p \<Rightarrow> p) in
      if vcs = ''git'' then Scm Git mergebase
      else if vcs = ''hg'' \<or> vcs = ''sapling'' \<or> vcs = ''sl'' then Scm Hg mergebase
      else Epoch)"

definition clock_parse :: "string \<Rightarrow> clock_spec" where
  "clock_parse s =
     (case str_strip_prefix ''c:'' s of
        Some rest \<Rightarrow> parse_full rest
      | None \<Rightarrow>
     (case str_strip_prefix ''n:'' s of
        Some name \<Rightarrow> Named name
      | None \<Rightarrow>
     (case str_strip_prefix ''scm:'' s of
        Some scm \<Rightarrow> parse_scm scm
      | None \<Rightarrow>
     (case parse_uint u64_max s of Some n \<Rightarrow> Tick n | None \<Rightarrow> Epoch))))"

definition same_instance :: "clock \<Rightarrow> nat \<Rightarrow> nat \<Rightarrow> nat \<Rightarrow> bool" where
  "same_instance c st p rn \<longleftrightarrow> st = start_time c \<and> p = pid c \<and> rn = root_number c"

fun tick_against :: "clock_spec \<Rightarrow> clock \<Rightarrow> nat" where
  "tick_against Epoch c = 0"
| "tick_against (Named n) c = 0"
| "tick_against (Scm v m) c = 0"
| "tick_against (Tick t) c = t"
| "tick_against (FullClock st p rn t) c = (if same_instance c st p rn then t else 0)"

section \<open>Lemmas\<close>

lemma bump_tick:
  assumes "ticks c < 2 ^ 64 - 1"
  shows "bump c = (ticks c + 1, c\<lparr>ticks := ticks c + 1\<rparr>)"
  using assms by (simp add: bump_def Let_def)

lemma bump_wf: "clock_wf c \<Longrightarrow> clock_wf (snd (bump c))"
  by (simp add: bump_def clock_wf_def Let_def)

lemma parse_full_encode:
  assumes "clock_wf c" and "t < 2 ^ 64"
  shows "parse_full (nat_str (start_time c) @ '':'' @ nat_str (pid c) @ '':'' @ nat_str (root_number c)
    @ '':'' @ nat_str t) = FullClock (start_time c) (pid c) (root_number c) t"
  using assms
  by (simp add: parse_full_def split_on_sep split_on_plain colon_notin_nat_str parse_nat_str
      clock_wf_def u64_max_def u32_max_def)

lemma clock_parse_encode:
  assumes "clock_wf c" and "t < 2 ^ 64"
  shows "clock_parse (clock_encode c t) = FullClock (start_time c) (pid c) (root_number c) t"
  using parse_full_encode [OF assms] by (simp add: clock_parse_def clock_encode_def)

lemma tick_against_encode:
  assumes "clock_wf c" and "t < 2 ^ 64"
  shows "tick_against (clock_parse (clock_encode c t)) c' =
    (if same_instance c' (start_time c) (pid c) (root_number c) then t else 0)"
  using assms by (simp add: clock_parse_encode)

lemma same_instance_bump [simp]:
  "same_instance (snd (bump c)) st p rn = same_instance c st p rn"
  by (simp add: bump_def same_instance_def Let_def)

lemma same_instance_refl [simp]: "same_instance c (start_time c) (pid c) (root_number c)"
  by (simp add: same_instance_def)

text \<open>The tick of a parsed specification always fits its type.\<close>

lemma clock_parse_tick_bound: "tick_against (clock_parse s) c < 2 ^ 64"
proof -
  have "tick_against (parse_full r) c < 2 ^ 64" for r
    using parse_uint_le [of u64_max]
    by (fastforce simp: parse_full_def u64_max_def split: list.splits option.splits)
  moreover have "tick_against (parse_scm r) c = 0" for r
    by (simp add: parse_scm_def Let_def split: prod.splits)
  moreover have "parse_uint u64_max s = Some n \<Longrightarrow> n < 2 ^ 64" for n
    using parse_uint_le [of u64_max s n] by (simp add: u64_max_def)
  ultimately show ?thesis
    by (auto simp: clock_parse_def split: option.splits)
qed

section \<open>Properties\<close>

text \<open>
  A clock string is read back exactly: the specification parsed from the string a root hands out
  resolves to the tick it was made from on that root, and to tick 0 (every file) on a root of another
  start time, process or number.
\<close>

theorem clock_string_roundtrip:
  assumes "clock_wf c" and "t < 2 ^ 64"
  shows "clock_parse (clock_encode c t) = FullClock (start_time c) (pid c) (root_number c) t \<and>
    tick_against (clock_parse (clock_encode c t)) c' =
      (if start_time c' = start_time c \<and> pid c' = pid c \<and> root_number c' = root_number c then t else 0)"
  using assms by (auto simp: clock_parse_encode same_instance_def)

theorem clock_string_roundtrip_witness:
  "clock_parse (clock_encode (clock_new 1700000000 42 7) 99) = FullClock 1700000000 42 7 99 \<and>
    tick_against (clock_parse (clock_encode (clock_new 1700000000 42 7) 99)) (clock_new 1700000000 42 8) = 0"
  using clock_string_roundtrip [of "clock_new 1700000000 42 7" 99 "clock_new 1700000000 42 8"]
  by (simp add: clock_new_def clock_wf_def same_instance_def)

end
