(* ===== verification/Scm.thy ===== *)
theory Scm
  imports Rust_Text Paths Root_Clock
begin

text \<open>
  Changed paths according to the version control system (\<^verbatim>\<open>daemon/scm.rs\<close>). The programs \<^verbatim>\<open>git\<close> and \<^verbatim>\<open>hg\<close>
  are the parameter \<open>scm_exec\<close>: what a command run in a directory prints, or \<open>None\<close> when it cannot be
  started or exits with an error.
\<close>

type_synonym scm_exec = "path \<Rightarrow> string \<Rightarrow> string list \<Rightarrow> string option"

definition scm_run :: "scm_exec \<Rightarrow> path \<Rightarrow> string \<Rightarrow> string list \<Rightarrow> string option" where
  "scm_run X cwd program args = map_option from_utf8_lossy (X cwd program args)"

definition git_target :: "scm_exec \<Rightarrow> path \<Rightarrow> string \<Rightarrow> string" where
  "git_target X rt mergebase =
     (if mergebase = [] then ''HEAD''
      else (case scm_run X rt ''git'' [''merge-base'', ''HEAD'', mergebase] of
              None \<Rightarrow> mergebase
            | Some s \<Rightarrow> trim s))"

definition or_default :: "string option \<Rightarrow> string" where
  "or_default s = (case s of None \<Rightarrow> [] | Some x \<Rightarrow> x)"

definition git_changed :: "scm_exec \<Rightarrow> path \<Rightarrow> string \<Rightarrow> string option" where
  "git_changed X rt mergebase =
     (case scm_run X rt ''git'' [''diff'', ''--name-only'', ''--relative'', git_target X rt mergebase @ ''..HEAD''] of
        None \<Rightarrow> None
      | Some changed \<Rightarrow>
          (let working = or_default (scm_run X rt ''git'' [''diff'', ''--name-only'', ''--relative'', ''HEAD'']);
               untracked = or_default (scm_run X rt ''git'' [''ls-files'', ''--others'', ''--exclude-standard''])
           in Some (changed @ [NEWLINE_CHAR] @ working @ [NEWLINE_CHAR] @ untracked)))"

definition hg_changed :: "scm_exec \<Rightarrow> path \<Rightarrow> string \<Rightarrow> string option" where
  "hg_changed X rt mergebase =
     (let rev_arg = (if mergebase = [] then ''.^'' else mergebase)
      in scm_run X rt ''hg'' [''status'', ''--no-status'', ''--rev'', rev_arg])"

definition changed_paths :: "scm_exec \<Rightarrow> path \<Rightarrow> scm_vcs \<Rightarrow> string \<Rightarrow> path list option" where
  "changed_paths X rt vcs mergebase =
     (case (case vcs of Git \<Rightarrow> git_changed X rt mergebase | Hg \<Rightarrow> hg_changed X rt mergebase) of
        None \<Rightarrow> None
      | Some out \<Rightarrow>
          Some (remdups (map path_of (filter (\<lambda>l. l \<noteq> []) (map trim (lines out))))))"

section \<open>Trimming\<close>

lemma starts_with_iff: "starts_with s w \<longleftrightarrow> (\<exists>r. s = w @ r)"
  by (cases "str_strip_prefix w s") (auto simp: starts_with_def str_strip_prefix_Some_iff)

lemma white_space_chars:
  "[] \<notin> set WHITE_SPACE" "w \<in> set WHITE_SPACE \<Longrightarrow> RETURN_CHAR \<in> set w \<Longrightarrow> w = [RETURN_CHAR]"
  "[RETURN_CHAR] \<in> set WHITE_SPACE"
  by (auto simp: WHITE_SPACE_def utf8_chars_def RETURN_CHAR_def upt_rec)

lemma starts_with_return:
  assumes "m \<noteq> []" and "w \<in> set WHITE_SPACE"
  shows "starts_with (m @ [RETURN_CHAR]) w = starts_with m w"
proof
  assume "starts_with (m @ [RETURN_CHAR]) w"
  then obtain r where r: "m @ [RETURN_CHAR] = w @ r" by (auto simp: starts_with_iff)
  show "starts_with m w"
  proof (cases r rule: rev_cases)
    case Nil
    then have w: "w = m @ [RETURN_CHAR]" using r by simp
    have "w = [RETURN_CHAR]" using white_space_chars(2) [OF assms(2)] w by simp
    then show ?thesis using assms(1) w by simp
  next
    case (snoc r' c)
    then show ?thesis using r by (auto simp: starts_with_iff)
  qed
qed (auto simp: starts_with_iff)

lemma find_cong_set: "(\<And>x. x \<in> set xs \<Longrightarrow> P x = Q x) \<Longrightarrow> List.find P xs = List.find Q xs"
  by (induction xs) auto

lemma front_space_return: "m \<noteq> [] \<Longrightarrow> front_space (m @ [RETURN_CHAR]) = front_space m"
  using find_cong_set [of WHITE_SPACE "starts_with (m @ [RETURN_CHAR])" "starts_with m"] starts_with_return [of m]
  by (simp add: front_space_def)

lemma front_space_Nil [simp]: "front_space [] = 0"
  using front_space_le [of "[]"] by simp

lemma front_space_single: "front_space [RETURN_CHAR] = 1"
proof -
  have "List.find (starts_with [RETURN_CHAR]) WHITE_SPACE = Some [RETURN_CHAR]"
    by (simp add: WHITE_SPACE_def utf8_chars_def RETURN_CHAR_def starts_with_def upt_rec)
  then show ?thesis by (simp add: front_space_def)
qed

lemma back_space_return: "back_space (m @ [RETURN_CHAR]) = 1"
proof -
  have "starts_with (RETURN_CHAR # rev m) (rev w) \<longleftrightarrow> w = [RETURN_CHAR]" if "w \<in> set WHITE_SPACE" for w
  proof
    assume "starts_with (RETURN_CHAR # rev m) (rev w)"
    then obtain r where "RETURN_CHAR # rev m = rev w @ r" by (auto simp: starts_with_iff)
    moreover have "rev w \<noteq> []" using that white_space_chars(1) by auto
    ultimately have "RETURN_CHAR \<in> set (rev w)" by (cases "rev w") auto
    then show "w = [RETURN_CHAR]" using white_space_chars(2) [OF that] by simp
  qed (simp add: starts_with_iff)
  then have "List.find (ends_with (m @ [RETURN_CHAR])) WHITE_SPACE = List.find (\<lambda>w. w = [RETURN_CHAR]) WHITE_SPACE"
    by (intro find_cong_set) (simp add: ends_with_def)
  also have "\<dots> = Some [RETURN_CHAR]"
    by (simp add: WHITE_SPACE_def utf8_chars_def RETURN_CHAR_def upt_rec)
  finally show ?thesis by (simp add: back_space_def)
qed

lemma trim_start_return:
  "trim_start (m @ [RETURN_CHAR]) = (if trim_start m = [] then [] else trim_start m @ [RETURN_CHAR])"
proof (induction m rule: trim_start.induct)
  case (1 m)
  show ?case
  proof (cases "m = []")
    case True
    then show ?thesis
      by (simp add: trim_start.simps [of "[RETURN_CHAR]"] trim_start.simps [of "[]"] front_space_single)
  next
    case False
    then show ?thesis
      using 1 front_space_return [OF False] front_space_le [of m]
      by (cases "front_space m = 0")
        (simp_all add: trim_start.simps [of m] trim_start.simps [of "m @ [RETURN_CHAR]"])
  qed
qed

lemma trim_strip_return: "trim (strip_return l) = trim l"
proof -
  have "trim (m @ [RETURN_CHAR]) = trim m" for m
  proof (cases "trim_start m = []")
    case False
    have "trim_end (trim_start m @ [RETURN_CHAR]) = trim_end (trim_start m)"
      by (simp add: trim_end.simps [of "trim_start m @ [RETURN_CHAR]"] back_space_return)
    then show ?thesis using False by (simp add: trim_def trim_start_return)
  qed (simp add: trim_def trim_start_return)
  then show ?thesis by (metis append_butlast_last_id strip_return_def)
qed

section \<open>Properties\<close>

text \<open>The paths a command prints: one per line that is not blank.\<close>

definition listed :: "string \<Rightarrow> path set" where
  "listed out = {path_of (trim l) | l. l \<in> set (split_on NEWLINE_CHAR out) \<and> trim l \<noteq> []}"

lemma trim_Nil [simp]: "trim [] = []"
proof -
  have "back_space [] = 0" using back_space_le [of "[]"] by simp
  then show ?thesis by (simp add: trim_def trim_start.simps [of "[]"] trim_end.simps [of "[]"])
qed

lemma listed_lines: "path_of ` {t \<in> trim ` set (lines out). t \<noteq> []} = listed out"
proof -
  let ?p = "split_on NEWLINE_CHAR out"
  have p: "set ?p = insert (last ?p) (set (butlast ?p))"
    by (metis append_butlast_last_id list.set(1,2) set_append split_on_ne Un_insert_right sup_bot_right)
  have "{t \<in> trim ` set (lines out). t \<noteq> []} = {t \<in> trim ` set ?p. t \<noteq> []}"
    by (subst p) (auto simp: lines_def Let_def image_iff trim_strip_return)
  then show ?thesis unfolding listed_def by (auto simp: image_iff)
qed

lemma split_on_append_sep: "split_on c (a @ c # b) = split_on c a @ split_on c b"
  by (induction a) (auto split: list.splits)

lemma listed_append: "listed (a @ NEWLINE_CHAR # b) = listed a \<union> listed b"
  by (auto simp: listed_def split_on_append_sep)

text \<open>
  The files a version-control query is about: for git exactly the paths printed by the diff of the
  resolved merge base against \<^verbatim>\<open>HEAD\<close>, by the diff of the working copy, and by the list of untracked files,
  where only a failure of the first makes the whole fail; for hg exactly the paths of \<^verbatim>\<open>hg status\<close>.
\<close>

theorem scm_paths_are_union:
  "map_option set (changed_paths X rt Git base) =
     map_option (\<lambda>out. listed out
        \<union> listed (or_default (scm_run X rt ''git'' [''diff'', ''--name-only'', ''--relative'', ''HEAD'']))
        \<union> listed (or_default (scm_run X rt ''git'' [''ls-files'', ''--others'', ''--exclude-standard''])))
      (scm_run X rt ''git'' [''diff'', ''--name-only'', ''--relative'', git_target X rt base @ ''..HEAD'']) \<and>
   map_option set (changed_paths X rt Hg base) =
     map_option listed (scm_run X rt ''hg'' [''status'', ''--no-status'', ''--rev'', if base = [] then ''.^'' else base])"
proof -
  have out: "set (remdups (map path_of (filter (\<lambda>l. l \<noteq> []) (map trim (lines out))))) = listed out" for out
    using listed_lines [of out] by simp
  have "map_option set (changed_paths X rt vcs base) = map_option listed
      (case vcs of Git \<Rightarrow> git_changed X rt base | Hg \<Rightarrow> hg_changed X rt base)" for vcs
    unfolding changed_paths_def using out by (auto split: option.splits)
  then show ?thesis
    by (auto simp: git_changed_def hg_changed_def listed_append Un_assoc split: option.splits)
qed

end
