(* ===== verification/File_Tree.thy ===== *)
theory File_Tree
  imports Paths
begin

text \<open>
  The in-memory file index of one root (\<^verbatim>\<open>daemon/tree.rs\<close>). The hash map is an insertion-ordered map
  from relative paths to entries; the arena only decides where bytes live and is left out. Deleted
  files stay as tombstones (\<open>exists = False\<close>) until they are pruned; \<open>live\<close> and \<open>tombstones\<close> count the two
  kinds of entries. Ticks and file sizes are naturals, times are integers.
\<close>

section \<open>Entries\<close>

datatype file_kind = KFile | KDir | KSymlink | KBlock | KChar | KFifo | KSocket | KUnknown

fun as_wire_str :: "file_kind \<Rightarrow> string" where
  "as_wire_str KFile = ''f''"
| "as_wire_str KDir = ''d''"
| "as_wire_str KSymlink = ''l''"
| "as_wire_str KBlock = ''b''"
| "as_wire_str KChar = ''c''"
| "as_wire_str KFifo = ''p''"
| "as_wire_str KSocket = ''s''"
| "as_wire_str KUnknown = ''?''"

record file_entry =
  exists :: bool
  kind :: file_kind
  fsize :: nat
  mode :: nat
  uid :: nat
  gid :: nat
  mtime_ns :: int
  ctime_ns :: int
  mtime_ms :: int
  ctime_ms :: int
  ino :: nat
  dev :: nat
  nlink :: nat
  symlink_target :: "string option"
  cclock :: nat
  oclock :: nat
  is_new :: bool

text \<open>
  \<^verbatim>\<open>std::fs::Metadata\<close>: the file type, the raw fields and the two timestamps in nanoseconds since the
  epoch (\<open>None\<close> where the platform reports none, negative before the epoch).
\<close>

datatype file_type = FtFile | FtDir | FtSymlink | FtBlock | FtChar | FtFifo | FtSocket | FtOther

record metadata =
  md_type :: file_type
  md_len :: nat
  md_mode :: nat
  md_uid :: nat
  md_gid :: nat
  md_ino :: nat
  md_dev :: nat
  md_nlink :: nat
  md_modified :: "int option"
  md_created :: "int option"

definition metadata_time_ns :: "int option \<Rightarrow> int" where
  "metadata_time_ns t = (case t of None \<Rightarrow> 0 | Some ns \<Rightarrow> if 0 \<le> ns then ns else 0)"

definition classify_unix :: "metadata \<Rightarrow> file_kind" where
  "classify_unix md =
     (if md_type md = FtBlock then KBlock
      else if md_type md = FtChar then KChar
      else if md_type md = FtFifo then KFifo
      else if md_type md = FtSocket then KSocket
      else KUnknown)"

definition missing :: "nat \<Rightarrow> file_entry" where
  "missing tick =
     \<lparr> exists = False, kind = KUnknown, fsize = 0, mode = 0, uid = 0, gid = 0,
       mtime_ns = 0, ctime_ns = 0, mtime_ms = 0, ctime_ms = 0, ino = 0, dev = 0, nlink = 0,
       symlink_target = None, cclock = tick, oclock = tick, is_new = False \<rparr>"

definition from_metadata :: "metadata \<Rightarrow> string option \<Rightarrow> nat \<Rightarrow> file_entry" where
  "from_metadata md target tick =
     (let k = (if md_type md = FtSymlink then KSymlink
               else if md_type md = FtDir then KDir
               else if md_type md = FtFile then KFile
               else classify_unix md);
          mt = metadata_time_ns (md_modified md);
          ct = metadata_time_ns (case md_created md of Some c \<Rightarrow> Some c | None \<Rightarrow> md_modified md)
      in \<lparr> exists = True, kind = k, fsize = md_len md, mode = md_mode md, uid = md_uid md,
           gid = md_gid md, mtime_ns = mt, ctime_ns = ct,
           mtime_ms = as_i64 (tdiv mt 1000000), ctime_ms = as_i64 (tdiv ct 1000000),
           ino = md_ino md, dev = md_dev md, nlink = md_nlink md, symlink_target = target,
           cclock = tick, oclock = tick, is_new = True \<rparr>)"

section \<open>The tree\<close>

record tree =
  entries :: "(path, file_entry) imap"
  live :: nat
  tombstones :: nat

definition tree_new :: tree where
  "tree_new = \<lparr> entries = [], live = 0, tombstones = 0 \<rparr>"

definition tree_len :: "tree \<Rightarrow> nat" where
  "tree_len t = length (entries t)"

definition live_count :: "tree \<Rightarrow> nat" where
  "live_count t = live t"

definition tombstone_count :: "tree \<Rightarrow> nat" where
  "tombstone_count t = tombstones t"

definition tree_get :: "tree \<Rightarrow> path \<Rightarrow> file_entry option" where
  "tree_get t rel = im_get (entries t) rel"

definition tree_contains :: "path \<Rightarrow> tree \<Rightarrow> bool" where
  "tree_contains rel t = im_contains rel (entries t)"

definition upsert ::
  "path \<Rightarrow> metadata \<Rightarrow> string option \<Rightarrow> nat \<Rightarrow> bool \<Rightarrow> nat \<Rightarrow> tree \<Rightarrow> tree" where
  "upsert rel md target tick new cc t =
     (let e = (from_metadata md target tick)\<lparr>is_new := new, cclock := cc\<rparr>;
          t' = t\<lparr>entries := im_insert rel e (entries t)\<rparr>
      in case im_get (entries t) rel of
           Some old \<Rightarrow>
             (if \<not> exists old then t'\<lparr>live := live t + 1, tombstones := tombstones t - 1\<rparr> else t')
         | None \<Rightarrow> t'\<lparr>live := live t + 1\<rparr>)"

definition mark_gone :: "path \<Rightarrow> nat \<Rightarrow> tree \<Rightarrow> tree" where
  "mark_gone rel tick t =
     (case im_get (entries t) rel of
        None \<Rightarrow> t
      | Some e \<Rightarrow>
          (let t' = (if exists e then t\<lparr>live := live t - 1, tombstones := tombstones t + 1\<rparr> else t);
               e' = e\<lparr>exists := False, oclock := tick, is_new := False\<rparr>
           in t'\<lparr>entries := im_insert rel e' (entries t)\<rparr>))"

definition record_gone :: "path \<Rightarrow> nat \<Rightarrow> tree \<Rightarrow> tree" where
  "record_gone rel tick t =
     (if im_contains rel (entries t) then mark_gone rel tick t
      else t\<lparr>entries := im_insert rel (missing tick) (entries t), tombstones := tombstones t + 1\<rparr>)"

definition record_signal :: "path \<Rightarrow> nat \<Rightarrow> tree \<Rightarrow> tree" where
  "record_signal rel tick t =
     (let (cc, was_live, was_tombstone) =
            (case im_get (entries t) rel of
               Some e \<Rightarrow> (cclock e, exists e, \<not> exists e)
             | None \<Rightarrow> (tick, False, False));
          e = (missing tick)\<lparr>exists := True, kind := KFile, cclock := cc, is_new := (cc = tick)\<rparr>;
          t' = t\<lparr>entries := im_insert rel e (entries t)\<rparr>
      in if \<not> was_live
         then t'\<lparr>live := live t + 1,
                 tombstones := (if was_tombstone then tombstones t - 1 else tombstones t)\<rparr>
         else t')"

definition prune_tombstones_before :: "nat \<Rightarrow> tree \<Rightarrow> nat \<times> tree" where
  "prune_tombstones_before watermark t =
     (if tombstones t = 0 then (0, t)
      else (let es = filter (\<lambda>pe. exists (snd pe) \<or> watermark < oclock (snd pe)) (entries t);
                removed = length (entries t) - length es
            in (removed, t\<lparr>entries := es, tombstones := tombstones t - removed\<rparr>)))"

section \<open>The invariant\<close>

text \<open>Keys are distinct and the counters are exact; then their sum is the number of entries.\<close>

definition live_in :: "(path, file_entry) imap \<Rightarrow> nat" where
  "live_in m = length (filter (\<lambda>pe. exists (snd pe)) m)"

definition gone_in :: "(path, file_entry) imap \<Rightarrow> nat" where
  "gone_in m = length (filter (\<lambda>pe. \<not> exists (snd pe)) m)"

definition tree_inv :: "tree \<Rightarrow> bool" where
  "tree_inv t \<longleftrightarrow>
     im_wf (entries t) \<and> live t = live_in (entries t) \<and> tombstones t = gone_in (entries t)"

lemma live_gone_length: "live_in m + gone_in m = length m"
  unfolding live_in_def gone_in_def by (rule filter_length_split)

lemma live_in_insert:
  "live_in (im_insert k e m) =
     (case im_get m k of
        Some old \<Rightarrow> live_in m - (if exists old then 1 else 0) + (if exists e then 1 else 0)
      | None \<Rightarrow> live_in m + (if exists e then 1 else 0))"
proof (induction k e m rule: im_insert.induct)
  case (2 k v k' v' m)
  have "live_in m \<noteq> 0" if "im_get m k = Some old" "exists old" for old
    using map_of_SomeD [OF that(1)] that(2) by (force simp: live_in_def filter_empty_conv)
  with 2 show ?case by (auto simp: live_in_def split: option.splits if_splits)
qed (simp add: live_in_def)

lemma gone_in_insert:
  "gone_in (im_insert k e m) =
     (case im_get m k of
        Some old \<Rightarrow> gone_in m - (if exists old then 0 else 1) + (if exists e then 0 else 1)
      | None \<Rightarrow> gone_in m + (if exists e then 0 else 1))"
proof (induction k e m rule: im_insert.induct)
  case (2 k v k' v' m)
  have "gone_in m \<noteq> 0" if "im_get m k = Some old" "\<not> exists old" for old
    using map_of_SomeD [OF that(1)] that(2) by (force simp: gone_in_def filter_empty_conv)
  with 2 show ?case by (auto simp: gone_in_def split: option.splits if_splits)
qed (simp add: gone_in_def)

lemma live_in_pos: "im_get m k = Some e \<Longrightarrow> exists e \<Longrightarrow> 0 < live_in m"
  using map_of_SomeD [of m k e] by (force simp: live_in_def filter_empty_conv)

lemma gone_in_pos: "im_get m k = Some e \<Longrightarrow> \<not> exists e \<Longrightarrow> 0 < gone_in m"
  using map_of_SomeD [of m k e] by (force simp: gone_in_def filter_empty_conv)

lemmas count_insert = live_in_insert gone_in_insert live_in_pos gone_in_pos

lemma exists_from_metadata [simp]: "exists (from_metadata md s t)"
  by (simp add: from_metadata_def Let_def)

lemma exists_missing [simp]: "\<not> exists (missing t)" "oclock (missing t) = t" "cclock (missing t) = t"
  by (simp_all add: missing_def)

lemma from_metadata_clocks [simp]:
  "oclock (from_metadata md s t) = t" "cclock (from_metadata md s t) = t"
  by (simp_all add: from_metadata_def Let_def)

lemma tree_inv_new: "tree_inv tree_new"
  by (simp add: tree_inv_def tree_new_def live_in_def gone_in_def)

lemma tree_inv_upsert: "tree_inv t \<Longrightarrow> tree_inv (upsert rel md s tick new cc t)"
  using live_in_pos gone_in_pos
  by (auto simp: tree_inv_def upsert_def Let_def count_insert split: option.splits)

lemma tree_inv_mark_gone: "tree_inv t \<Longrightarrow> tree_inv (mark_gone rel tick t)"
  using live_in_pos gone_in_pos
  by (auto simp: tree_inv_def mark_gone_def Let_def count_insert split: option.splits)

lemma tree_inv_record_gone: "tree_inv t \<Longrightarrow> tree_inv (record_gone rel tick t)"
  using tree_inv_mark_gone [of t rel tick]
  by (auto simp: tree_inv_def record_gone_def im_contains_def count_insert split: option.splits)

lemma tree_inv_record_signal: "tree_inv t \<Longrightarrow> tree_inv (record_signal rel tick t)"
  using live_in_pos gone_in_pos
  by (auto simp: tree_inv_def record_signal_def Let_def count_insert split: option.splits)

lemma prune_entries:
  assumes "tree_inv t"
  shows "entries (snd (prune_tombstones_before w t))
    = filter (\<lambda>pe. exists (snd pe) \<or> w < oclock (snd pe)) (entries t)"
proof (cases "tombstones t = 0")
  case True
  then have "\<forall>pe \<in> set (entries t). exists (snd pe)"
    using assms by (auto simp: tree_inv_def gone_in_def filter_empty_conv)
  then have "filter (\<lambda>pe. exists (snd pe) \<or> w < oclock (snd pe)) (entries t) = entries t"
    by (simp add: filter_id_conv)
  with True show ?thesis by (simp add: prune_tombstones_before_def)
qed (simp add: prune_tombstones_before_def Let_def)

lemma prune_count:
  "length m - length (filter (\<lambda>pe. exists (snd pe) \<or> w < oclock (snd pe)) m)
    = length (filter (\<lambda>pe. \<not> exists (snd pe) \<and> oclock (snd pe) \<le> w) m)"
  using filter_length_split [of "\<lambda>pe. exists (snd pe) \<or> w < oclock (snd pe)" m]
  by (simp add: not_less)

lemma prune_counts:
  "live_in (filter (\<lambda>pe. exists (snd pe) \<or> w < oclock (snd pe)) m) = live_in m"
  "gone_in (filter (\<lambda>pe. exists (snd pe) \<or> w < oclock (snd pe)) m)
    = gone_in m - length (filter (\<lambda>pe. \<not> exists (snd pe) \<and> oclock (snd pe) \<le> w) m)"
proof -
  show l: "live_in (filter (\<lambda>pe. exists (snd pe) \<or> w < oclock (snd pe)) m) = live_in m"
    by (induction m) (auto simp: live_in_def)
  show "gone_in (filter (\<lambda>pe. exists (snd pe) \<or> w < oclock (snd pe)) m)
    = gone_in m - length (filter (\<lambda>pe. \<not> exists (snd pe) \<and> oclock (snd pe) \<le> w) m)"
    using l live_gone_length [of m] prune_count [of m w]
      live_gone_length [of "filter (\<lambda>pe. exists (snd pe) \<or> w < oclock (snd pe)) m"]
      length_filter_le [of "\<lambda>pe. exists (snd pe) \<or> w < oclock (snd pe)" m]
    by linarith
qed

lemma tree_inv_prune: "tree_inv t \<Longrightarrow> tree_inv (snd (prune_tombstones_before w t))"
  using prune_counts [of w "entries t"] prune_count [of "entries t" w]
  by (auto simp: tree_inv_def prune_tombstones_before_def Let_def im_wf_filter)

lemmas tree_invs = tree_inv_upsert tree_inv_mark_gone tree_inv_record_gone tree_inv_record_signal
  tree_inv_prune tree_inv_new

section \<open>Lookups after operations\<close>

lemma tree_get_upsert:
  "tree_get (upsert rel md s tick new cc t) =
    (tree_get t)(rel \<mapsto> (from_metadata md s tick)\<lparr>is_new := new, cclock := cc\<rparr>)"
  by (auto simp: tree_get_def upsert_def Let_def store_simps split: option.splits)

lemma tree_get_mark_gone:
  "tree_get (mark_gone rel tick t) =
    (tree_get t)(rel := map_option (\<lambda>e. e\<lparr>exists := False, oclock := tick, is_new := False\<rparr>) (tree_get t rel))"
  by (auto simp: tree_get_def mark_gone_def Let_def store_simps fun_upd_idem split: option.splits)

lemma tree_get_record_gone:
  "tree_get (record_gone rel tick t) =
    (tree_get t)(rel \<mapsto> (case tree_get t rel of
        None \<Rightarrow> missing tick
      | Some e \<Rightarrow> e\<lparr>exists := False, oclock := tick, is_new := False\<rparr>))"
proof (cases "im_contains rel (entries t)")
  case True
  then obtain e where "tree_get t rel = Some e" by (auto simp: im_contains_def tree_get_def)
  with True show ?thesis by (simp add: record_gone_def tree_get_mark_gone)
next
  case False
  then have "tree_get t rel = None" by (auto simp: im_contains_def tree_get_def)
  with False show ?thesis by (auto simp: record_gone_def tree_get_def store_simps fun_eq_iff)
qed

lemma tree_get_record_signal:
  "tree_get (record_signal rel tick t) =
    (tree_get t)(rel \<mapsto> (let cc = (case tree_get t rel of Some e \<Rightarrow> cclock e | None \<Rightarrow> tick) in
      (missing tick)\<lparr>exists := True, kind := KFile, cclock := cc, is_new := (cc = tick)\<rparr>))"
  by (auto simp: tree_get_def record_signal_def Let_def store_simps split: option.splits)

lemma map_of_filter_snd:
  "im_wf m \<Longrightarrow> im_get (filter (\<lambda>pe. P (snd pe)) m) k =
    (case im_get m k of Some e \<Rightarrow> if P e then Some e else None | None \<Rightarrow> None)"
proof (induction m)
  case (Cons pe m)
  obtain p e where pe: "pe = (p, e)" by (cases pe)
  from Cons.prems pe have "im_wf m" and "im_get m p = None"
    by (auto simp: im_wf_def im_get_None_iff)
  moreover from this have "im_get (filter (\<lambda>pe. P (snd pe)) m) p = None"
    by (auto simp: map_of_eq_None_iff)
  ultimately show ?case using Cons.IH pe by (auto split: option.splits)
qed simp

lemma tree_get_prune:
  assumes "tree_inv t"
  shows "tree_get (snd (prune_tombstones_before w t)) p =
    (case tree_get t p of
       Some e \<Rightarrow> if exists e \<or> w < oclock e then Some e else None
     | None \<Rightarrow> None)"
  unfolding tree_get_def prune_entries [OF assms]
  using assms map_of_filter_snd [of "entries t" "\<lambda>e. exists e \<or> w < oclock e" p]
  by (simp add: tree_inv_def)

lemmas tree_gets = tree_get_upsert tree_get_mark_gone tree_get_record_gone tree_get_record_signal

section \<open>What queries see of a tree\<close>

text \<open>The paths that exist, the remembered deletions, and the paths changed after a tick.\<close>

definition live_paths :: "tree \<Rightarrow> path set" where
  "live_paths t = {p. \<exists>e. tree_get t p = Some e \<and> exists e}"

definition gone_paths :: "tree \<Rightarrow> path set" where
  "gone_paths t = {p. \<exists>e. tree_get t p = Some e \<and> \<not> exists e}"

definition changed_since :: "nat \<Rightarrow> tree \<Rightarrow> path set" where
  "changed_since n t = {p. \<exists>e. tree_get t p = Some e \<and> n < oclock e}"

lemma live_paths_upsert [simp]: "live_paths (upsert rel md s k new cc t) = insert rel (live_paths t)"
  by (auto simp: live_paths_def tree_gets)

lemma live_paths_mark_gone [simp]: "live_paths (mark_gone rel k t) = live_paths t - {rel}"
  by (auto simp: live_paths_def tree_gets split: if_splits)

lemma live_paths_record_gone [simp]: "live_paths (record_gone rel k t) = live_paths t - {rel}"
  by (auto simp: live_paths_def tree_gets split: if_splits option.splits)

lemma live_paths_record_signal [simp]: "live_paths (record_signal rel k t) = insert rel (live_paths t)"
  by (auto simp: live_paths_def tree_gets Let_def)

lemma live_paths_prune [simp]:
  "tree_inv t \<Longrightarrow> live_paths (snd (prune_tombstones_before w t)) = live_paths t"
  by (auto simp: live_paths_def tree_get_prune split: option.splits if_splits)

lemma changed_since_upsert:
  "n < k \<Longrightarrow> changed_since n (upsert rel md s k new cc t) = insert rel (changed_since n t)"
  by (auto simp: changed_since_def tree_gets)

lemma changed_since_mark_gone:
  "n < k \<Longrightarrow> changed_since n (mark_gone rel k t)
    = changed_since n t \<union> (if tree_get t rel = None then {} else {rel})"
  by (auto simp: changed_since_def tree_gets split: if_splits)

lemma changed_since_record_gone:
  "n < k \<Longrightarrow> changed_since n (record_gone rel k t) = insert rel (changed_since n t)"
  by (auto simp: changed_since_def tree_gets split: option.splits)

lemma changed_since_record_signal:
  "n < k \<Longrightarrow> changed_since n (record_signal rel k t) = insert rel (changed_since n t)"
  by (auto simp: changed_since_def tree_gets Let_def)

lemma changed_since_prune:
  "tree_inv t \<Longrightarrow> w \<le> n \<Longrightarrow> changed_since n (snd (prune_tombstones_before w t)) = changed_since n t"
  by (auto simp: changed_since_def tree_get_prune split: option.splits if_splits)

lemmas changed_since_ops = changed_since_upsert changed_since_mark_gone changed_since_record_gone
  changed_since_record_signal

lemma tree_get_filter_card:
  assumes "im_wf m"
  shows "length (filter (\<lambda>pe. P (snd pe)) m) = card {p. \<exists>e. im_get m p = Some e \<and> P e}"
proof -
  let ?f = "filter (\<lambda>pe. P (snd pe)) m"
  have "dom (im_get ?f) = {p. \<exists>e. im_get m p = Some e \<and> P e}"
    using map_of_filter_snd [OF assms, of P] by (auto simp: dom_def split: option.splits if_splits)
  then show ?thesis using im_length_card [OF im_wf_filter [OF assms]] by metis
qed

lemma tree_inv_cards:
  assumes "tree_inv t"
  shows "live t = card (live_paths t)" "tombstones t = card (gone_paths t)"
  using assms tree_get_filter_card [of "entries t" exists]
    tree_get_filter_card [of "entries t" "\<lambda>e. \<not> exists e"]
  by (simp_all add: tree_inv_def live_paths_def gone_paths_def tree_get_def live_in_def gone_in_def)

section \<open>Histories of a tree\<close>

datatype tree_op =
    OpUpsert path metadata "string option" nat bool nat
  | OpMarkGone path nat
  | OpRecordGone path nat
  | OpRecordSignal path nat
  | OpPrune nat

fun tree_apply :: "tree_op \<Rightarrow> tree \<Rightarrow> tree" where
  "tree_apply (OpUpsert p md s k new cc) t = upsert p md s k new cc t"
| "tree_apply (OpMarkGone p k) t = mark_gone p k t"
| "tree_apply (OpRecordGone p k) t = record_gone p k t"
| "tree_apply (OpRecordSignal p k) t = record_signal p k t"
| "tree_apply (OpPrune w) t = snd (prune_tombstones_before w t)"

lemma tree_inv_apply: "tree_inv t \<Longrightarrow> tree_inv (tree_apply op t)"
  by (cases op) (simp_all add: tree_invs)

lemma tree_inv_history: "tree_inv t \<Longrightarrow> tree_inv (fold tree_apply ops t)"
  by (induction ops arbitrary: t) (simp_all add: tree_inv_apply)

section \<open>Properties\<close>

text \<open>
  C7. The counters of the file index are exact after every history of operations: the live count is
  the number of existing paths, the tombstone count the number of remembered deletions, and they add
  up to the number of entries, so no saturating subtraction ever hides an underflow.
\<close>

theorem tree_counters_exact:
  "let t = fold tree_apply ops tree_new in
     live_count t = card (live_paths t) \<and> tombstone_count t = card (gone_paths t) \<and>
     live_count t + tombstone_count t = tree_len t"
proof -
  have "tree_inv (fold tree_apply ops tree_new)" by (rule tree_inv_history) (rule tree_inv_new)
  note inv = this
  have "live t + tombstones t = length (entries t)" if "tree_inv t" for t
    using that live_gone_length [of "entries t"] by (simp add: tree_inv_def)
  from this [OF inv] show ?thesis
    by (simp add: Let_def live_count_def tombstone_count_def tree_len_def tree_inv_cards [OF inv])
qed

text \<open>
  Pruning tombstones at a watermark is invisible to every client whose cursor is at or past it:
  the existing files and all changes after such a tick are kept, and the reported number is exactly
  the number of deletions forgotten.
\<close>

theorem prune_keeps_recent_changes:
  assumes "tree_inv t" and "w \<le> n"
  shows "live_paths (snd (prune_tombstones_before w t)) = live_paths t \<and>
    changed_since n (snd (prune_tombstones_before w t)) = changed_since n t \<and>
    fst (prune_tombstones_before w t) = card (gone_paths t - gone_paths (snd (prune_tombstones_before w t)))"
proof -
  let ?u = "snd (prune_tombstones_before w t)"
  have sub: "gone_paths ?u \<subseteq> gone_paths t"
    using assms(1) by (auto simp: gone_paths_def tree_get_prune split: option.splits if_splits)
  have fin: "finite (gone_paths t)"
    by (rule finite_subset [OF _ finite_dom_map_of [of "entries t"]]) (auto simp: gone_paths_def tree_get_def)
  have "fst (prune_tombstones_before w t) = tombstones t - tombstones ?u"
    using assms(1) prune_counts [of w "entries t"] prune_count [of "entries t" w]
      filter_length_split [of "\<lambda>pe. exists (snd pe) \<or> w < oclock (snd pe)" "entries t"]
      live_gone_length [of "entries t"]
      live_gone_length [of "filter (\<lambda>pe. exists (snd pe) \<or> w < oclock (snd pe)) (entries t)"]
    by (simp add: prune_tombstones_before_def Let_def tree_inv_def)
  also have "\<dots> = card (gone_paths t - gone_paths ?u)"
    using sub fin assms(1) tree_inv_cards(2) [OF assms(1)] tree_inv_cards(2) [OF tree_inv_prune [OF assms(1), of w]]
    by (simp add: card_Diff_subset finite_subset)
  finally show ?thesis using assms by (simp add: changed_since_prune)
qed

theorem prune_keeps_recent_changes_witness:
  "live_paths (snd (prune_tombstones_before 5 (record_gone [Normal ''a''] 3 tree_new)))
      = live_paths (record_gone [Normal ''a''] 3 tree_new) \<and>
    changed_since 5 (snd (prune_tombstones_before 5 (record_gone [Normal ''a''] 3 tree_new)))
      = changed_since 5 (record_gone [Normal ''a''] 3 tree_new) \<and>
    fst (prune_tombstones_before 5 (record_gone [Normal ''a''] 3 tree_new))
      = card (gone_paths (record_gone [Normal ''a''] 3 tree_new)
          - gone_paths (snd (prune_tombstones_before 5 (record_gone [Normal ''a''] 3 tree_new))))"
  by (rule prune_keeps_recent_changes) (simp_all add: tree_invs)

end
