(* ===== verification/Wire_Value.thy ===== *)
theory Wire_Value
  imports Rust_Str
begin

text \<open>
  The codec-agnostic value tree of \<^verbatim>\<open>watchwoman-protocol\<close> (\<^verbatim>\<open>value.rs\<close>), its accessors, the wire
  encodings and the protocol errors (\<^verbatim>\<open>lib.rs\<close>). An \<^verbatim>\<open>f64\<close> is its 64-bit pattern; an \<^verbatim>\<open>i64\<close> is an
  \<open>int\<close> kept in range by \<open>value_wf\<close>.
\<close>

type_synonym f64 = "64 word"

datatype wire_value =
    VNull
  | VBool bool
  | VInt int
  | VReal f64
  | VString string
  | VBytes "byte list"
  | VArray "wire_value list"
  | VObject "(string \<times> wire_value) list"
  | VTemplate "string list" "wire_value list list"

type_synonym vobject = "(string, wire_value) imap"

datatype encoding = Json | BserV1 | BserV2

text \<open>The message of \<^verbatim>\<open>ProtocolError::Bser\<close> is kept as the reason it reports.\<close>

datatype bser_fault =
    ExpectedIntTag byte
  | LengthMismatch int nat
  | ObjectKeyNotString
  | TemplateKeyNotString
  | TemplateKeysNotArray
  | UnexpectedSkip
  | UnknownTag byte
  | EncodeWithJson

datatype protocol_error =
    IoUnexpectedEof
  | JsonError
  | BserError bser_fault
  | Truncated
  | UnknownEncoding byte

section \<open>Accessors\<close>

fun as_object :: "wire_value \<Rightarrow> vobject option" where
  "as_object (VObject m) = Some m"
| "as_object _ = None"

fun as_str :: "wire_value \<Rightarrow> string option" where
  "as_str (VString s) = Some s"
| "as_str _ = None"

fun as_array :: "wire_value \<Rightarrow> wire_value list option" where
  "as_array (VArray a) = Some a"
| "as_array _ = None"

fun as_i64_value :: "wire_value \<Rightarrow> int option" where
  "as_i64_value (VInt i) = Some i"
| "as_i64_value _ = None"

fun as_bool :: "wire_value \<Rightarrow> bool option" where
  "as_bool (VBool b) = Some b"
| "as_bool _ = None"

section \<open>Well-formed values\<close>

text \<open>
  What the Rust types guarantee of a value: integers in the range of \<^verbatim>\<open>i64\<close>, strings that are UTF-8,
  distinct object keys (\<open>value_wf\<close>), and lengths that fit \<^verbatim>\<open>isize\<close> (\<open>value_fits\<close>). \<open>rect\<close> is the one
  condition the types do not enforce: every row of a template has one cell per key.
\<close>

fun value_wf :: "wire_value \<Rightarrow> bool" where
  "value_wf (VInt i) = i64_range i"
| "value_wf (VString s) = utf8_valid s"
| "value_wf (VArray a) = (\<forall>v \<in> set a. value_wf v)"
| "value_wf (VObject m) =
     (im_wf m \<and> (\<forall>kv \<in> set m. utf8_valid (fst kv) \<and> value_wf (snd kv)))"
| "value_wf (VTemplate ks rows) =
     ((\<forall>k \<in> set ks. utf8_valid k) \<and> (\<forall>r \<in> set rows. \<forall>v \<in> set r. value_wf v))"
| "value_wf _ = True"

definition len_ok :: "'a list \<Rightarrow> bool" where
  "len_ok xs = (length xs < 2 ^ 63)"

fun value_fits :: "wire_value \<Rightarrow> bool" where
  "value_fits (VString s) = len_ok s"
| "value_fits (VBytes b) = len_ok b"
| "value_fits (VArray a) = (len_ok a \<and> (\<forall>v \<in> set a. value_fits v))"
| "value_fits (VObject m) =
     (len_ok m \<and> (\<forall>kv \<in> set m. len_ok (fst kv) \<and> value_fits (snd kv)))"
| "value_fits (VTemplate ks rows) =
     (len_ok ks \<and> (\<forall>k \<in> set ks. len_ok k) \<and> len_ok rows \<and>
      (\<forall>r \<in> set rows. \<forall>v \<in> set r. value_fits v))"
| "value_fits _ = True"

fun rect :: "wire_value \<Rightarrow> bool" where
  "rect (VArray a) = (\<forall>v \<in> set a. rect v)"
| "rect (VObject m) = (\<forall>kv \<in> set m. rect (snd kv))"
| "rect (VTemplate ks rows) =
     ((\<forall>r \<in> set rows. length r = length ks) \<and> (\<forall>r \<in> set rows. \<forall>v \<in> set r. rect v))"
| "rect _ = True"

lemma wire_value_induct [case_names Null Bool Int Real String Bytes Array Object Template]:
  assumes "P VNull" and "\<And>b. P (VBool b)" and "\<And>i. P (VInt i)" and "\<And>f. P (VReal f)"
    and "\<And>s. P (VString s)" and "\<And>b. P (VBytes b)"
    and "\<And>a. (\<And>v. v \<in> set a \<Longrightarrow> P v) \<Longrightarrow> P (VArray a)"
    and "\<And>m. (\<And>k v. (k, v) \<in> set m \<Longrightarrow> P v) \<Longrightarrow> P (VObject m)"
    and "\<And>ks rows. (\<And>r v. r \<in> set rows \<Longrightarrow> v \<in> set r \<Longrightarrow> P v) \<Longrightarrow> P (VTemplate ks rows)"
  shows "P v"
proof (induction v rule: wire_value.induct)
  case (VObject m)
  then show ?case using assms(8) by (metis snds.intros snd_conv)
qed (use assms in auto)

end
