(* ===== verification/Bser.thy ===== *)
theory Bser
  imports Wire_Value
begin

text \<open>
  BSER (\<^verbatim>\<open>bser.rs\<close>): the writers, the slice decoder, the stream decoder, and the framing of PDUs.
  A slice position is modelled by the remaining slice; every function returns the number of
  bytes it consumed, as the source does. An allocation request the allocator refuses (a capacity
  overflow) is a panic, and so is a slice whose end is before its start.
\<close>

section \<open>Tags\<close>

definition TAG_ARRAY :: byte where "TAG_ARRAY = 0"
definition TAG_OBJECT :: byte where "TAG_OBJECT = 1"
definition TAG_STRING :: byte where "TAG_STRING = 2"
definition TAG_INT8 :: byte where "TAG_INT8 = 3"
definition TAG_INT16 :: byte where "TAG_INT16 = 4"
definition TAG_INT32 :: byte where "TAG_INT32 = 5"
definition TAG_INT64 :: byte where "TAG_INT64 = 6"
definition TAG_REAL :: byte where "TAG_REAL = 7"
definition TAG_TRUE :: byte where "TAG_TRUE = 8"
definition TAG_FALSE :: byte where "TAG_FALSE = 9"
definition TAG_NULL :: byte where "TAG_NULL = 10"
definition TAG_TEMPLATE :: byte where "TAG_TEMPLATE = 11"
definition TAG_SKIP :: byte where "TAG_SKIP = 12"
definition TAG_UTF8 :: byte where "TAG_UTF8 = 13"

definition MAGIC_V1 :: "byte list" where "MAGIC_V1 = [0, 1]"
definition MAGIC_V2 :: "byte list" where "MAGIC_V2 = [0, 2]"

lemmas tag_defs = TAG_ARRAY_def TAG_OBJECT_def TAG_STRING_def TAG_INT8_def TAG_INT16_def
  TAG_INT32_def TAG_INT64_def TAG_REAL_def TAG_TRUE_def TAG_FALSE_def TAG_NULL_def
  TAG_TEMPLATE_def TAG_SKIP_def TAG_UTF8_def

section \<open>Writers\<close>

definition write_int :: "int \<Rightarrow> byte list" where
  "write_int n =
     (if - 128 \<le> n \<and> n \<le> 127 then TAG_INT8 # to_le_bytes 1 n
      else if - 32768 \<le> n \<and> n \<le> 32767 then TAG_INT16 # to_le_bytes 2 n
      else if - 2147483648 \<le> n \<and> n \<le> 2147483647 then TAG_INT32 # to_le_bytes 4 n
      else TAG_INT64 # to_le_bytes 8 n)"

definition write_string :: "byte list \<Rightarrow> byte list" where
  "write_string b = TAG_STRING # write_int (as_i64 (int (length b))) @ b"

fun write_value :: "wire_value \<Rightarrow> byte list" where
  "write_value VNull = [TAG_NULL]"
| "write_value (VBool b) = [if b then TAG_TRUE else TAG_FALSE]"
| "write_value (VInt i) = write_int i"
| "write_value (VReal f) = TAG_REAL # to_le_bytes 8 (uint f)"
| "write_value (VString s) = write_string (as_bytes s)"
| "write_value (VBytes b) = write_string b"
| "write_value (VArray a) =
     TAG_ARRAY # write_int (as_i64 (int (length a))) @ concat (map write_value a)"
| "write_value (VObject m) =
     TAG_OBJECT # write_int (as_i64 (int (length m)))
       @ concat (map (\<lambda>(k, v). write_string (as_bytes k) @ write_value v) m)"
| "write_value (VTemplate ks rows) =
     TAG_TEMPLATE # TAG_ARRAY # write_int (as_i64 (int (length ks)))
       @ concat (map (\<lambda>k. write_string (as_bytes k)) ks)
       @ write_int (as_i64 (int (length rows)))
       @ concat (map (\<lambda>row.
           concat (map (\<lambda>v. if v = VNull then [TAG_SKIP] else write_value v) row)) rows)"

definition bser_encode_pdu :: "wire_value \<Rightarrow> encoding \<Rightarrow> (protocol_error, byte list) outcome" where
  "bser_encode_pdu v ver =
     (let payload = write_value v; len = write_int (as_i64 (int (length payload))) in
      case ver of
        BserV1 \<Rightarrow> Ok (MAGIC_V1 @ len @ payload)
      | BserV2 \<Rightarrow> Ok (MAGIC_V2 @ to_le_bytes 4 0 @ len @ payload)
      | Json \<Rightarrow> Err (BserError EncodeWithJson))"

section \<open>The slice decoder\<close>

text \<open>
  \<open>alloc k n\<close> says whether \<^verbatim>\<open>with_capacity(n)\<close> succeeds for elements of the given kind. The standard
  library panics when the request exceeds \<^verbatim>\<open>isize::MAX\<close> bytes.
\<close>

datatype alloc_kind = KValue | KEntry | KRow | KByte

type_synonym allocator = "alloc_kind \<Rightarrow> int \<Rightarrow> bool"

definition obind :: "('e, 'a) outcome \<Rightarrow> ('a \<Rightarrow> ('e, 'b) outcome) \<Rightarrow> ('e, 'b) outcome" where
  "obind r f = (case r of Ok x \<Rightarrow> f x | Err e \<Rightarrow> Err e | Panic \<Rightarrow> Panic)"

lemma obind_simps [simp]:
  "obind (Ok x) f = f x" "obind (Err e) f = Err e" "obind Panic f = Panic"
  by (simp_all add: obind_def)

lemma obind_cong [fundef_cong]:
  "r = r' \<Longrightarrow> (\<And>x. r' = Ok x \<Longrightarrow> f x = g x) \<Longrightarrow> obind r f = obind r' g"
  by (cases r') auto

lemma obind_Ok_iff: "obind r f = Ok y \<longleftrightarrow> (\<exists>x. r = Ok x \<and> f x = Ok y)"
  by (cases r) auto

definition need :: "byte list \<Rightarrow> int \<Rightarrow> (protocol_error, unit) outcome" where
  "need buf sz = (if int (length buf) < sz then Err Truncated else Ok ())"

definition read_int :: "byte list \<Rightarrow> (protocol_error, int \<times> nat) outcome" where
  "read_int buf =
     (case buf of
        [] \<Rightarrow> Err Truncated
      | tag # rest \<Rightarrow>
          if tag = TAG_INT8 then
            obind (need buf 2) (\<lambda>_. Ok (from_le_signed (take 1 rest), 2))
          else if tag = TAG_INT16 then
            obind (need buf 3) (\<lambda>_. Ok (from_le_signed (take 2 rest), 3))
          else if tag = TAG_INT32 then
            obind (need buf 5) (\<lambda>_. Ok (from_le_signed (take 4 rest), 5))
          else if tag = TAG_INT64 then
            obind (need buf 9) (\<lambda>_. Ok (from_le_signed (take 8 rest), 9))
          else Err (BserError (ExpectedIntTag tag)))"

text \<open>
  The half-open slice \<^verbatim>\<open>&buf[start..start + len as usize]\<close> after the length check
  \<^verbatim>\<open>need(buf, start + len as usize)\<close>. The addition wraps at 64 bits; a slice that ends before it
  starts panics.
\<close>

definition checked_slice :: "byte list \<Rightarrow> nat \<Rightarrow> int \<Rightarrow> (protocol_error, byte list \<times> nat) outcome" where
  "checked_slice buf start len =
     (let end = (int start + as_u64 len) mod 2 ^ 64 in
      obind (need buf end) (\<lambda>_.
        if end < int start then Panic
        else Ok (take (nat end - start) (drop start buf), nat end)))"

definition utf8_or_bytes :: "byte list \<Rightarrow> wire_value" where
  "utf8_or_bytes b = (if utf8_valid (chars_of b) then VString (chars_of b) else VBytes b)"

definition read_string :: "byte list \<Rightarrow> (protocol_error, wire_value \<times> nat) outcome" where
  "read_string buf =
     obind (read_int (drop 1 buf)) (\<lambda>(len, lenlen).
       obind (checked_slice buf (1 + lenlen) len) (\<lambda>(slice, end).
         Ok (utf8_or_bytes slice, end)))"

fun key_of :: "bser_fault \<Rightarrow> wire_value \<Rightarrow> (protocol_error, string) outcome" where
  "key_of e (VString s) = Ok s"
| "key_of e (VBytes b) = Ok (from_utf8_lossy (chars_of b))"
| "key_of e _ = Err (BserError e)"

fun keys_of :: "wire_value list \<Rightarrow> (protocol_error, string list) outcome" where
  "keys_of [] = Ok []"
| "keys_of (v # vs) =
     obind (key_of TemplateKeyNotString v) (\<lambda>k. obind (keys_of vs) (\<lambda>ks. Ok (k # ks)))"

function read_value :: "allocator \<Rightarrow> byte list \<Rightarrow> (protocol_error, wire_value \<times> nat) outcome"
  and read_items :: "allocator \<Rightarrow> int \<Rightarrow> byte list \<Rightarrow> (protocol_error, wire_value list \<times> nat) outcome"
  and read_pairs :: "allocator \<Rightarrow> int \<Rightarrow> byte list \<Rightarrow> vobject \<Rightarrow> (protocol_error, vobject \<times> nat) outcome"
  and read_row :: "allocator \<Rightarrow> nat \<Rightarrow> byte list \<Rightarrow> (protocol_error, wire_value list \<times> nat) outcome"
  and read_rows :: "allocator \<Rightarrow> int \<Rightarrow> nat \<Rightarrow> byte list \<Rightarrow> (protocol_error, wire_value list list \<times> nat) outcome"
where
  "read_value alloc buf =
     (case buf of
        [] \<Rightarrow> Err Truncated
      | tag # rest \<Rightarrow>
          if tag = TAG_NULL then Ok (VNull, 1)
          else if tag = TAG_TRUE then Ok (VBool True, 1)
          else if tag = TAG_FALSE then Ok (VBool False, 1)
          else if tag \<in> {TAG_INT8, TAG_INT16, TAG_INT32, TAG_INT64} then
            obind (read_int buf) (\<lambda>(n, consumed). Ok (VInt n, consumed))
          else if tag = TAG_REAL then
            obind (need buf 9) (\<lambda>_. Ok (VReal (word_of_int (from_le_unsigned (take 8 rest))), 9))
          else if tag = TAG_STRING \<or> tag = TAG_UTF8 then read_string buf
          else if tag = TAG_ARRAY then
            obind (read_int rest) (\<lambda>(count, clen).
              if \<not> alloc KValue (max count 0) then Panic
              else obind (read_items alloc count (drop clen rest)) (\<lambda>(items, c).
                Ok (VArray items, 1 + clen + c)))
          else if tag = TAG_OBJECT then
            obind (read_int rest) (\<lambda>(count, clen).
              if \<not> alloc KEntry (max count 0) then Panic
              else obind (read_pairs alloc count (drop clen rest) []) (\<lambda>(obj, c).
                Ok (VObject obj, 1 + clen + c)))
          else if tag = TAG_TEMPLATE then
            obind (read_value alloc rest) (\<lambda>(keys_val, keys_consumed).
              obind (case keys_val of VArray a \<Rightarrow> keys_of a
                     | _ \<Rightarrow> Err (BserError TemplateKeysNotArray)) (\<lambda>keys.
                obind (read_int (drop keys_consumed rest)) (\<lambda>(row_count, rclen).
                  if \<not> alloc KRow (max row_count 0) then Panic
                  else obind (read_rows alloc row_count (length keys)
                                (drop (keys_consumed + rclen) rest)) (\<lambda>(rows, c).
                    Ok (VTemplate keys rows, 1 + keys_consumed + rclen + c)))))
          else if tag = TAG_SKIP then Err (BserError UnexpectedSkip)
          else Err (BserError (UnknownTag tag)))"
| "read_items alloc n buf =
     (if n \<le> 0 then Ok ([], 0)
      else obind (read_value alloc buf) (\<lambda>(v, c).
             obind (read_items alloc (n - 1) (drop c buf)) (\<lambda>(vs, c').
               Ok (v # vs, c + c'))))"
| "read_pairs alloc n buf obj =
     (if n \<le> 0 then Ok (obj, 0)
      else obind (read_value alloc buf) (\<lambda>(k, kc).
             obind (key_of ObjectKeyNotString k) (\<lambda>key.
               obind (read_value alloc (drop kc buf)) (\<lambda>(v, vc).
                 obind (read_pairs alloc (n - 1) (drop (kc + vc) buf) (im_insert key v obj)) (\<lambda>(obj', c).
                   Ok (obj', kc + vc + c))))))"
| "read_row alloc k buf =
     (if k = 0 then Ok ([], 0)
      else if buf \<noteq> [] \<and> hd buf = TAG_SKIP then
        obind (read_row alloc (k - 1) (drop 1 buf)) (\<lambda>(vs, c). Ok (VNull # vs, 1 + c))
      else obind (read_value alloc buf) (\<lambda>(v, vc).
             obind (read_row alloc (k - 1) (drop vc buf)) (\<lambda>(vs, c). Ok (v # vs, vc + c))))"
| "read_rows alloc n k buf =
     (if n \<le> 0 then Ok ([], 0)
      else if \<not> alloc KValue (int k) then Panic
      else obind (read_row alloc k buf) (\<lambda>(row, rc).
             obind (read_rows alloc (n - 1) k (drop rc buf)) (\<lambda>(rows, c).
               Ok (row # rows, rc + c))))"
  by pat_completeness auto
termination
  by (relation "measures
      [case_sum (case_sum (\<lambda>(_, b). 3 * length b) (\<lambda>(_, _, b). 3 * length b + 1))
        (case_sum (\<lambda>(_, _, b, _). 3 * length b + 1)
          (case_sum (\<lambda>(_, _, b). 3 * length b + 1) (\<lambda>(_, _, _, b). 3 * length b + 2))),
       case_sum (case_sum (\<lambda>_. 0) (\<lambda>(_, n, _). nat n))
        (case_sum (\<lambda>(_, n, _, _). nat n)
          (case_sum (\<lambda>(_, k, _). k) (\<lambda>(_, n, _, _). nat n)))]") auto

declare read_value.simps [simp del] read_items.simps [simp del] read_pairs.simps [simp del]
  read_row.simps [simp del] read_rows.simps [simp del]

section \<open>Integers on the wire\<close>

lemma read_int_bounds:
  assumes "read_int buf = Ok (n, c)"
  shows "2 \<le> c \<and> c \<le> length buf \<and> i64_range n"
proof -
  have r: "take k xs \<noteq> [] \<Longrightarrow> k \<le> 8 \<Longrightarrow> i64_range (from_le_signed (take k xs))" for k and xs :: "byte list"
    by (rule from_le_signed_range) auto
  from assms show ?thesis
    by (auto simp: read_int_def need_def obind_Ok_iff Suc_le_eq intro!: r
        split: list.splits if_splits)
qed

lemma read_int_write_int [wire_simps]:
  assumes "i64_range n"
  shows "read_int (write_int n @ rest) = Ok (n, length (write_int n))"
proof -
  have rt: "0 < k \<Longrightarrow> - (256 ^ k) \<le> 2 * n \<Longrightarrow> 2 * n < 256 ^ k \<Longrightarrow>
      from_le_signed (take k (to_le_bytes k n @ rest)) = n" for k
    by (simp add: from_to_le_signed)
  note rts = rt [of 1] rt [of 2] rt [of 4] rt [of 8]
  from assms show ?thesis
    unfolding write_int_def read_int_def i64_range_def need_def
    using rts by (auto simp: tag_defs)
qed

lemma length_write_int: "2 \<le> length (write_int n) \<and> length (write_int n) \<le> 9"
  by (simp add: write_int_def)

lemma len_ok_i64: "len_ok xs \<Longrightarrow> i64_range (int (length xs)) \<and> as_i64 (int (length xs)) = int (length xs)"
  by (auto simp: len_ok_def as_i64_of_nat i64_range_def intro: order_less_le_trans)

section \<open>The decoder stays inside its buffer\<close>

lemma checked_slice_bounds:
  assumes "checked_slice buf start len = Ok (sl, e)"
  shows "start \<le> e \<and> e \<le> length buf \<and> length sl = e - start"
  using assms by (auto simp: checked_slice_def need_def obind_Ok_iff Let_def split: if_splits)

lemma read_string_bounds:
  assumes "read_string buf = Ok (v, c)"
  shows "0 < c \<and> c \<le> length buf"
proof -
  from assms obtain len lenlen sl where
    i: "read_int (drop 1 buf) = Ok (len, lenlen)" and
    s: "checked_slice buf (1 + lenlen) len = Ok (sl, c)"
    by (auto simp: read_string_def obind_Ok_iff)
  from checked_slice_bounds [OF s] show ?thesis by simp
qed

text \<open>The ways a decode can succeed, one per group of tags.\<close>

lemma read_value_OkE:
  assumes "read_value A buf = Ok (v, c)"
  obtains (Atom) "v \<in> {VNull, VBool True, VBool False}" "c = 1" "buf \<noteq> []"
  | (Int) n where "read_int buf = Ok (n, c)" "v = VInt n"
  | (Real) f where "v = VReal f" "c = 9" "9 \<le> length buf"
  | (Str) "read_string buf = Ok (v, c)"
  | (Array) rest count clen items ci where
      "buf = TAG_ARRAY # rest" "read_int rest = Ok (count, clen)" "A KValue (max count 0)"
      "read_items A count (drop clen rest) = Ok (items, ci)"
      "v = VArray items" "c = 1 + clen + ci"
  | (Object) rest count clen obj ci where
      "buf = TAG_OBJECT # rest" "read_int rest = Ok (count, clen)" "A KEntry (max count 0)"
      "read_pairs A count (drop clen rest) [] = Ok (obj, ci)"
      "v = VObject obj" "c = 1 + clen + ci"
  | (Template) rest a kc keys count rclen rows ci where
      "buf = TAG_TEMPLATE # rest" "read_value A rest = Ok (VArray a, kc)" "keys_of a = Ok keys"
      "read_int (drop kc rest) = Ok (count, rclen)" "A KRow (max count 0)"
      "read_rows A count (length keys) (drop (kc + rclen) rest) = Ok (rows, ci)"
      "v = VTemplate keys rows" "c = 1 + kc + rclen + ci"
proof (cases buf)
  case Nil
  with assms show thesis by (simp add: read_value.simps)
next
  case (Cons tag rest)
  note eq = assms [unfolded Cons read_value.simps [of A "tag # rest"] list.case]
  consider "tag = TAG_NULL" | "tag = TAG_TRUE" | "tag = TAG_FALSE"
    | "tag \<in> {TAG_INT8, TAG_INT16, TAG_INT32, TAG_INT64}" | "tag = TAG_REAL"
    | "tag = TAG_STRING \<or> tag = TAG_UTF8" | "tag = TAG_ARRAY" | "tag = TAG_OBJECT"
    | "tag = TAG_TEMPLATE"
    using eq by (auto split: if_splits)
  then show thesis
  proof cases
    case 4
    then have "\<exists>n. read_int buf = Ok (n, c) \<and> v = VInt n"
      using eq Cons by (auto simp: tag_defs obind_Ok_iff)
    then show thesis using that(2) by blast
  next
    case 5
    then have "c = 9 \<and> 9 \<le> length buf \<and> (\<exists>f. v = VReal f)"
      using eq Cons by (auto simp: tag_defs obind_Ok_iff need_def split: if_splits)
    then show thesis using that(3) by blast
  next
    case 6
    then have "read_string buf = Ok (v, c)" using eq Cons by (auto simp: tag_defs)
    then show thesis by (rule that(4))
  next
    case 7
    then have "\<exists>count clen items ci. read_int rest = Ok (count, clen) \<and> A KValue (max count 0) \<and>
        read_items A count (drop clen rest) = Ok (items, ci) \<and> v = VArray items \<and> c = 1 + clen + ci"
      using eq by (auto simp: tag_defs obind_Ok_iff split: if_splits)
    then show thesis using that(5) Cons 7 by blast
  next
    case 8
    then have "\<exists>count clen obj ci. read_int rest = Ok (count, clen) \<and> A KEntry (max count 0) \<and>
        read_pairs A count (drop clen rest) [] = Ok (obj, ci) \<and> v = VObject obj \<and> c = 1 + clen + ci"
      using eq by (auto simp: tag_defs obind_Ok_iff split: if_splits)
    then show thesis using that(6) Cons 8 by blast
  next
    case 9
    then have "\<exists>a kc keys count rclen rows ci. read_value A rest = Ok (VArray a, kc) \<and>
        keys_of a = Ok keys \<and> read_int (drop kc rest) = Ok (count, rclen) \<and> A KRow (max count 0) \<and>
        read_rows A count (length keys) (drop (kc + rclen) rest) = Ok (rows, ci) \<and>
        v = VTemplate keys rows \<and> c = 1 + kc + rclen + ci"
      using eq by (auto simp: tag_defs obind_Ok_iff split: if_splits wire_value.splits)
    then show thesis using that(7) Cons 9 by blast
  qed (use eq Cons that(1) in \<open>auto simp: tag_defs\<close>)
qed

lemma read_items_OkE:
  assumes "read_items A n buf = Ok (vs, c)"
  obtains (Done) "n \<le> 0" "vs = []" "c = 0"
  | (Step) v vc vs' c' where "0 < n" "read_value A buf = Ok (v, vc)"
      "read_items A (n - 1) (drop vc buf) = Ok (vs', c')" "vs = v # vs'" "c = vc + c'"
  using assms by (auto simp: read_items.simps [of A n buf] obind_Ok_iff split: if_splits)

lemma read_pairs_OkE:
  assumes "read_pairs A n buf obj = Ok (obj', c)"
  obtains (Done) "n \<le> 0" "obj' = obj" "c = 0"
  | (Step) k kc key v vc c' where "0 < n" "read_value A buf = Ok (k, kc)"
      "key_of ObjectKeyNotString k = Ok key" "read_value A (drop kc buf) = Ok (v, vc)"
      "read_pairs A (n - 1) (drop (kc + vc) buf) (im_insert key v obj) = Ok (obj', c')"
      "c = kc + vc + c'"
  using assms by (auto simp: read_pairs.simps [of A n buf obj] obind_Ok_iff split: if_splits)

lemma read_row_OkE:
  assumes "read_row A k buf = Ok (row, c)"
  obtains (Done) "k = 0" "row = []" "c = 0"
  | (Skip) row' c' where "0 < k" "buf \<noteq> []" "hd buf = TAG_SKIP"
      "read_row A (k - 1) (drop 1 buf) = Ok (row', c')" "row = VNull # row'" "c = 1 + c'"
  | (Cell) v vc row' c' where "0 < k" "\<not> (buf \<noteq> [] \<and> hd buf = TAG_SKIP)"
      "read_value A buf = Ok (v, vc)" "read_row A (k - 1) (drop vc buf) = Ok (row', c')"
      "row = v # row'" "c = vc + c'"
  using assms by (auto simp: read_row.simps [of A k buf] obind_Ok_iff split: if_splits)

lemma read_rows_OkE:
  assumes "read_rows A n k buf = Ok (rows, c)"
  obtains (Done) "n \<le> 0" "rows = []" "c = 0"
  | (Step) row rc rows' c' where "0 < n" "A KValue (int k)" "read_row A k buf = Ok (row, rc)"
      "read_rows A (n - 1) k (drop rc buf) = Ok (rows', c')" "rows = row # rows'" "c = rc + c'"
  using assms by (auto simp: read_rows.simps [of A n k buf] obind_Ok_iff split: if_splits)

lemma read_bounds:
  "read_value A buf = Ok (v, c) \<Longrightarrow> 0 < c \<and> c \<le> length buf"
  "read_items A n buf = Ok (vs, ci) \<Longrightarrow> ci \<le> length buf"
  "read_pairs A n buf obj = Ok (obj', cp) \<Longrightarrow> cp \<le> length buf"
  "read_row A k buf = Ok (row, cr) \<Longrightarrow> cr \<le> length buf"
  "read_rows A n k buf = Ok (rows, cs) \<Longrightarrow> cs \<le> length buf"
proof (induction A buf and A n buf and A n buf obj and A k buf and A n k buf
    arbitrary: v c and vs ci and obj' cp and row cr and rows cs
    rule: read_value_read_items_read_pairs_read_row_read_rows.induct)
  case (1 A buf)
  from "1.prems" show ?case
  proof (cases rule: read_value_OkE)
    case (Int n)
    then show ?thesis using read_int_bounds [of buf n c] by simp
  next
    case Str
    then show ?thesis by (rule read_string_bounds)
  next
    case (Array rest count clen items ci)
    then have "ci \<le> length (drop clen rest)" using "1.IH" by (simp add: tag_defs)
    with Array read_int_bounds [OF Array(2)] show ?thesis by auto
  next
    case (Object rest count clen obj ci)
    then have "ci \<le> length (drop clen rest)" using "1.IH" by (simp add: tag_defs)
    with Object read_int_bounds [OF Object(2)] show ?thesis by auto
  next
    case (Template rest a kc keys count rclen rows ci)
    then have "kc \<le> length rest" and "ci \<le> length (drop (kc + rclen) rest)"
      using "1.IH" by (simp_all add: tag_defs)
    with Template read_int_bounds [OF Template(4)] show ?thesis by auto
  qed (auto simp: Suc_le_eq)
next
  case (2 A n buf)
  from "2.prems" show ?case
  proof (cases rule: read_items_OkE)
    case (Step v vc vs' c')
    then have "vc \<le> length buf" "c' \<le> length (drop vc buf)" using "2.IH" by auto
    then show ?thesis using Step by simp
  qed simp
next
  case (3 A n buf obj)
  from "3.prems" show ?case
  proof (cases rule: read_pairs_OkE)
    case (Step k kc key v vc c')
    then have "kc \<le> length buf" "vc \<le> length (drop kc buf)" "c' \<le> length (drop (kc + vc) buf)"
      using "3.IH" by auto
    then show ?thesis using Step by simp
  qed simp
next
  case (4 A k buf)
  from "4.prems" show ?case
  proof (cases rule: read_row_OkE)
    case (Skip row' c')
    then have "c' \<le> length (drop 1 buf)" using "4.IH" by auto
    then show ?thesis using Skip by (cases buf) auto
  next
    case (Cell v vc row' c')
    then have "vc \<le> length buf" "c' \<le> length (drop vc buf)" using "4.IH"(2,3) by auto
    then show ?thesis using Cell by simp
  qed simp
next
  case (5 A n k buf)
  from "5.prems" show ?case
  proof (cases rule: read_rows_OkE)
    case (Step row rc rows' c')
    then have "rc \<le> length buf" "c' \<le> length (drop rc buf)" using "5.IH" by auto
    then show ?thesis using Step by simp
  qed simp
qed

section \<open>Decoded values are well formed\<close>

lemma utf8_or_bytes_wf: "value_wf (utf8_or_bytes b) \<and> rect (utf8_or_bytes b)"
  by (simp add: utf8_or_bytes_def)

lemma key_of_utf8: "key_of e v = Ok k \<Longrightarrow> value_wf v \<Longrightarrow> utf8_valid k"
  by (cases v) (auto simp: utf8_valid_lossy)

lemma keys_of_utf8:
  "keys_of vs = Ok ks \<Longrightarrow> (\<And>v. v \<in> set vs \<Longrightarrow> value_wf v) \<Longrightarrow> k \<in> set ks \<Longrightarrow> utf8_valid k"
proof (induction vs arbitrary: ks)
  case (Cons v vs)
  then show ?case using key_of_utf8 [of TemplateKeyNotString v] by (auto simp: obind_Ok_iff)
qed simp

definition obj_ok :: "vobject \<Rightarrow> bool" where
  "obj_ok m = (value_wf (VObject m) \<and> rect (VObject m))"

lemma im_insert_set: "set (im_insert k v m) \<subseteq> insert (k, v) (set m)"
  by (induction k v m rule: im_insert.induct) auto

lemma obj_ok_insert:
  "obj_ok m \<Longrightarrow> utf8_valid k \<Longrightarrow> value_wf v \<Longrightarrow> rect v \<Longrightarrow> obj_ok (im_insert k v m)"
  using im_insert_set [of k v m] by (fastforce simp: obj_ok_def)

lemma read_wf:
  "read_value A buf = Ok (v, c) \<Longrightarrow> value_wf v \<and> rect v"
  "read_items A n buf = Ok (vs, ci) \<Longrightarrow> \<forall>v \<in> set vs. value_wf v \<and> rect v"
  "read_pairs A n buf obj = Ok (obj', cp) \<Longrightarrow> obj_ok obj \<Longrightarrow> obj_ok obj'"
  "read_row A k buf = Ok (row, cr) \<Longrightarrow> length row = k \<and> (\<forall>v \<in> set row. value_wf v \<and> rect v)"
  "read_rows A n k buf = Ok (rows, cs) \<Longrightarrow>
     \<forall>r \<in> set rows. length r = k \<and> (\<forall>v \<in> set r. value_wf v \<and> rect v)"
proof (induction A buf and A n buf and A n buf obj and A k buf and A n k buf
    arbitrary: v c and vs ci and obj' cp and row cr and rows cs
    rule: read_value_read_items_read_pairs_read_row_read_rows.induct)
  case (1 A buf)
  from "1.prems" show ?case
  proof (cases rule: read_value_OkE)
    case (Int n)
    then show ?thesis using read_int_bounds [of buf n c] by simp
  next
    case Str
    then show ?thesis by (auto simp: read_string_def obind_Ok_iff utf8_or_bytes_wf)
  next
    case (Array rest count clen items ci)
    then have "\<forall>v \<in> set items. value_wf v \<and> rect v" using "1.IH"(1) by (simp add: tag_defs)
    with Array show ?thesis by simp
  next
    case (Object rest count clen obj ci)
    have "obj_ok []" by (simp add: obj_ok_def)
    then have "obj_ok obj" using Object "1.IH"(2) by (simp add: tag_defs)
    with Object show ?thesis by (simp add: obj_ok_def)
  next
    case (Template rest a kc keys count rclen rows ci)
    have a: "value_wf (VArray a) \<and> rect (VArray a)"
      using "1.IH"(3) [OF Template(1) _ _ _ _ _ _ _ _ _ Template(2)] by (simp add: tag_defs)
    have r: "\<forall>r \<in> set rows. length r = length keys \<and> (\<forall>v \<in> set r. value_wf v \<and> rect v)"
      using Template "1.IH"(4) by (simp add: tag_defs)
    have "\<forall>k \<in> set keys. utf8_valid k" using keys_of_utf8 [OF Template(3)] a by simp
    with Template r show ?thesis by simp
  qed auto
next
  case (2 A n buf)
  from "2.prems" show ?case
  proof (cases rule: read_items_OkE)
    case (Step v vc vs' c')
    then have "value_wf v \<and> rect v" "\<forall>v \<in> set vs'. value_wf v \<and> rect v"
      using "2.IH" by auto
    then show ?thesis using Step by simp
  qed simp
next
  case (3 A n buf obj)
  from "3.prems"(1) show ?case
  proof (cases rule: read_pairs_OkE)
    case (Step k kc key v vc c')
    have "value_wf k" "value_wf v \<and> rect v" using "3.IH"(1,2) Step by auto
    then have "obj_ok (im_insert key v obj)"
      using "3.prems"(2) Step(3) by (auto intro: obj_ok_insert key_of_utf8)
    then show ?thesis using "3.IH"(3) Step by auto
  qed (use "3.prems" in simp)
next
  case (4 A k buf)
  from "4.prems" show ?case
  proof (cases rule: read_row_OkE)
    case (Skip row' c')
    then have "length row' = k - 1 \<and> (\<forall>v \<in> set row'. value_wf v \<and> rect v)"
      using "4.IH"(1) by auto
    then show ?thesis using Skip by simp
  next
    case (Cell v vc row' c')
    then have "value_wf v \<and> rect v" "length row' = k - 1 \<and> (\<forall>v \<in> set row'. value_wf v \<and> rect v)"
      using "4.IH"(2,3) by auto
    then show ?thesis using Cell by simp
  qed simp
next
  case (5 A n k buf)
  from "5.prems" show ?case
  proof (cases rule: read_rows_OkE)
    case (Step row rc rows' c')
    then have "length row = k \<and> (\<forall>v \<in> set row. value_wf v \<and> rect v)"
      "\<forall>r \<in> set rows'. length r = k \<and> (\<forall>v \<in> set r. value_wf v \<and> rect v)"
      using "5.IH" by auto
    then show ?thesis using Step by simp
  qed simp
qed

section \<open>Round trip\<close>

text \<open>
  A byte string that happens to be UTF-8 comes back as a string: the one change a value suffers
  on its way over the wire.
\<close>

fun wire_norm :: "wire_value \<Rightarrow> wire_value" where
  "wire_norm (VBytes b) = utf8_or_bytes b"
| "wire_norm (VArray a) = VArray (map wire_norm a)"
| "wire_norm (VObject m) = VObject (map (\<lambda>(k, v). (k, wire_norm v)) m)"
| "wire_norm (VTemplate ks rows) = VTemplate ks (map (map wire_norm) rows)"
| "wire_norm v = v"

text \<open>The allocator grants the collections the value consists of.\<close>

fun grants :: "allocator \<Rightarrow> wire_value \<Rightarrow> bool" where
  "grants A (VArray a) = (A KValue (int (length a)) \<and> (\<forall>v \<in> set a. grants A v))"
| "grants A (VObject m) = (A KEntry (int (length m)) \<and> (\<forall>kv \<in> set m. grants A (snd kv)))"
| "grants A (VTemplate ks rows) =
     (A KValue (int (length ks)) \<and> A KRow (int (length rows)) \<and>
      (\<forall>r \<in> set rows. \<forall>v \<in> set r. grants A v))"
| "grants A _ = True"

definition decodes :: "allocator \<Rightarrow> wire_value \<Rightarrow> bool" where
  "decodes A v = (\<forall>rest. read_value A (write_value v @ rest) = Ok (wire_norm v, length (write_value v)))"

definition sendable :: "wire_value \<Rightarrow> bool" where
  "sendable v = (value_wf v \<and> value_fits v \<and> rect v)"

lemma tag_neq [simp]:
  "TAG_STRING \<noteq> TAG_NULL" "TAG_STRING \<noteq> TAG_TRUE" "TAG_STRING \<noteq> TAG_FALSE"
  "TAG_STRING \<noteq> TAG_INT8" "TAG_STRING \<noteq> TAG_INT16" "TAG_STRING \<noteq> TAG_INT32"
  "TAG_STRING \<noteq> TAG_INT64" "TAG_STRING \<noteq> TAG_REAL"
  by (simp_all add: tag_defs)

lemma checked_slice_exact:
  assumes "int start + int (length b) < 2 ^ 64" and "len_ok b" and "length pre = start"
  shows "checked_slice (pre @ b @ rest) start (int (length b)) = Ok (b, start + length b)"
proof -
  have "as_u64 (int (length b)) = int (length b)"
    using assms by (simp add: as_u64_def)
  then show ?thesis
    using assms by (auto simp: checked_slice_def need_def Let_def nat_add_distrib)
qed

lemma read_value_string:
  assumes "len_ok b"
  shows "read_value A (write_string b @ rest) = Ok (utf8_or_bytes b, length (write_string b))"
proof -
  let ?n = "write_int (int (length b))"
  have i: "read_int (?n @ b @ rest) = Ok (int (length b), length ?n)"
    using len_ok_i64 [OF assms] by (simp add: read_int_write_int)
  have w: "write_string b = TAG_STRING # ?n @ b"
    using len_ok_i64 [OF assms] by (simp add: write_string_def)
  have "checked_slice ((TAG_STRING # ?n) @ b @ rest) (1 + length ?n) (int (length b))
      = Ok (b, 1 + length ?n + length b)"
    by (rule checked_slice_exact) (use assms length_write_int [of "int (length b)"] in \<open>auto simp: len_ok_def\<close>)
  then have "read_string (write_string b @ rest) = Ok (utf8_or_bytes b, length (write_string b))"
    using i by (simp add: read_string_def w)
  then show ?thesis
    by (subst read_value.simps) (simp add: w)
qed

lemma utf8_or_bytes_string [simp]: "utf8_valid s \<Longrightarrow> utf8_or_bytes (as_bytes s) = VString s"
  by (simp add: utf8_or_bytes_def)

lemma read_items_concat:
  assumes "\<And>v. v \<in> set a \<Longrightarrow> decodes A v"
  shows "read_items A (int (length a)) (concat (map write_value a) @ rest)
    = Ok (map wire_norm a, length (concat (map write_value a)))"
  using assms
proof (induction a)
  case Nil
  then show ?case by (simp add: read_items.simps)
next
  case (Cons v a)
  then have "read_value A (write_value v @ concat (map write_value a) @ rest)
      = Ok (wire_norm v, length (write_value v))"
    by (simp add: decodes_def)
  with Cons show ?case by (subst read_items.simps) simp
qed

lemma read_pairs_concat:
  assumes "\<And>k v. (k, v) \<in> set m \<Longrightarrow> decodes A v \<and> utf8_valid k \<and> len_ok k"
  shows "read_pairs A (int (length m))
      (concat (map (\<lambda>(k, v). write_string (as_bytes k) @ write_value v) m) @ rest) obj
    = Ok (im_inserts (map (\<lambda>(k, v). (k, wire_norm v)) m) obj,
          length (concat (map (\<lambda>(k, v). write_string (as_bytes k) @ write_value v) m)))"
  using assms
proof (induction m arbitrary: obj)
  case Nil
  then show ?case by (simp add: read_pairs.simps)
next
  case (Cons kv m)
  obtain k v where kv: "kv = (k, v)" by (cases kv)
  let ?tl = "concat (map (\<lambda>(k, v). write_string (as_bytes k) @ write_value v) m) @ rest"
  have k: "utf8_valid k" "len_ok (as_bytes k)" and v: "decodes A v"
    using Cons.prems kv by (auto simp: len_ok_def)
  have rk: "read_value A (write_string (as_bytes k) @ write_value v @ ?tl)
      = Ok (VString k, length (write_string (as_bytes k)))"
    using read_value_string [OF k(2)] k(1) by simp
  have rv: "read_value A (write_value v @ ?tl) = Ok (wire_norm v, length (write_value v))"
    using v by (simp add: decodes_def)
  have step: "read_pairs A (int (length m)) ?tl (im_insert k (wire_norm v) obj)
    = Ok (im_inserts (map (\<lambda>(k, v). (k, wire_norm v)) m) (im_insert k (wire_norm v) obj),
          length (concat (map (\<lambda>(k, v). write_string (as_bytes k) @ write_value v) m)))"
    by (rule Cons.IH) (use Cons.prems in auto)
  show ?case
    by (subst read_pairs.simps) (simp add: kv rk rv step)
qed

lemma read_row_concat:
  assumes "\<And>v. v \<in> set row \<Longrightarrow> decodes A v"
    and "\<And>v rest. v \<in> set row \<Longrightarrow> v \<noteq> VNull \<Longrightarrow> write_value v \<noteq> [] \<and> hd (write_value v) \<noteq> TAG_SKIP"
  shows "read_row A (length row)
      (concat (map (\<lambda>v. if v = VNull then [TAG_SKIP] else write_value v) row) @ rest)
    = Ok (map wire_norm row,
          length (concat (map (\<lambda>v. if v = VNull then [TAG_SKIP] else write_value v) row)))"
  using assms
proof (induction row)
  case Nil
  then show ?case by (simp add: read_row.simps)
next
  case (Cons v row)
  let ?tl = "concat (map (\<lambda>v. if v = VNull then [TAG_SKIP] else write_value v) row) @ rest"
  have IH: "read_row A (length row) ?tl = Ok (map wire_norm row, length ?tl - length rest)"
    using Cons by simp
  show ?case
  proof (cases "v = VNull")
    case True
    then show ?thesis using IH by (subst read_row.simps) simp
  next
    case False
    then have "read_value A (write_value v @ ?tl) = Ok (wire_norm v, length (write_value v))"
      and "hd (write_value v @ ?tl) \<noteq> TAG_SKIP"
      using Cons.prems by (auto simp: decodes_def)
    then show ?thesis using IH False by (subst read_row.simps) simp
  qed
qed

lemma read_rows_concat:
  assumes "\<And>r rest. r \<in> set rows \<Longrightarrow>
      read_row A k (enc r @ rest) = Ok (map wire_norm r, length (enc r))"
    and "A KValue (int k)"
  shows "read_rows A (int (length rows)) k (concat (map enc rows) @ rest)
    = Ok (map (map wire_norm) rows, length (concat (map enc rows)))"
  using assms
proof (induction rows)
  case Nil
  then show ?case by (simp add: read_rows.simps)
next
  case (Cons r rows)
  then show ?case by (subst read_rows.simps) simp
qed

lemma write_value_hd: "write_value v \<noteq> [] \<and> hd (write_value v) \<noteq> TAG_SKIP"
  by (cases v) (auto simp: write_string_def write_int_def tag_defs)

lemma keys_of_strings: "keys_of (map VString ks) = Ok ks"
  by (induction ks) auto

lemma read_value_keys:
  assumes "len_ok ks" "A KValue (int (length ks))" "\<And>k. k \<in> set ks \<Longrightarrow> utf8_valid k \<and> len_ok k"
  shows "decodes A (VArray (map VString ks))"
proof -
  have "decodes A (VString k)" if "k \<in> set ks" for k
    using assms(3) [OF that] by (auto simp: decodes_def read_value_string len_ok_def)
  then have "read_items A (int (length ks)) (concat (map write_value (map VString ks)) @ rest)
      = Ok (map VString ks, length (concat (map write_value (map VString ks))))" for rest
    using read_items_concat [of "map VString ks" A rest] by (auto simp: comp_def)
  then show ?thesis
    using assms(1,2) len_ok_i64 [of ks]
    by (simp add: decodes_def read_value.simps tag_defs read_int_write_int comp_def)
qed

lemma read_value_number:
  assumes "i64_range n"
  shows "read_value A (write_int n @ rest) = Ok (VInt n, length (write_int n))"
proof -
  have "\<exists>tag tl. write_int n = tag # tl \<and> tag \<in> {TAG_INT8, TAG_INT16, TAG_INT32, TAG_INT64}"
    by (simp add: write_int_def)
  then obtain tag tl where w: "write_int n = tag # tl"
    and t: "tag \<in> {TAG_INT8, TAG_INT16, TAG_INT32, TAG_INT64}" by blast
  then have n: "tag \<noteq> TAG_NULL" "tag \<noteq> TAG_TRUE" "tag \<noteq> TAG_FALSE" by (auto simp: tag_defs)
  have "read_int ((tag # tl) @ rest) = Ok (n, length (tag # tl))"
    using read_int_write_int [OF assms, of rest] w by simp
  then show ?thesis
    using n t by (subst read_value.simps) (simp add: w)
qed

text \<open>Everything the writer produces, the decoder reads back, whatever bytes follow.\<close>

lemma write_read: "value_wf v \<Longrightarrow> value_fits v \<Longrightarrow> rect v \<Longrightarrow> grants A v \<Longrightarrow> decodes A v"
proof (induction v rule: wire_value_induct)
  case (Int i)
  then show ?case by (simp add: decodes_def read_value_number)
next
  case (Real f)
  have "word_of_int (uint f mod 256 ^ 8) = f"
    using uint_bounded [of f] by simp
  then show ?case
    by (simp add: decodes_def read_value.simps need_def from_to_le_unsigned tag_defs)
next
  case (String s)
  then show ?case by (simp add: decodes_def read_value_string len_ok_def)
next
  case (Bytes b)
  then show ?case by (simp add: decodes_def read_value_string)
next
  case (Array a)
  have "read_items A (int (length a)) (concat (map write_value a) @ rest)
      = Ok (map wire_norm a, length (concat (map write_value a)))" for rest
    by (rule read_items_concat) (use Array in auto)
  then show ?case
    using Array.prems len_ok_i64 [of a]
    by (simp add: decodes_def read_value.simps tag_defs read_int_write_int)
next
  case (Object m)
  let ?m = "map (\<lambda>(k, v). (k, wire_norm v)) m"
  have "im_keys ?m = im_keys m" by (auto simp: im_keys_def)
  then have "im_inserts ?m [] = ?m"
    using Object.prems by (simp add: im_inserts_id im_wf_def)
  moreover have "read_pairs A (int (length m))
      (concat (map (\<lambda>(k, v). write_string (as_bytes k) @ write_value v) m) @ rest) []
    = Ok (im_inserts ?m [],
          length (concat (map (\<lambda>(k, v). write_string (as_bytes k) @ write_value v) m)))" for rest
    by (rule read_pairs_concat) (use Object in force)
  ultimately show ?case
    using Object.prems len_ok_i64 [of m]
    by (simp add: decodes_def read_value.simps tag_defs read_int_write_int)
next
  case (Template ks rows)
  let ?enc = "\<lambda>row. concat (map (\<lambda>v. if v = VNull then [TAG_SKIP] else write_value v) row)"
  have k: "decodes A (VArray (map VString ks))"
    by (rule read_value_keys) (use Template.prems in auto)
  have row: "read_row A (length ks) (?enc r @ rest) = Ok (map wire_norm r, length (?enc r))"
    if "r \<in> set rows" for r rest
  proof -
    have "decodes A v" if "v \<in> set r" for v
      using Template \<open>r \<in> set rows\<close> that by auto
    moreover have "length r = length ks" using Template.prems that by simp
    ultimately show ?thesis using read_row_concat [of r A rest] write_value_hd by simp
  qed
  have rows: "read_rows A (int (length rows)) (length ks) (concat (map ?enc rows) @ rest)
      = Ok (map (map wire_norm) rows, length (concat (map ?enc rows)))" for rest
    by (rule read_rows_concat) (use row Template.prems in auto)
  have w: "write_value (VTemplate ks rows) = TAG_TEMPLATE # write_value (VArray (map VString ks))
      @ write_int (as_i64 (int (length rows))) @ concat (map ?enc rows)"
    by (simp add: comp_def)
  have k': "read_value A (write_value (VArray (map VString ks)) @ rest)
      = Ok (VArray (map VString ks), length (write_value (VArray (map VString ks))))" for rest
    using k by (simp add: decodes_def comp_def del: write_value.simps)
  show ?case
    unfolding decodes_def w
    by (subst read_value.simps)
      (use k' rows Template.prems len_ok_i64 [of rows] in
        \<open>simp add: tag_defs read_int_write_int keys_of_strings del: write_value.simps\<close>)
qed (simp_all add: decodes_def read_value.simps tag_defs)

end
