(* ===== verification/Bser_Pdu.thy ===== *)
theory Bser_Pdu
  imports Bser
begin

text \<open>
  PDU framing (\<^verbatim>\<open>bser.rs\<close>: \<^verbatim>\<open>decode_pdu\<close>, \<^verbatim>\<open>read_pdu\<close>, \<^verbatim>\<open>write_pdu\<close>) and the contract of a PDU stream,
  which both wire codecs meet: whatever a peer writes PDU by PDU is read back PDU by PDU.
\<close>

section \<open>Framing on a slice\<close>

definition header_len_of :: "byte list \<Rightarrow> (protocol_error, nat) outcome" where
  "header_len_of buf =
     (if take 2 buf = MAGIC_V1 then Ok 2
      else if take 2 buf = MAGIC_V2 then (if length buf < 6 then Err Truncated else Ok 6)
      else Err (UnknownEncoding (hd buf)))"

definition bser_decode_pdu :: "allocator \<Rightarrow> byte list \<Rightarrow> (protocol_error, wire_value \<times> nat) outcome" where
  "bser_decode_pdu alloc buf =
     (if length buf < 2 then Err Truncated
      else obind (header_len_of buf) (\<lambda>header_len.
        obind (read_int (drop header_len buf)) (\<lambda>(payload_len, len_size).
          obind (checked_slice buf (header_len + len_size) payload_len) (\<lambda>(payload, payload_end).
            obind (read_value alloc payload) (\<lambda>(v, consumed).
              if int consumed \<noteq> as_u64 payload_len
              then Err (BserError (LengthMismatch payload_len consumed))
              else Ok (v, payload_end))))))"

section \<open>Framing on a stream\<close>

text \<open>A reader is the bytes still to come; \<^verbatim>\<open>read_exact\<close> fails when too few are left.\<close>

definition read_exact :: "nat \<Rightarrow> byte list \<Rightarrow> (protocol_error, byte list \<times> byte list) outcome" where
  "read_exact n r = (if length r < n then Err IoUnexpectedEof else Ok (take n r, drop n r))"

definition read_int_from :: "byte list \<Rightarrow> (protocol_error, int \<times> byte list) outcome" where
  "read_int_from r =
     obind (read_exact 1 r) (\<lambda>(tag, r1).
       obind (if hd tag = TAG_INT8 then Ok 1 else if hd tag = TAG_INT16 then Ok 2
              else if hd tag = TAG_INT32 then Ok 4 else if hd tag = TAG_INT64 then Ok 8
              else Err (BserError (ExpectedIntTag (hd tag)))) (\<lambda>n_bytes.
         obind (read_exact n_bytes r1) (\<lambda>(raw, r2). Ok (from_le_signed raw, r2))))"

definition bser_read_pdu ::
  "allocator \<Rightarrow> byte list \<Rightarrow> (protocol_error, (wire_value \<times> encoding) option \<times> byte list) outcome" where
  "bser_read_pdu alloc r =
     (case read_exact 2 r of
        Err IoUnexpectedEof \<Rightarrow> Ok (None, [])
      | Err e \<Rightarrow> Err e
      | Panic \<Rightarrow> Panic
      | Ok (magic, r1) \<Rightarrow>
          obind (if magic = MAGIC_V1 then Ok (BserV1, r1)
                 else if magic = MAGIC_V2 then
                   obind (read_exact 4 r1) (\<lambda>(caps, r2). Ok (BserV2, r2))
                 else Err (UnknownEncoding (hd magic))) (\<lambda>(version, r3).
            obind (read_int_from r3) (\<lambda>(len, r4).
              if \<not> alloc KByte (as_u64 len) then Panic
              else obind (read_exact (nat (as_u64 len)) r4) (\<lambda>(payload, r5).
                obind (read_value alloc payload) (\<lambda>(v, _).
                  Ok (Some (v, version), r5))))))"

text \<open>\<^verbatim>\<open>write_pdu\<close>: the writer is the bytes written so far.\<close>

definition bser_write_pdu :: "byte list \<Rightarrow> wire_value \<Rightarrow> encoding \<Rightarrow> (protocol_error, byte list) outcome" where
  "bser_write_pdu w v ver = obind (bser_encode_pdu v ver) (\<lambda>bytes. Ok (w @ bytes))"

section \<open>The contract of a PDU stream\<close>

text \<open>
  The reading loop of a client (\<^verbatim>\<open>while let Some(v) = read_pdu(r)?\<close>): it stops at the end of the
  stream. The fuel bounds the number of PDUs read.
\<close>

fun read_all :: "(byte list \<Rightarrow> ('e, 'a option \<times> byte list) outcome) \<Rightarrow> nat \<Rightarrow> byte list
    \<Rightarrow> ('e, 'a list) outcome option" where
  "read_all rd 0 r = None"
| "read_all rd (Suc fuel) r =
     (case rd r of
        Err e \<Rightarrow> Some (Err e)
      | Panic \<Rightarrow> Some Panic
      | Ok (None, _) \<Rightarrow> Some (Ok [])
      | Ok (Some v, r') \<Rightarrow>
          map_option (\<lambda>res. obind res (\<lambda>vs. Ok (v # vs))) (read_all rd fuel r'))"

locale pdu_stream =
  fixes put :: "'v \<Rightarrow> byte list"
    and rd :: "byte list \<Rightarrow> ('e, 'w option \<times> byte list) outcome"
    and seen :: "'v \<Rightarrow> 'w"
    and good :: "'v \<Rightarrow> bool"
  assumes rd_end: "rd [] = Ok (None, [])"
    and rd_put: "good v \<Longrightarrow> rd (put v @ rest) = Ok (Some (seen v), rest)"
begin

lemma read_all_puts:
  assumes "list_all good vs" and "length vs < fuel"
  shows "read_all rd fuel (concat (map put vs)) = Some (Ok (map seen vs))"
  using assms
proof (induction vs arbitrary: fuel)
  case Nil
  then show ?case by (cases fuel) (auto simp: rd_end)
next
  case (Cons v vs)
  then obtain f where "fuel = Suc f" "length vs < f" by (cases fuel) auto
  with Cons show ?case by (simp add: rd_put)
qed

lemma put_inj_seen:
  assumes "good v" "good w" "put v = put w"
  shows "seen v = seen w"
  using rd_put [OF assms(1), of "[]"] rd_put [OF assms(2), of "[]"] assms(3) by simp

end

section \<open>Framing is inverted by the decoders\<close>

lemma read_int_from_write_int:
  assumes "i64_range n"
  shows "read_int_from (write_int n @ rest) = Ok (n, rest)"
proof -
  have rt: "0 < k \<Longrightarrow> - (256 ^ k) \<le> 2 * n \<Longrightarrow> 2 * n < 256 ^ k \<Longrightarrow>
      from_le_signed (to_le_bytes k n) = n" for k
    by (simp add: from_to_le_signed)
  note rts = rt [of 1] rt [of 2] rt [of 4] rt [of 8]
  from assms show ?thesis
    unfolding write_int_def i64_range_def
    using rts by (auto simp: read_int_from_def read_exact_def tag_defs)
qed

definition pdu_ok :: "allocator \<Rightarrow> wire_value \<Rightarrow> bool" where
  "pdu_ok A v = (sendable v \<and> len_ok (write_value v) \<and> grants A v)"

definition magic_of :: "encoding \<Rightarrow> byte list" where
  "magic_of ver = (if ver = BserV2 then MAGIC_V2 @ to_le_bytes 4 0 else MAGIC_V1)"

definition bser_put :: "encoding \<Rightarrow> wire_value \<Rightarrow> byte list" where
  "bser_put ver v = magic_of ver @ write_int (int (length (write_value v))) @ write_value v"

lemma bser_encode_pdu_put:
  "ver \<noteq> Json \<Longrightarrow> len_ok (write_value v) \<Longrightarrow> bser_encode_pdu v ver = Ok (bser_put ver v)"
  using len_ok_i64 [of "write_value v"]
  by (cases ver) (simp_all add: bser_encode_pdu_def bser_put_def magic_of_def Let_def)

lemma pdu_ok_decodes:
  "pdu_ok A v \<Longrightarrow> read_value A (write_value v @ rest) = Ok (wire_norm v, length (write_value v))"
  using write_read [of v A] by (auto simp: pdu_ok_def sendable_def decodes_def)

lemma bser_decode_put:
  assumes "ver \<noteq> Json" and ok: "pdu_ok A v"
  shows "bser_decode_pdu A (bser_put ver v @ rest) = Ok (wire_norm v, length (bser_put ver v))"
proof -
  let ?p = "write_value v" and ?m = "magic_of ver" and ?n = "write_int (int (length (write_value v)))"
  have len: "i64_range (int (length ?p))" "len_ok ?p"
    using ok len_ok_i64 by (auto simp: pdu_ok_def)
  have m: "length ?m \<in> {2, 6}" by (simp add: magic_of_def MAGIC_V1_def MAGIC_V2_def)
  have sl: "checked_slice ((?m @ ?n) @ ?p @ rest) (length ?m + length ?n) (int (length ?p))
      = Ok (?p, length ?m + length ?n + length ?p)"
    by (rule checked_slice_exact)
      (use len m length_write_int [of "int (length ?p)"] in \<open>auto simp: len_ok_def\<close>)
  have u: "as_u64 (int (length ?p)) = int (length ?p)"
    using len by (simp add: as_u64_def len_ok_def)
  have h: "\<not> length (bser_put ver v @ rest) < 2"
    "header_len_of (bser_put ver v @ rest) = Ok (length ?m)"
    by (simp_all add: header_len_of_def bser_put_def magic_of_def MAGIC_V1_def MAGIC_V2_def)
  have ri: "read_int (?n @ ?p @ rest) = Ok (int (length ?p), length ?n)"
    using len by (simp add: read_int_write_int)
  show ?thesis
    unfolding bser_decode_pdu_def h(2) using h(1) ri sl u pdu_ok_decodes [OF ok, of "[]"]
    by (simp add: bser_put_def)
qed

lemma bser_read_put:
  assumes ver: "ver \<noteq> Json" and ok: "pdu_ok A v \<and> A KByte (int (length (write_value v)))"
  shows "bser_read_pdu A (bser_put ver v @ rest) = Ok (Some (wire_norm v, ver), rest)"
proof -
  let ?p = "write_value v"
  have len: "i64_range (int (length ?p))" "len_ok ?p"
    using ok len_ok_i64 by (auto simp: pdu_ok_def)
  have u: "as_u64 (int (length ?p)) = int (length ?p)"
    using len by (simp add: as_u64_def len_ok_def)
  show ?thesis
    using ver ok u pdu_ok_decodes [of A v "[]"] read_int_from_write_int [OF len(1), of "?p @ rest"]
    by (cases ver)
      (simp_all add: bser_read_pdu_def bser_put_def magic_of_def MAGIC_V1_def MAGIC_V2_def read_exact_def)
qed

interpretation bser_v1: pdu_stream "bser_put BserV1" "bser_read_pdu A" "\<lambda>v. (wire_norm v, BserV1)"
    "\<lambda>v. pdu_ok A v \<and> A KByte (int (length (write_value v)))" for A
  by unfold_locales (simp_all add: bser_read_put, simp add: bser_read_pdu_def read_exact_def)

interpretation bser_v2: pdu_stream "bser_put BserV2" "bser_read_pdu A" "\<lambda>v. (wire_norm v, BserV2)"
    "\<lambda>v. pdu_ok A v \<and> A KByte (int (length (write_value v)))" for A
  by unfold_locales (simp_all add: bser_read_put, simp add: bser_read_pdu_def read_exact_def)

section \<open>Incomplete and hostile input\<close>

lemma read_int_prefix:
  assumes "k < length (write_int n)"
  shows "read_int (take k (write_int n)) = Err Truncated"
proof (cases k)
  case 0
  then show ?thesis by (simp add: read_int_def)
next
  case (Suc j)
  with assms show ?thesis
    unfolding write_int_def
    by (auto simp: read_int_def need_def tag_defs split: if_splits)
qed

lemma checked_slice_short:
  assumes "length buf < start + n" and "int start + int n < 2 ^ 64"
  shows "checked_slice buf start (int n) = Err Truncated"
proof -
  have "as_u64 (int n) = int n" using assms(2) by (simp add: as_u64_def)
  then show ?thesis using assms by (simp add: checked_slice_def need_def Let_def)
qed

lemma magic_take:
  assumes "2 \<le> k"
  shows "take 2 (take k (magic_of ver @ rest)) = (if ver = BserV2 then MAGIC_V2 else MAGIC_V1)"
  using assms by (auto simp: magic_of_def MAGIC_V1_def MAGIC_V2_def numeral_2_eq_2 take_Cons' min_def)

lemma bser_decode_prefix:
  assumes ver: "ver \<noteq> Json" and len: "len_ok (write_value v)" and k: "k < length (bser_put ver v)"
  shows "bser_decode_pdu A (take k (bser_put ver v)) = Err Truncated"
proof -
  let ?p = "write_value v" and ?m = "magic_of ver" and ?n = "write_int (int (length (write_value v)))"
  define b where "b = take k (bser_put ver v)"
  have lb: "length b = k" using k by (simp add: b_def)
  have magic: "MAGIC_V1 \<noteq> MAGIC_V2" by (simp add: MAGIC_V1_def MAGIC_V2_def)
  have lm: "length ?m = (if ver = BserV2 then 6 else 2)"
    by (simp add: magic_of_def MAGIC_V1_def MAGIC_V2_def)
  have tk: "take 2 b = (if ver = BserV2 then MAGIC_V2 else MAGIC_V1)" if "2 \<le> k"
    using magic_take [OF that] by (simp only: b_def bser_put_def)
  have "bser_decode_pdu A b = Err Truncated"
  proof (cases "k < length ?m")
    case True
    then have "k < 2 \<or> (2 \<le> k \<and> k < 6 \<and> ver = BserV2)" using lm by (auto split: if_splits)
    then show ?thesis
      using lb magic tk by (auto simp: bser_decode_pdu_def header_len_of_def)
  next
    case False
    have hdr: "\<not> length b < 2" "take 2 b = (if ver = BserV2 then MAGIC_V2 else MAGIC_V1)"
      "ver = BserV2 \<Longrightarrow> \<not> length b < 6"
      using False lm lb tk by (auto split: if_splits)
    have red: "bser_decode_pdu A b = obind (read_int (drop (length ?m) b)) (\<lambda>(payload_len, len_size).
          obind (checked_slice b (length ?m + len_size) payload_len) (\<lambda>(payload, payload_end).
            obind (read_value A payload) (\<lambda>(v, consumed).
              if int consumed \<noteq> as_u64 payload_len
              then Err (BserError (LengthMismatch payload_len consumed))
              else Ok (v, payload_end))))"
      using hdr magic lm by (cases ver) (simp_all add: bser_decode_pdu_def header_len_of_def)
    have d: "drop (length ?m) b = take (k - length ?m) (?n @ ?p)"
      unfolding b_def drop_take bser_put_def by simp
    show ?thesis
    proof (cases "k - length ?m < length ?n")
      case True
      then have "read_int (drop (length ?m) b) = Err Truncated"
        unfolding d using read_int_prefix by simp
      then show ?thesis using red by simp
    next
      case F2: False
      have i: "i64_range (int (length ?p))" using len_ok_i64 [OF len] by simp
      have "read_int (drop (length ?m) b) = Ok (int (length ?p), length ?n)"
        unfolding d using F2 read_int_write_int [OF i] by (simp add: take_append)
      moreover have "checked_slice b (length ?m + length ?n) (int (length ?p)) = Err Truncated"
        by (rule checked_slice_short)
          (use k lm len length_write_int [of "int (length ?p)"] in
            \<open>auto simp: bser_put_def len_ok_def lb split: if_splits\<close>)
      ultimately show ?thesis using red by simp
    qed
  qed
  then show ?thesis by (simp add: b_def)
qed

lemma read_string_negative:
  assumes "- 3 \<le> len" and "len < 0"
  shows "read_value A (TAG_STRING # write_int len @ rest) = Panic"
proof -
  have w: "length (write_int len) = 2" using assms by (simp add: write_int_def)
  have i: "i64_range len" using assms by (simp add: i64_range_def)
  have u: "as_u64 len = len + 2 ^ 64"
  proof -
    have "(len + 2 ^ 64) mod 2 ^ 64 = len + 2 ^ 64"
      by (rule mod_pos_pos_trivial) (use assms in auto)
    then show ?thesis by (simp add: as_u64_def)
  qed
  have "(3 + (len + 2 ^ 64)) mod (2 ^ 64 :: int) = (3 + len) mod 2 ^ 64"
    by (metis add.assoc mod_add_self2)
  also have "\<dots> = 3 + len" by (rule mod_pos_pos_trivial) (use assms in auto)
  finally have e: "(3 + (len + 2 ^ 64)) mod (2 ^ 64 :: int) = 3 + len" .
  have "checked_slice (TAG_STRING # write_int len @ rest) 3 len = Panic"
    using assms w e by (simp add: checked_slice_def need_def Let_def u)
  then have "read_string (TAG_STRING # write_int len @ rest) = Panic"
    using read_int_write_int [OF i, of rest] w by (simp add: read_string_def numeral_3_eq_3)
  then show ?thesis by (subst read_value.simps) simp
qed

lemma read_array_refused:
  assumes "i64_range n" and "0 \<le> n" and "\<not> A KValue n"
  shows "read_value A (TAG_ARRAY # write_int n @ rest) = Panic"
  using assms by (subst read_value.simps) (simp add: tag_defs read_int_write_int)

lemma write_int_shortest_len:
  assumes "read_int buf = Ok (n, c)"
  shows "length (write_int n) \<le> c"
proof -
  have r: "- (256 ^ length bs) \<le> 2 * from_le_signed bs \<and> 2 * from_le_signed bs < 256 ^ length bs"
    if "bs \<noteq> []" for bs :: "byte list"
    using from_le_unsigned_bounds [of bs] by (auto simp: from_le_signed_def Let_def)
  define bs where "bs = take (c - 1) (tl buf)"
  have k: "c - 1 \<in> {1, 2, 4, 8}" "length bs = c - 1" "n = from_le_signed bs" "0 < c"
    using assms
    by (auto simp: read_int_def need_def obind_Ok_iff bs_def Suc_le_eq split: list.splits if_splits)
  then have "bs \<noteq> []" by auto
  with r [of bs] k have "- (256 ^ (c - 1)) \<le> 2 * n \<and> 2 * n < 256 ^ (c - 1)" by metis
  with k(1,4) show ?thesis by (auto simp: write_int_def)
qed

lemma header_len_ge: "header_len_of buf = Ok h \<Longrightarrow> 2 \<le> h"
  by (auto simp: header_len_of_def split: if_splits)

section \<open>Properties\<close>

text \<open>
  C3. The BSER codec round-trips: for either BSER version, every value the Rust types admit whose
  templates are rectangular is encoded, and decoding the bytes (whatever follows them) gives the
  value back, up to byte strings that are UTF-8 becoming strings, and consumes exactly the PDU.
\<close>

theorem bser_pdu_roundtrip:
  assumes "ver \<noteq> Json" and "value_wf v" and "value_fits v" and "rect v"
    and "len_ok (write_value v)" and "grants A v"
  shows "\<exists>bytes. bser_encode_pdu v ver = Ok bytes \<and>
    (\<forall>rest. bser_decode_pdu A (bytes @ rest) = Ok (wire_norm v, length bytes))"
proof -
  have "pdu_ok A v" using assms by (simp add: pdu_ok_def sendable_def)
  then show ?thesis using assms bser_encode_pdu_put bser_decode_put by blast
qed

definition sample_template :: wire_value where
  "sample_template = VTemplate [''name'', ''size''] [[VString ''a'', VInt 300], [VString ''b'', VNull]]"

lemma sample_template_facts:
  "value_wf sample_template" "value_fits sample_template" "rect sample_template"
  "len_ok (write_value sample_template)" "grants (\<lambda>_ n. n < 100) sample_template"
  by (simp_all add: sample_template_def i64_range_def len_ok_def write_string_def
      write_int_def as_i64_def as_bytes_def)

theorem bser_pdu_roundtrip_witness:
  "\<exists>bytes. bser_encode_pdu sample_template BserV2 = Ok bytes \<and>
    (\<forall>rest. bser_decode_pdu (\<lambda>_ n. n < 100) (bytes @ rest) = Ok (wire_norm sample_template, length bytes))"
  by (rule bser_pdu_roundtrip) (simp_all add: sample_template_facts)

fun write_pdus :: "byte list \<Rightarrow> wire_value list \<Rightarrow> encoding \<Rightarrow> (protocol_error, byte list) outcome" where
  "write_pdus w [] ver = Ok w"
| "write_pdus w (v # vs) ver = obind (bser_write_pdu w v ver) (\<lambda>w'. write_pdus w' vs ver)"

lemma write_pdus_put:
  assumes "ver \<noteq> Json" and "\<And>v. v \<in> set vs \<Longrightarrow> len_ok (write_value v)"
  shows "write_pdus w vs ver = Ok (w @ concat (map (bser_put ver) vs))"
  using assms(2)
  by (induction vs arbitrary: w) (simp_all add: bser_write_pdu_def bser_encode_pdu_put assms(1))

text \<open>
  A BSER stream is read back PDU by PDU: writing any sequence of values with \<open>bser_write_pdu\<close> and
  running the reading loop on the result yields exactly that sequence with the version it was
  written in, and then reports the end of the stream.
\<close>

theorem bser_stream_roundtrip:
  assumes "ver = BserV1 \<or> ver = BserV2"
    and "list_all (\<lambda>v. pdu_ok A v \<and> A KByte (int (length (write_value v)))) vs"
    and "length vs < fuel"
  shows "\<exists>bytes. write_pdus [] vs ver = Ok bytes \<and>
    read_all (bser_read_pdu A) fuel bytes = Some (Ok (map (\<lambda>v. (wire_norm v, ver)) vs))"
proof -
  have "ver \<noteq> Json" using assms(1) by auto
  moreover have "len_ok (write_value v)" if "v \<in> set vs" for v
    using assms(2) that by (auto simp: list_all_iff pdu_ok_def)
  ultimately have "write_pdus [] vs ver = Ok (concat (map (bser_put ver) vs))"
    by (simp add: write_pdus_put)
  then show ?thesis
    using assms bser_v1.read_all_puts bser_v2.read_all_puts by auto
qed

theorem bser_stream_roundtrip_witness:
  "\<exists>bytes. write_pdus [] [sample_template, VNull] BserV2 = Ok bytes \<and>
    read_all (bser_read_pdu (\<lambda>_ n. n < 100)) 3 bytes
      = Some (Ok (map (\<lambda>v. (wire_norm v, BserV2)) [sample_template, VNull]))"
proof (rule bser_stream_roundtrip)
  have "length (write_value sample_template) < 100"
    by (simp add: sample_template_def write_string_def write_int_def as_i64_def as_bytes_def)
  then show "list_all (\<lambda>v. pdu_ok (\<lambda>_ n. n < 100) v \<and> int (length (write_value v)) < 100)
      [sample_template, VNull]"
    using sample_template_facts by (simp add: pdu_ok_def sendable_def len_ok_def)
qed simp_all

text \<open>
  C20. Whatever bytes a peer sends, a PDU the decoder accepts is a value of the Rust type (integers in
  range, strings valid UTF-8, object keys distinct) with rectangular templates, and the reported
  size lies inside the buffer, so no slice of the decoder is out of range.
\<close>

theorem bser_decode_wellformed:
  assumes "bser_decode_pdu A buf = Ok (v, n)"
  shows "value_wf v \<and> rect v \<and> 5 \<le> n \<and> n \<le> length buf"
proof -
  from assms obtain h len ls payload c where h: "header_len_of buf = Ok h" and
    i: "read_int (drop h buf) = Ok (len, ls)" and
    s: "checked_slice buf (h + ls) len = Ok (payload, n)" and
    r: "read_value A payload = Ok (v, c)"
    by (auto simp: bser_decode_pdu_def obind_Ok_iff split: if_splits)
  show ?thesis
    using header_len_ge [OF h] read_int_bounds [OF i] checked_slice_bounds [OF s] read_wf(1) [OF r] read_bounds(1) [OF r]
    by auto
qed

theorem bser_decode_wellformed_witness:
  "value_wf (VArray [VInt 5, VString ''x'']) \<and> rect (VArray [VInt 5, VString ''x'']) \<and>
    (5 :: nat) \<le> 13 \<and> (13 :: nat) \<le> length [0, 1, 3, 9, 0, 3, 2, 3, 5, 2, 3, 1, (120 :: byte)]"
proof (rule bser_decode_wellformed)
  show "bser_decode_pdu (\<lambda>_ _. True) [0, 1, 3, 9, 0, 3, 2, 3, 5, 2, 3, 1, 120] = Ok (VArray [VInt 5, VString ''x''], 13)"
    by (simp add: bser_decode_pdu_def header_len_of_def MAGIC_V1_def read_int_def need_def checked_slice_def as_u64_def
        from_le_signed_def tag_defs read_value.simps read_items.simps read_string_def utf8_or_bytes_def
        chars_of_def char_of_byte_def char_of_def bit_0)
qed

text \<open>
  C21. A PDU that has not fully arrived is always reported as truncated: no strict prefix of an
  encoded PDU decodes to a value or to any other error.
\<close>

theorem bser_prefix_truncated:
  assumes "ver \<noteq> Json" and "len_ok (write_value v)"
    and "bser_encode_pdu v ver = Ok bytes" and "k < length bytes"
  shows "bser_decode_pdu A (take k bytes) = Err Truncated"
  using bser_decode_prefix [OF assms(1,2)] assms by (simp add: bser_encode_pdu_put)

theorem bser_prefix_truncated_witness:
  "bser_decode_pdu (\<lambda>_ _. True) (take 5 [0, 1, 3, 3, 2, 3, 0]) = Err Truncated"
  by (rule bser_prefix_truncated [where ver = BserV1 and v = "VString []"])
    (simp_all add: len_ok_def bser_encode_pdu_def write_string_def write_int_def as_i64_def
      as_bytes_def MAGIC_V1_def tag_defs Let_def)

text \<open>
  Integers take the shortest tag that holds them: no encoding the decoder accepts for the same
  integer is shorter than the one \<open>write_int\<close> produces, and that one decodes to it.
\<close>

theorem write_int_canonical:
  assumes "read_int buf = Ok (n, c)"
  shows "length (write_int n) \<le> c \<and> read_int (write_int n @ rest) = Ok (n, length (write_int n))"
  using write_int_shortest_len [OF assms] read_int_bounds [OF assms] read_int_write_int by blast

theorem write_int_canonical_witness:
  "length (write_int 5) \<le> 9 \<and> read_int (write_int 5 @ []) = Ok (5, length (write_int 5))"
  by (rule write_int_canonical [where buf = "[6, 5, 0, 0, 0, 0, 0, 0, 0]"])
    (simp add: read_int_def need_def from_le_signed_def tag_defs)

text \<open>
  C40. Input the decoder does not survive: a string whose length field is a small negative integer
  panics whatever the allocator and the rest of the buffer are, and so does an array whose claimed
  count the allocator refuses, before a single element has been read.
\<close>

theorem bser_hostile_lengths_panic:
  assumes "- 3 \<le> len" and "len < 0" and "0 \<le> count" and "count < 2 ^ 63" and "\<not> A KValue count"
  shows "read_value A (TAG_STRING # write_int len @ rest) = Panic \<and>
    read_value A (TAG_ARRAY # write_int count @ rest) = Panic"
  using assms read_string_negative read_array_refused by (simp add: i64_range_def)

theorem bser_hostile_lengths_panic_witness:
  "read_value (\<lambda>_ n. n \<le> 2 ^ 40) (TAG_STRING # write_int (- 1) @ []) = Panic \<and>
    read_value (\<lambda>_ n. n \<le> 2 ^ 40) (TAG_ARRAY # write_int (2 ^ 62) @ []) = Panic"
  by (rule bser_hostile_lengths_panic) simp_all

end
