(* ===== verification/Json_Codec.thy ===== *)
theory Json_Codec
  imports Bser_Pdu
begin

text \<open>
  The JSON codec (\<^verbatim>\<open>json.rs\<close>) and the copies of its conversions elsewhere in the program
  (\<^verbatim>\<open>server.rs\<close>, \<^verbatim>\<open>info.rs\<close>, \<^verbatim>\<open>cli.rs\<close>, \<^verbatim>\<open>root.rs\<close>). The crate \<^verbatim>\<open>serde_json\<close> is not part of the repository:
  its number type \<open>'n\<close>, the accessors of that type, the printer and the parser are the fields of
  the parameter \<open>serde\<close>; what the program relies on is stated by \<open>number_laws\<close> and \<open>text_laws\<close>.
\<close>

section \<open>The serde\_json interface\<close>

datatype 'n json =
    JNull
  | JBool bool
  | JNumber 'n
  | JString string
  | JArray "'n json list"
  | JObject "(string \<times> 'n json) list"

record 'n serde =
  num_from_i64 :: "int \<Rightarrow> 'n"
  num_from_f64 :: "f64 \<Rightarrow> 'n option"
  num_as_i64 :: "'n \<Rightarrow> int option"
  num_as_u64 :: "'n \<Rightarrow> int option"
  num_as_f64 :: "'n \<Rightarrow> f64 option"
  to_text :: "'n json \<Rightarrow> byte list"
  from_text :: "byte list \<Rightarrow> 'n json option"

section \<open>Conversions\<close>

fun to_serde :: "'n serde \<Rightarrow> wire_value \<Rightarrow> 'n json" where
  "to_serde S VNull = JNull"
| "to_serde S (VBool b) = JBool b"
| "to_serde S (VInt i) = JNumber (num_from_i64 S i)"
| "to_serde S (VReal f) = (case num_from_f64 S f of None \<Rightarrow> JNull | Some n \<Rightarrow> JNumber n)"
| "to_serde S (VString s) = JString s"
| "to_serde S (VBytes b) = JString (from_utf8_lossy (chars_of b))"
| "to_serde S (VArray a) = JArray (map (to_serde S) a)"
| "to_serde S (VObject m) = JObject (im_inserts (map (\<lambda>(k, v). (k, to_serde S v)) m) [])"
| "to_serde S (VTemplate ks rows) =
     JArray (map (\<lambda>row. JObject (im_inserts (zip ks (map (to_serde S) row)) [])) rows)"

text \<open>\<^verbatim>\<open>json.rs\<close>: an integer above \<^verbatim>\<open>i64::MAX\<close> is cast to \<^verbatim>\<open>i64\<close>.\<close>

fun from_serde :: "'n serde \<Rightarrow> 'n json \<Rightarrow> wire_value" where
  "from_serde S JNull = VNull"
| "from_serde S (JBool b) = VBool b"
| "from_serde S (JNumber n) =
     (case num_as_i64 S n of
        Some i \<Rightarrow> VInt i
      | None \<Rightarrow>
          (case num_as_u64 S n of
             Some u \<Rightarrow> VInt (as_i64 u)
           | None \<Rightarrow> (case num_as_f64 S n of Some f \<Rightarrow> VReal f | None \<Rightarrow> VNull)))"
| "from_serde S (JString s) = VString s"
| "from_serde S (JArray a) = VArray (map (from_serde S) a)"
| "from_serde S (JObject m) = VObject (im_inserts (map (\<lambda>(k, v). (k, from_serde S v)) m) [])"

text \<open>The copy in \<^verbatim>\<open>server.rs\<close> (also in \<^verbatim>\<open>info.rs\<close>, \<^verbatim>\<open>cli.rs\<close> and \<^verbatim>\<open>root.rs\<close>) has no \<^verbatim>\<open>as_u64\<close> branch.\<close>

fun json_to_value :: "'n serde \<Rightarrow> 'n json \<Rightarrow> wire_value" where
  "json_to_value S JNull = VNull"
| "json_to_value S (JBool b) = VBool b"
| "json_to_value S (JNumber n) =
     (case num_as_i64 S n of
        Some i \<Rightarrow> VInt i
      | None \<Rightarrow> (case num_as_f64 S n of Some f \<Rightarrow> VReal f | None \<Rightarrow> VNull))"
| "json_to_value S (JString s) = VString s"
| "json_to_value S (JArray a) = VArray (map (json_to_value S) a)"
| "json_to_value S (JObject m) = VObject (im_inserts (map (\<lambda>(k, v). (k, json_to_value S v)) m) [])"

section \<open>PDUs\<close>

definition NEWLINE :: byte where "NEWLINE = 10"

definition json_encode_pdu :: "'n serde \<Rightarrow> byte list \<Rightarrow> wire_value \<Rightarrow> byte list" where
  "json_encode_pdu S w v = w @ to_text S (to_serde S v) @ [NEWLINE]"

text \<open>\<^verbatim>\<open>BufRead::read_until\<close>: the bytes up to and including the delimiter, or all of them.\<close>

definition read_until :: "byte \<Rightarrow> byte list \<Rightarrow> byte list \<times> byte list" where
  "read_until d r =
     (let l = takeWhile (\<lambda>b. b \<noteq> d) r; t = dropWhile (\<lambda>b. b \<noteq> d) r
      in (l @ take 1 t, drop 1 t))"

definition pop_newline :: "byte list \<Rightarrow> byte list" where
  "pop_newline line = (if line \<noteq> [] \<and> last line = NEWLINE then butlast line else line)"

definition json_read_pdu ::
  "'n serde \<Rightarrow> byte list \<Rightarrow> (protocol_error, wire_value option \<times> byte list) outcome" where
  "json_read_pdu S r =
     (let (raw, rest) = read_until NEWLINE r; line = pop_newline raw in
      if raw = [] then Ok (None, rest)
      else if line = [] then Err Truncated
      else (case from_text S line of
              None \<Rightarrow> Err JsonError
            | Some j \<Rightarrow> Ok (Some (from_serde S j), rest)))"

section \<open>What the program relies on\<close>

text \<open>
  Documented behaviour of \<^verbatim>\<open>serde_json\<close>: an \<^verbatim>\<open>i64\<close> is stored exactly; \<^verbatim>\<open>Number::from_f64\<close> refuses
  infinities and NaN and a float is no integer (\<open>number_laws\<close>); the compact text of a document is
  one non-empty line that the parser reads back (\<open>text_laws\<close>, per document: without the crate's
  \<^verbatim>\<open>float_roundtrip\<close> feature it can fail for some floats).
\<close>

definition f64_finite :: "f64 \<Rightarrow> bool" where
  "f64_finite f = ((uint f div 2 ^ 52) mod 2 ^ 11 \<noteq> 2047)"

definition number_laws :: "'n serde \<Rightarrow> bool" where
  "number_laws S \<longleftrightarrow>
     (\<forall>i. i64_range i \<longrightarrow> num_as_i64 S (num_from_i64 S i) = Some i) \<and>
     (\<forall>f. num_from_f64 S f = None \<longleftrightarrow> \<not> f64_finite f) \<and>
     (\<forall>f n. num_from_f64 S f = Some n \<longrightarrow>
        num_as_i64 S n = None \<and> num_as_u64 S n = None \<and> num_as_f64 S n = Some f)"

definition text_laws :: "'n serde \<Rightarrow> 'n json \<Rightarrow> bool" where
  "text_laws S j \<longleftrightarrow>
     NEWLINE \<notin> set (to_text S j) \<and> to_text S j \<noteq> [] \<and> from_text S (to_text S j) = Some j"

section \<open>What a value becomes over JSON\<close>

text \<open>
  JSON has no byte strings, no templates, no infinities: bytes are decoded lossily, a template is
  expanded into an array of objects, and a number that is not finite becomes null.
\<close>

fun json_norm :: "wire_value \<Rightarrow> wire_value" where
  "json_norm (VReal f) = (if f64_finite f then VReal f else VNull)"
| "json_norm (VBytes b) = VString (from_utf8_lossy (chars_of b))"
| "json_norm (VArray a) = VArray (map json_norm a)"
| "json_norm (VObject m) = VObject (map (\<lambda>(k, v). (k, json_norm v)) m)"
| "json_norm (VTemplate ks rows) =
     VArray (map (\<lambda>row. VObject (im_inserts (zip ks (map json_norm row)) [])) rows)"
| "json_norm v = v"

lemma im_insert_map:
  "map (\<lambda>(k, v). (k, f v)) (im_insert k v m) = im_insert k (f v) (map (\<lambda>(k, v). (k, f v)) m)"
  by (induction k v m rule: im_insert.induct) auto

lemma im_inserts_map:
  "map (\<lambda>(k, v). (k, f v)) (im_inserts kvs m)
    = im_inserts (map (\<lambda>(k, v). (k, f v)) kvs) (map (\<lambda>(k, v). (k, f v)) m)"
  by (induction kvs m rule: im_inserts.induct) (auto simp: im_insert_map)

lemma im_wf_map: "im_wf (map (\<lambda>(k, v). (k, f v)) m) = im_wf m"
  by (simp add: im_wf_def im_keys_def comp_def case_prod_beta')

lemma im_inserts_map_id:
  "im_wf m \<Longrightarrow> im_inserts (map (\<lambda>(k, v). (k, f v)) m) [] = map (\<lambda>(k, v). (k, f v)) m"
  by (rule im_inserts_id) (simp add: im_wf_map)

lemma im_inserts_twice:
  "im_inserts (map (\<lambda>(k, v). (k, f v)) (im_inserts kvs [])) []
    = im_inserts (map (\<lambda>(k, v). (k, f v)) kvs) []"
proof -
  have "im_wf (im_inserts kvs [])" by (rule im_wf_inserts) simp
  then show ?thesis
    by (simp only: im_inserts_map list.map im_inserts_id im_wf_inserts im_wf_Nil)
qed

lemma from_to_serde:
  assumes "number_laws S" and "value_wf v"
  shows "from_serde S (to_serde S v) = json_norm v"
  using assms(2)
proof (induction v rule: wire_value_induct)
  case (Int i)
  then show ?case using assms(1) by (simp add: number_laws_def)
next
  case (Real f)
  show ?case
  proof (cases "num_from_f64 S f")
    case None
    then have "\<not> f64_finite f" using assms(1) by (simp add: number_laws_def)
    with None show ?thesis by simp
  next
    case (Some n)
    then have "f64_finite f" using assms(1) by (metis number_laws_def option.discI)
    with Some show ?thesis using assms(1) by (simp add: number_laws_def)
  qed
next
  case (Object m)
  have e: "map (\<lambda>(k, v). (k, from_serde S v)) (map (\<lambda>(k, v). (k, to_serde S v)) m)
      = map (\<lambda>(k, v). (k, json_norm v)) m"
    using Object by (auto simp: case_prod_beta')
  have "from_serde S (to_serde S (VObject m))
      = VObject (im_inserts (map (\<lambda>(k, v). (k, from_serde S v)) (map (\<lambda>(k, v). (k, to_serde S v)) m)) [])"
    by (simp add: im_inserts_twice)
  also have "\<dots> = VObject (map (\<lambda>(k, v). (k, json_norm v)) m)"
    using Object.prems unfolding e by (simp add: im_inserts_map_id)
  finally show ?case by simp
next
  case (Template ks rows)
  have "im_inserts (map (\<lambda>(k, v). (k, from_serde S v)) (im_inserts (zip ks (map (to_serde S) r)) [])) []
      = im_inserts (zip ks (map json_norm r)) []" if "r \<in> set rows" for r
  proof -
    have "map (\<lambda>(k, v). (k, from_serde S v)) (zip ks (map (to_serde S) r))
        = zip ks (map (from_serde S) (map (to_serde S) r))"
      by (simp add: zip_map2 case_prod_beta')
    also have "map (from_serde S) (map (to_serde S) r) = map json_norm r"
      using Template that by simp
    finally show ?thesis by (simp add: im_inserts_twice)
  qed
  then show ?case by (simp add: comp_def)
qed (simp_all add: comp_def)

section \<open>A JSON stream\<close>

definition json_put :: "'n serde \<Rightarrow> wire_value \<Rightarrow> byte list" where
  "json_put S v = json_encode_pdu S [] v"

lemma read_until_line: "d \<notin> set l \<Longrightarrow> read_until d (l @ d # rest) = (l @ [d], rest)"
  by (simp add: read_until_def takeWhile_append2 dropWhile_append2 Let_def takeWhile_append dropWhile_append)

lemma json_read_line:
  assumes "text_laws S j"
  shows "json_read_pdu S (to_text S j @ NEWLINE # rest) = Ok (Some (from_serde S j), rest)"
  using assms by (simp add: json_read_pdu_def text_laws_def read_until_line pop_newline_def)

lemma json_pdu_stream:
  assumes "number_laws S"
  shows "pdu_stream (json_put S) (json_read_pdu S) json_norm
    (\<lambda>v. value_wf v \<and> text_laws S (to_serde S v))"
proof unfold_locales
  show "json_read_pdu S [] = Ok (None, [])"
    by (simp add: json_read_pdu_def read_until_def pop_newline_def)
next
  fix v rest assume "value_wf v \<and> text_laws S (to_serde S v)"
  then show "json_read_pdu S (json_put S v @ rest) = Ok (Some (json_norm v), rest)"
    using assms by (simp add: json_put_def json_encode_pdu_def json_read_line from_to_serde)
qed

fun write_json_pdus :: "'n serde \<Rightarrow> byte list \<Rightarrow> wire_value list \<Rightarrow> byte list" where
  "write_json_pdus S w [] = w"
| "write_json_pdus S w (v # vs) = write_json_pdus S (json_encode_pdu S w v) vs"

lemma write_json_pdus_put: "write_json_pdus S w vs = w @ concat (map (json_put S) vs)"
  by (induction vs arbitrary: w) (simp_all add: json_put_def json_encode_pdu_def)

section \<open>The two readings of a number\<close>

text \<open>\<open>small_ints S j\<close>: every integer of the document that fits \<^verbatim>\<open>u64\<close> fits \<^verbatim>\<open>i64\<close> too.\<close>

fun small_ints :: "'n serde \<Rightarrow> 'n json \<Rightarrow> bool" where
  "small_ints S (JNumber n) = (num_as_u64 S n \<noteq> None \<longrightarrow> num_as_i64 S n \<noteq> None)"
| "small_ints S (JArray a) = (\<forall>j \<in> set a. small_ints S j)"
| "small_ints S (JObject m) = (\<forall>kj \<in> set m. small_ints S (snd kj))"
| "small_ints S _ = True"

lemma json_induct [case_names Null Bool Number String Array Object]:
  assumes "P JNull" "\<And>b. P (JBool b)" "\<And>n. P (JNumber n)" "\<And>s. P (JString s)"
    "\<And>a. (\<And>j. j \<in> set a \<Longrightarrow> P j) \<Longrightarrow> P (JArray a)"
    "\<And>m. (\<And>k j. (k, j) \<in> set m \<Longrightarrow> P j) \<Longrightarrow> P (JObject m)"
  shows "P j"
  by (induction j) (use assms in \<open>auto intro: assms\<close>)

lemma json_to_value_from_serde: "small_ints S j \<Longrightarrow> json_to_value S j = from_serde S j"
proof (induction j rule: json_induct)
  case (Number n)
  then show ?case by (auto split: option.splits)
next
  case (Object m)
  then have "map (\<lambda>(k, v). (k, json_to_value S v)) m = map (\<lambda>(k, v). (k, from_serde S v)) m"
    by (auto simp: case_prod_beta')
  then show ?case by (simp only: json_to_value.simps from_serde.simps)
qed simp_all

lemma as_i64_wraps: "2 ^ 63 \<le> u \<Longrightarrow> u < 2 ^ 64 \<Longrightarrow> as_i64 u = u - 2 ^ 64"
proof -
  assume "2 ^ 63 \<le> u" "u < 2 ^ 64"
  then have "(u - 2 ^ 63) mod 2 ^ 64 = u - 2 ^ 63" by simp
  then have "(u + 2 ^ 63) mod 2 ^ 64 = u - 2 ^ 63"
    using mod_add_self2 [of "u - 2 ^ 63" "2 ^ 64"] by (simp add: add.commute)
  then show ?thesis by (simp add: as_i64_def)
qed

section \<open>Properties\<close>

text \<open>
  A concrete instance of the interface, for the witnesses: integers and finite floats as numbers,
  and the text of the documents without strings, arrays or objects.
\<close>

fun tiny_text :: "(int + f64) json \<Rightarrow> byte list" where
  "tiny_text (JBool True) = as_bytes ''true''"
| "tiny_text (JBool False) = as_bytes ''false''"
| "tiny_text (JNumber (Inl i)) = (if 0 \<le> i then as_bytes (nat_str (nat i)) else as_bytes ''null'')"
| "tiny_text _ = as_bytes ''null''"

definition tiny_parse :: "byte list \<Rightarrow> (int + f64) json option" where
  "tiny_parse bs =
     (if bs = as_bytes ''true'' then Some (JBool True)
      else if bs = as_bytes ''false'' then Some (JBool False)
      else if bs = as_bytes ''null'' then Some JNull
      else map_option (JNumber \<circ> Inl \<circ> int) (parse_uint u64_max (chars_of bs)))"

definition tiny_serde :: "(int + f64) serde" where
  "tiny_serde =
     \<lparr> num_from_i64 = Inl,
       num_from_f64 = (\<lambda>f. if f64_finite f then Some (Inr f) else None),
       num_as_i64 = (\<lambda>n. case n of Inl i \<Rightarrow> if i64_range i then Some i else None | Inr _ \<Rightarrow> None),
       num_as_u64 = (\<lambda>n. case n of Inl i \<Rightarrow> if 0 \<le> i then Some i else None | Inr _ \<Rightarrow> None),
       num_as_f64 = (\<lambda>n. case n of Inl i \<Rightarrow> Some 0 | Inr f \<Rightarrow> Some f),
       to_text = tiny_text,
       from_text = tiny_parse \<rparr>"

lemma tiny_number_laws: "number_laws tiny_serde"
  by (auto simp: number_laws_def tiny_serde_def split: if_splits)

text \<open>
  A JSON stream is read back line by line: writing any sequence of values with the JSON encoder
  and reading until the stream ends yields the sequence, each value as JSON can carry it
  (\<open>json_norm\<close>: templates expanded, bytes decoded lossily, non-finite floats null), given the
  documented behaviour of the JSON library.
\<close>

theorem json_stream_roundtrip:
  assumes "number_laws S" and "list_all (\<lambda>v. value_wf v \<and> text_laws S (to_serde S v)) vs"
    and "length vs < fuel"
  shows "read_all (json_read_pdu S) fuel (write_json_pdus S [] vs) = Some (Ok (map json_norm vs))"
  using pdu_stream.read_all_puts [OF json_pdu_stream [OF assms(1)] assms(2,3)]
  by (simp add: write_json_pdus_put)

theorem json_stream_roundtrip_witness:
  "read_all (json_read_pdu tiny_serde) 3 (write_json_pdus tiny_serde [] [VInt 42, VReal (2047 * 2 ^ 52)])
    = Some (Ok (map json_norm [VInt 42, VReal (2047 * 2 ^ 52)]))"
  by (rule json_stream_roundtrip [OF tiny_number_laws])
    (simp_all add: tiny_serde_def text_laws_def tiny_parse_def i64_range_def f64_finite_def NEWLINE_def
      as_bytes_def chars_of_def byte_of_char_def char_of_byte_def nat_str.simps digit_char_def
      parse_uint_def is_digit_char_def digits_val_def digit_val_def u64_max_def char_of_def bit_0)

text \<open>
  The JSON reader of the daemon's socket loop and the one of the protocol crate agree on every
  document without integers above \<^verbatim>\<open>i64::MAX\<close>; on such an integer the first yields a float and the
  second wraps it to a negative integer.
\<close>

theorem json_readers_agree:
  assumes "num_as_i64 S n = None" and "num_as_u64 S n = Some u" and "num_as_f64 S n = Some f"
    and "2 ^ 63 \<le> u" and "u < 2 ^ 64"
  shows "(small_ints S j \<longrightarrow> json_to_value S j = from_serde S j) \<and>
    json_to_value S (JNumber n) = VReal f \<and> from_serde S (JNumber n) = VInt (u - 2 ^ 64)"
  using assms json_to_value_from_serde [of S j] by (simp add: as_i64_wraps)

theorem json_readers_agree_witness:
  "json_to_value tiny_serde (JArray [JNull]) = from_serde tiny_serde (JArray [JNull]) \<and>
    json_to_value tiny_serde (JNumber (Inl (2 ^ 63))) = VReal 0 \<and>
    from_serde tiny_serde (JNumber (Inl (2 ^ 63))) = VInt (2 ^ 63 - 2 ^ 64)"
  using json_readers_agree [of tiny_serde "Inl (2 ^ 63)" "2 ^ 63" 0 "JArray [JNull]"]
  by (simp add: tiny_serde_def i64_range_def)

end
