(* ===== verification/Json_Copies.thy ===== *)
theory Json_Copies
  imports Json_Codec
begin

text \<open>
  The program converts between its values and JSON documents in several places, each with functions of its
  own: the client, the companion programs, the trigger files of a root and the configuration command. Here
  is each of them, and the contract they share, from which their agreement follows.
\<close>

section \<open>To JSON\<close>

text \<open>\<^verbatim>\<open>cli.rs\<close>\<close>

fun value_to_serde :: "'n serde \<Rightarrow> wire_value \<Rightarrow> 'n json" where
  "value_to_serde S VNull = JNull"
| "value_to_serde S (VBool b) = JBool b"
| "value_to_serde S (VInt i) = JNumber (num_from_i64 S i)"
| "value_to_serde S (VReal f) = (case num_from_f64 S f of None \<Rightarrow> JNull | Some n \<Rightarrow> JNumber n)"
| "value_to_serde S (VString s) = JString s"
| "value_to_serde S (VBytes b) = JString (from_utf8_lossy (chars_of b))"
| "value_to_serde S (VArray a) = JArray (map (value_to_serde S) a)"
| "value_to_serde S (VObject m) = JObject (im_inserts (map (\<lambda>(k, v). (k, value_to_serde S v)) m) [])"
| "value_to_serde S (VTemplate ks rows) =
     JArray (map (\<lambda>row. JObject (im_inserts (zip ks (map (value_to_serde S) row)) [])) rows)"

text \<open>\<^verbatim>\<open>bin/watchmanctl.rs\<close>\<close>

fun ctl_value_to_serde :: "'n serde \<Rightarrow> wire_value \<Rightarrow> 'n json" where
  "ctl_value_to_serde S VNull = JNull"
| "ctl_value_to_serde S (VBool b) = JBool b"
| "ctl_value_to_serde S (VInt i) = JNumber (num_from_i64 S i)"
| "ctl_value_to_serde S (VReal f) = (case num_from_f64 S f of None \<Rightarrow> JNull | Some n \<Rightarrow> JNumber n)"
| "ctl_value_to_serde S (VString s) = JString s"
| "ctl_value_to_serde S (VBytes b) = JString (from_utf8_lossy (chars_of b))"
| "ctl_value_to_serde S (VArray a) = JArray (map (ctl_value_to_serde S) a)"
| "ctl_value_to_serde S (VObject m) = JObject (im_inserts (map (\<lambda>(k, v). (k, ctl_value_to_serde S v)) m) [])"
| "ctl_value_to_serde S (VTemplate ks rows) =
     JArray (map (\<lambda>row. JObject (im_inserts (zip ks (map (ctl_value_to_serde S) row)) [])) rows)"

text \<open>\<^verbatim>\<open>bin/watchman_diag.rs\<close>\<close>

fun diag_value_to_serde :: "'n serde \<Rightarrow> wire_value \<Rightarrow> 'n json" where
  "diag_value_to_serde S VNull = JNull"
| "diag_value_to_serde S (VBool b) = JBool b"
| "diag_value_to_serde S (VInt i) = JNumber (num_from_i64 S i)"
| "diag_value_to_serde S (VReal f) = (case num_from_f64 S f of None \<Rightarrow> JNull | Some n \<Rightarrow> JNumber n)"
| "diag_value_to_serde S (VString s) = JString s"
| "diag_value_to_serde S (VBytes b) = JString (from_utf8_lossy (chars_of b))"
| "diag_value_to_serde S (VArray a) = JArray (map (diag_value_to_serde S) a)"
| "diag_value_to_serde S (VObject m) = JObject (im_inserts (map (\<lambda>(k, v). (k, diag_value_to_serde S v)) m) [])"
| "diag_value_to_serde S (VTemplate ks rows) =
     JArray (map (\<lambda>row. JObject (im_inserts (zip ks (map (diag_value_to_serde S) row)) [])) rows)"

text \<open>\<^verbatim>\<open>daemon/root.rs\<close>\<close>

fun value_to_json :: "'n serde \<Rightarrow> wire_value \<Rightarrow> 'n json" where
  "value_to_json S VNull = JNull"
| "value_to_json S (VBool b) = JBool b"
| "value_to_json S (VInt i) = JNumber (num_from_i64 S i)"
| "value_to_json S (VReal f) = (case num_from_f64 S f of None \<Rightarrow> JNull | Some n \<Rightarrow> JNumber n)"
| "value_to_json S (VString s) = JString s"
| "value_to_json S (VBytes b) = JString (from_utf8_lossy (chars_of b))"
| "value_to_json S (VArray a) = JArray (map (value_to_json S) a)"
| "value_to_json S (VObject m) = JObject (im_inserts (map (\<lambda>(k, v). (k, value_to_json S v)) m) [])"
| "value_to_json S (VTemplate ks rows) =
     JArray (map (\<lambda>row. JObject (im_inserts (zip ks (map (value_to_json S) row)) [])) rows)"

section \<open>From JSON\<close>

text \<open>\<^verbatim>\<open>cli.rs\<close>\<close>

fun cli_json_to_value :: "'n serde \<Rightarrow> 'n json \<Rightarrow> wire_value" where
  "cli_json_to_value S JNull = VNull"
| "cli_json_to_value S (JBool b) = VBool b"
| "cli_json_to_value S (JNumber n) =
     (case num_as_i64 S n of
        Some i \<Rightarrow> VInt i
      | None \<Rightarrow> (case num_as_f64 S n of Some f \<Rightarrow> VReal f | None \<Rightarrow> VNull))"
| "cli_json_to_value S (JString s) = VString s"
| "cli_json_to_value S (JArray a) = VArray (map (cli_json_to_value S) a)"
| "cli_json_to_value S (JObject m) = VObject (im_inserts (map (\<lambda>(k, v). (k, cli_json_to_value S v)) m) [])"

text \<open>\<^verbatim>\<open>commands/info.rs\<close>\<close>

fun info_json_to_value :: "'n serde \<Rightarrow> 'n json \<Rightarrow> wire_value" where
  "info_json_to_value S JNull = VNull"
| "info_json_to_value S (JBool b) = VBool b"
| "info_json_to_value S (JNumber n) =
     (case num_as_i64 S n of
        Some i \<Rightarrow> VInt i
      | None \<Rightarrow> (case num_as_f64 S n of Some f \<Rightarrow> VReal f | None \<Rightarrow> VNull))"
| "info_json_to_value S (JString s) = VString s"
| "info_json_to_value S (JArray a) = VArray (map (info_json_to_value S) a)"
| "info_json_to_value S (JObject m) = VObject (im_inserts (map (\<lambda>(k, v). (k, info_json_to_value S v)) m) [])"

text \<open>\<^verbatim>\<open>daemon/root.rs\<close>\<close>

fun root_json_to_value :: "'n serde \<Rightarrow> 'n json \<Rightarrow> wire_value" where
  "root_json_to_value S JNull = VNull"
| "root_json_to_value S (JBool b) = VBool b"
| "root_json_to_value S (JNumber n) =
     (case num_as_i64 S n of
        Some i \<Rightarrow> VInt i
      | None \<Rightarrow> (case num_as_f64 S n of Some f \<Rightarrow> VReal f | None \<Rightarrow> VNull))"
| "root_json_to_value S (JString s) = VString s"
| "root_json_to_value S (JArray a) = VArray (map (root_json_to_value S) a)"
| "root_json_to_value S (JObject m) = VObject (im_inserts (map (\<lambda>(k, v). (k, root_json_to_value S v)) m) [])"

section \<open>The shared contract\<close>

locale json_printer =
  fixes S :: "'n serde" and pr :: "wire_value \<Rightarrow> 'n json"
  assumes pr_scalar: "pr VNull = JNull" "pr (VBool b) = JBool b" "pr (VInt i) = JNumber (num_from_i64 S i)"
    "pr (VReal f) = (case num_from_f64 S f of None \<Rightarrow> JNull | Some n \<Rightarrow> JNumber n)"
    "pr (VString s) = JString s" "pr (VBytes bs) = JString (from_utf8_lossy (chars_of bs))"
    and pr_array: "pr (VArray a) = JArray (map pr a)"
    and pr_object: "pr (VObject m) = JObject (im_inserts (map (\<lambda>(k, v). (k, pr v)) m) [])"
    and pr_template: "pr (VTemplate ks rows) = JArray (map (\<lambda>row. JObject (im_inserts (zip ks (map pr row)) [])) rows)"
begin

lemma pr_is_to_serde: "pr v = to_serde S v"
proof (induction v rule: wire_value_induct)
  case (Object m)
  then have "map (\<lambda>(k, v). (k, pr v)) m = map (\<lambda>(k, v). (k, to_serde S v)) m" by auto
  then show ?case by (simp only: pr_object to_serde.simps)
next
  case (Template ks rows)
  then have "map pr r = map (to_serde S) r" if "r \<in> set rows" for r using that by simp
  then show ?case by (simp add: pr_template del: map_eq_conv cong: map_cong)
qed (simp_all add: pr_scalar pr_array)

end

locale json_reader =
  fixes S :: "'n serde" and rd :: "'n json \<Rightarrow> wire_value"
  assumes rd_scalar: "rd JNull = VNull" "rd (JBool b) = VBool b" "rd (JString s) = VString s"
    "rd (JNumber n) = (case num_as_i64 S n of Some i \<Rightarrow> VInt i
       | None \<Rightarrow> (case num_as_f64 S n of Some f \<Rightarrow> VReal f | None \<Rightarrow> VNull))"
    and rd_array: "rd (JArray a) = VArray (map rd a)"
    and rd_object: "rd (JObject m) = VObject (im_inserts (map (\<lambda>(k, v). (k, rd v)) m) [])"
begin

lemma rd_is_json_to_value: "rd j = json_to_value S j"
proof (induction j rule: json_induct)
  case (Object m)
  then have "map (\<lambda>(k, v). (k, rd v)) m = map (\<lambda>(k, v). (k, json_to_value S v)) m" by auto
  then show ?case by (simp only: rd_object json_to_value.simps)
qed (simp_all add: rd_scalar rd_array)

end

interpretation cli_print: json_printer S "value_to_serde S" for S :: "'n serde"
  by unfold_locales simp_all

interpretation ctl_print: json_printer S "ctl_value_to_serde S" for S :: "'n serde"
  by unfold_locales simp_all

interpretation diag_print: json_printer S "diag_value_to_serde S" for S :: "'n serde"
  by unfold_locales simp_all

interpretation root_print: json_printer S "value_to_json S" for S :: "'n serde"
  by unfold_locales simp_all

interpretation cli_read: json_reader S "cli_json_to_value S" for S :: "'n serde"
  by unfold_locales simp_all

interpretation info_read: json_reader S "info_json_to_value S" for S :: "'n serde"
  by unfold_locales simp_all

interpretation root_read: json_reader S "root_json_to_value S" for S :: "'n serde"
  by unfold_locales simp_all

section \<open>Properties\<close>

text \<open>
  The copies agree: every function that turns a value into JSON (in the client, the two control programs
  and the trigger files) gives the document the protocol crate gives, and every function that reads one
  outside the protocol crate gives the value the socket reader gives.
\<close>

theorem json_copies_agree:
  "value_to_serde S v = to_serde S v \<and> ctl_value_to_serde S v = to_serde S v \<and> diag_value_to_serde S v = to_serde S v \<and>
   value_to_json S v = to_serde S v \<and> cli_json_to_value S j = json_to_value S j \<and>
   info_json_to_value S j = json_to_value S j \<and> root_json_to_value S j = json_to_value S j"
  by (simp add: cli_print.pr_is_to_serde ctl_print.pr_is_to_serde diag_print.pr_is_to_serde root_print.pr_is_to_serde
      cli_read.rd_is_json_to_value info_read.rd_is_json_to_value root_read.rd_is_json_to_value)

end
