(* ===== verification/Root_State.thy ===== *)
theory Root_State
  imports Root_Clock File_Tree Json_Copies
begin

text \<open>
  The state of one watched root and its operations (\<^verbatim>\<open>daemon/root.rs\<close>). The broadcast channel is the
  list of the events sent on it; wall-clock time (\<open>now\<close>), the result of a disk crawl and the number of
  bytes the arena has handed out are arguments, because they come from outside the program. The
  locks are not modelled: each operation holds the tree's write lock for its whole effect.
\<close>

section \<open>Data\<close>

record tick_event =
  ev_tick :: nat
  ev_changed :: "path list"

record subscription_spec =
  sub_name :: string
  sub_query :: wire_value

datatype trigger_stdin = NamePerLine | JsonName

record trigger =
  tr_name :: string
  tr_command :: "string list"
  tr_expression :: wire_value
  tr_append_files :: bool
  tr_stdin :: "trigger_stdin option"
  tr_max_files_stdin :: "nat option"

record watch_ignores =
  ig_dirs :: "string list"
  ig_vcs :: "string list"

definition default_ignores :: watch_ignores where
  "default_ignores = \<lparr> ig_dirs = [], ig_vcs = [''.git'', ''.hg'', ''.svn''] \<rparr>"

text \<open>The query a trigger runs on each tick, fenced by a clock string.\<close>

definition trigger_query_spec :: "trigger \<Rightarrow> string \<Rightarrow> wire_value" where
  "trigger_query_spec t since_clock =
     VObject (im_inserts
       [(''expression'', tr_expression t),
        (''fields'', VArray [VString ''name'']),
        (''since'', VString since_clock)] [])"

record root =
  rpath :: path
  rnumber :: nat
  rclock :: clock
  rtree :: tree
  asserted_states :: "string list"
  tick_tx :: "tick_event list"
  state_dir :: "path option"
  ignores :: watch_ignores
  jj_events :: bool
  oldest_available_tick :: nat
  root_number_pool :: nat
  subscriptions :: "(string, subscription_spec) imap"
  triggers :: "(string, trigger) imap"
  cursors :: "(string, nat) imap"
  registered_at :: nat
  last_used :: nat
  missing_ticks :: nat

definition JJ_EVENT_INDEX_MAX_ENTRIES :: nat where "JJ_EVENT_INDEX_MAX_ENTRIES = 65536"
definition JJ_EVENT_INDEX_MAX_ARENA_BYTES :: nat where "JJ_EVENT_INDEX_MAX_ARENA_BYTES = 64 * 1024 * 1024"

datatype path_change =
    Upsert path metadata "string option"
  | Remove path
  | Signal path

type_synonym scan_entry = "path \<times> metadata \<times> string option"

fun change_path :: "path_change \<Rightarrow> path" where
  "change_path (Upsert rel md s) = rel"
| "change_path (Remove rel) = rel"
| "change_path (Signal rel) = rel"

section \<open>Construction and bookkeeping\<close>

definition root_new ::
  "nat \<Rightarrow> nat \<Rightarrow> path \<Rightarrow> nat \<Rightarrow> nat \<Rightarrow> path option \<Rightarrow> watch_ignores \<Rightarrow> bool \<Rightarrow> root" where
  "root_new now pid0 p number pool sdir ig jj =
     \<lparr> rpath = p, rnumber = number, rclock = clock_new now pid0 number, rtree = tree_new,
       asserted_states = [], tick_tx = [], state_dir = sdir, ignores = ig, jj_events = jj,
       oldest_available_tick = 0, root_number_pool = pool, subscriptions = [], triggers = [],
       cursors = [], registered_at = now, last_used = now, missing_ticks = 0 \<rparr>"

definition touch :: "nat \<Rightarrow> root \<Rightarrow> root" where
  "touch now r = r\<lparr>last_used := now\<rparr>"

definition idle_seconds :: "nat \<Rightarrow> root \<Rightarrow> nat" where
  "idle_seconds now r = now - last_used r"

definition mark_missing :: "root \<Rightarrow> nat \<times> root" where
  "mark_missing r = (let n = (missing_ticks r + 1) mod 2 ^ 32 in (n, r\<lparr>missing_ticks := n\<rparr>))"

definition mark_present :: "root \<Rightarrow> root" where
  "mark_present r = r\<lparr>missing_ticks := 0\<rparr>"

definition subscription_count :: "root \<Rightarrow> nat" where
  "subscription_count r = length (subscriptions r)"

definition trigger_count :: "root \<Rightarrow> nat" where
  "trigger_count r = length (triggers r)"

definition bump_clock :: "root \<Rightarrow> nat \<times> root" where
  "bump_clock r = (let (t, c) = bump (rclock r) in (t, r\<lparr>rclock := c\<rparr>))"

definition send_tick :: "nat \<Rightarrow> path list \<Rightarrow> root \<Rightarrow> root" where
  "send_tick t ps r = r\<lparr>tick_tx := tick_tx r @ [\<lparr> ev_tick = t, ev_changed = ps \<rparr>]\<rparr>"

definition clock_string :: "root \<Rightarrow> string" where
  "clock_string r = current_string (rclock r)"

section \<open>Crawls\<close>

fun fill :: "nat \<Rightarrow> scan_entry list \<Rightarrow> tree \<Rightarrow> tree" where
  "fill tick [] t = t"
| "fill tick ((rel, md, s) # es) t = fill tick es (upsert rel md s tick False tick t)"

definition seed :: "scan_entry list \<Rightarrow> root \<Rightarrow> nat \<times> root" where
  "seed es r =
     (let (tick, r') = bump_clock r in (tick, r'\<lparr>rtree := fill tick es tree_new\<rparr>))"

definition promote_to_full :: "scan_entry list \<Rightarrow> root \<Rightarrow> root" where
  "promote_to_full scan r =
     (if \<not> jj_events r then r
      else (let (tick, r') = bump_clock r
            in r'\<lparr>rtree := fill tick scan tree_new, oldest_available_tick := tick, jj_events := False\<rparr>))"

section \<open>Changes\<close>

fun apply_change :: "bool \<Rightarrow> nat \<Rightarrow> path_change \<Rightarrow> tree \<Rightarrow> tree" where
  "apply_change jj tick (Upsert rel md s) t =
     (let (fresh, cc) = (case tree_get t rel of None \<Rightarrow> (True, tick) | Some e \<Rightarrow> (False, cclock e))
      in upsert rel md s tick fresh cc t)"
| "apply_change jj tick (Remove rel) t =
     (if jj then record_gone rel tick t else mark_gone rel tick t)"
| "apply_change jj tick (Signal rel) t = record_signal rel tick t"

definition apply_changes :: "nat \<Rightarrow> path_change list \<Rightarrow> root \<Rightarrow> nat \<times> root" where
  "apply_changes arena_bytes changes r0 =
     (let (tick, r1) = bump_clock r0;
          r2 = (if jj_events r1 \<and>
                   (JJ_EVENT_INDEX_MAX_ENTRIES \<le> tree_len (rtree r1) \<or>
                    JJ_EVENT_INDEX_MAX_ARENA_BYTES \<le> arena_bytes)
                then r1\<lparr>rtree := tree_new, oldest_available_tick := tick\<rparr> else r1);
          r3 = r2\<lparr>rtree := fold (apply_change (jj_events r2) tick) changes (rtree r2)\<rparr>
      in (tick, send_tick tick (map change_path changes) r3))"

definition invalidate_jj_events :: "root \<Rightarrow> bool \<times> root" where
  "invalidate_jj_events r =
     (if \<not> jj_events r then (False, r)
      else (let (tick, r') = bump_clock r
            in (True, send_tick tick [] (r'\<lparr>rtree := tree_new, oldest_available_tick := tick\<rparr>))))"

section \<open>Cursors and tombstones\<close>

definition cursor_tick :: "string \<Rightarrow> root \<Rightarrow> nat" where
  "cursor_tick name r = (case im_get (cursors r) name of None \<Rightarrow> 0 | Some t \<Rightarrow> t)"

definition set_cursor :: "string \<Rightarrow> nat \<Rightarrow> root \<Rightarrow> root" where
  "set_cursor name tick r = r\<lparr>cursors := im_insert name tick (cursors r)\<rparr>"

definition watermark :: "root \<Rightarrow> nat" where
  "watermark r = fold min (map snd (cursors r)) (current_tick (rclock r))"

definition prune_tombstones :: "root \<Rightarrow> (nat \<times> nat) \<times> root" where
  "prune_tombstones r =
     (if jj_events r then ((current_tick (rclock r), 0), r)
      else (let w = watermark r; (removed, t) = prune_tombstones_before w (rtree r)
            in ((w, removed), r\<lparr>rtree := t\<rparr>)))"

section \<open>Subscriptions\<close>

definition add_subscription :: "subscription_spec \<Rightarrow> root \<Rightarrow> root" where
  "add_subscription spec r = r\<lparr>subscriptions := im_insert (sub_name spec) spec (subscriptions r)\<rparr>"

definition remove_subscription :: "string \<Rightarrow> root \<Rightarrow> bool \<times> root" where
  "remove_subscription name r =
     (im_contains name (subscriptions r), r\<lparr>subscriptions := im_remove name (subscriptions r)\<rparr>)"

text \<open>Dropping a root returns its number to the pool it was given.\<close>

definition root_drop :: "root \<Rightarrow> nat" where
  "root_drop r = max (root_number_pool r) (rnumber r)"

section \<open>Triggers and their persistence\<close>

text \<open>
  \<^verbatim>\<open>persisted::PersistedTrigger\<close>; its \<^verbatim>\<open>serde\<close> derive, with the JSON text of the whole list, is the
  parameter \<open>trigger_codec\<close>: \<open>to_vec\<close> may fail, \<open>of_slice\<close> rejects malformed text.
\<close>

record 'n persisted_trigger =
  pt_name :: string
  pt_command :: "string list"
  pt_expression :: "'n json"
  pt_append_files :: bool
  pt_stdin :: "string option"
  pt_max_files_stdin :: "nat option"

definition from_trigger :: "'n serde \<Rightarrow> trigger \<Rightarrow> 'n persisted_trigger" where
  "from_trigger S t =
     \<lparr> pt_name = tr_name t, pt_command = tr_command t,
       pt_expression = value_to_json S (tr_expression t),
       pt_append_files = tr_append_files t,
       pt_stdin = map_option (\<lambda>s. case s of NamePerLine \<Rightarrow> ''NAME_PER_LINE'' | JsonName \<Rightarrow> ''json'') (tr_stdin t),
       pt_max_files_stdin = tr_max_files_stdin t \<rparr>"

definition into_trigger :: "'n serde \<Rightarrow> 'n persisted_trigger \<Rightarrow> trigger" where
  "into_trigger S p =
     \<lparr> tr_name = pt_name p, tr_command = pt_command p,
       tr_expression = root_json_to_value S (pt_expression p),
       tr_append_files = pt_append_files p,
       tr_stdin = (case pt_stdin p of
          None \<Rightarrow> None
        | Some s \<Rightarrow>
            (if s = ''NAME_PER_LINE'' then Some NamePerLine
             else if s = ''json'' \<or> s = ''JSON'' then Some JsonName
             else None)),
       tr_max_files_stdin = pt_max_files_stdin p \<rparr>"

record 'n trigger_codec =
  to_vec :: "'n persisted_trigger list \<Rightarrow> byte list option"
  of_slice :: "byte list \<Rightarrow> 'n persisted_trigger list option"

text \<open>What the file system does for one save: each call may fail.\<close>

record save_env =
  mkdir_ok :: bool
  write_ok :: bool
  rename_ok :: bool

definition slug_char :: "char \<Rightarrow> char" where
  "slug_char c =
     (let n = (of_char c :: nat) in
      if (48 \<le> n \<and> n \<le> 57) \<or> (65 \<le> n \<and> n \<le> 90) \<or> (97 \<le> n \<and> n \<le> 122)
         \<or> c = CHR ''.'' \<or> c = CHR ''-'' \<or> c = CHR ''_''
      then c else CHR ''_'')"

text \<open>\<^verbatim>\<open>chars()\<close> iterates over code points: a continuation byte is not a character of its own.\<close>

definition is_continuation :: "char \<Rightarrow> bool" where
  "is_continuation c = (let n = (of_char c :: nat) in 128 \<le> n \<and> n \<le> 191)"

definition path_slug :: "path \<Rightarrow> string" where
  "path_slug p =
     (let out = map slug_char (filter (\<lambda>c. \<not> is_continuation c) (to_string_lossy p))
      in if out = [] then ''_'' else out)"

definition trigger_persist_dir :: "root \<Rightarrow> path option" where
  "trigger_persist_dir r =
     map_option (\<lambda>d. path_join (path_join d [Normal ''roots'']) (path_of (path_slug (rpath r)))) (state_dir r)"

text \<open>\<open>disk\<close> is the content of \<^verbatim>\<open>triggers.json\<close> in that directory.\<close>

definition persist_triggers ::
  "'n serde \<Rightarrow> 'n trigger_codec \<Rightarrow> save_env \<Rightarrow> root \<Rightarrow> byte list option \<Rightarrow> byte list option" where
  "persist_triggers S C env r disk =
     (case trigger_persist_dir r of
        None \<Rightarrow> disk
      | Some dir \<Rightarrow>
          (if \<not> mkdir_ok env then disk
           else (case to_vec C (map (\<lambda>(k, t). from_trigger S t) (triggers r)) of
                   None \<Rightarrow> disk
                 | Some bytes \<Rightarrow> if write_ok env \<and> rename_ok env then Some bytes else disk)))"

definition load_persisted_triggers ::
  "'n serde \<Rightarrow> 'n trigger_codec \<Rightarrow> byte list option \<Rightarrow> root \<Rightarrow> root" where
  "load_persisted_triggers S C disk r =
     (case trigger_persist_dir r of
        None \<Rightarrow> r
      | Some dir \<Rightarrow>
          (case disk of
             None \<Rightarrow> r
           | Some bytes \<Rightarrow>
               (case of_slice C bytes of
                  None \<Rightarrow> r
                | Some items \<Rightarrow>
                    r\<lparr>triggers := im_inserts
                        (map (\<lambda>pt. let t = into_trigger S pt in (tr_name t, t)) items) (triggers r)\<rparr>)))"

definition install_trigger ::
  "'n serde \<Rightarrow> 'n trigger_codec \<Rightarrow> save_env \<Rightarrow> trigger \<Rightarrow> root \<Rightarrow> byte list option \<Rightarrow> root \<times> byte list option" where
  "install_trigger S C env t r disk =
     (let r' = r\<lparr>triggers := im_insert (tr_name t) t (triggers r)\<rparr>
      in (r', persist_triggers S C env r' disk))"

definition remove_trigger ::
  "'n serde \<Rightarrow> 'n trigger_codec \<Rightarrow> save_env \<Rightarrow> string \<Rightarrow> root \<Rightarrow> byte list option
    \<Rightarrow> bool \<times> root \<times> byte list option" where
  "remove_trigger S C env name r disk =
     (let removed = im_contains name (triggers r);
          r' = r\<lparr>triggers := im_remove name (triggers r)\<rparr>
      in (removed, r', if removed then persist_triggers S C env r' disk else disk))"

definition list_triggers :: "root \<Rightarrow> trigger list" where
  "list_triggers r = map snd (triggers r)"

definition has_trigger :: "string \<Rightarrow> root \<Rightarrow> bool" where
  "has_trigger name r = im_contains name (triggers r)"

end
