(* ===== verification/Root_Inv.thy ===== *)
theory Root_Inv
  imports Root_State
begin

text \<open>
  What the operations of a root keep: the step relation over all of them, the invariant of reachable
  roots, and the properties a \<^verbatim>\<open>since\<close> query rests on. The events on the broadcast channel serve as
  the history of what the watcher reported.
\<close>

section \<open>The operations as a step relation\<close>

definition clock_room :: "root \<Rightarrow> bool" where
  "clock_room r \<longleftrightarrow> ticks (rclock r) < 2 ^ 64 - 1"

text \<open>
  \<open>clock_room\<close>: the 64-bit counter has not reached its last value. A root in event mode is only seeded
  at registration, with no entries, before any event; a query sets a cursor to a tick it has observed.
\<close>

inductive root_step :: "'n serde \<Rightarrow> 'n trigger_codec \<Rightarrow> root \<Rightarrow> root \<Rightarrow> bool"
  for S :: "'n serde" and C :: "'n trigger_codec" where
  st_changes: "clock_room r \<Longrightarrow> root_step S C r (snd (apply_changes arena cs r))"
| st_seed: "clock_room r \<Longrightarrow> (jj_events r \<longrightarrow> es = [] \<and> tick_tx r = []) \<Longrightarrow> root_step S C r (snd (seed es r))"
| st_promote: "clock_room r \<Longrightarrow> root_step S C r (promote_to_full scan r)"
| st_invalidate: "clock_room r \<Longrightarrow> root_step S C r (snd (invalidate_jj_events r))"
| st_bump: "clock_room r \<Longrightarrow> root_step S C r (snd (bump_clock r))"
| st_prune: "root_step S C r (snd (prune_tombstones r))"
| st_cursor: "tick \<le> current_tick (rclock r) \<Longrightarrow> root_step S C r (set_cursor name tick r)"
| st_subscribe: "root_step S C r (add_subscription spec r)"
| st_unsubscribe: "root_step S C r (snd (remove_subscription name r))"
| st_install: "root_step S C r (fst (install_trigger S C env t r disk))"
| st_uninstall: "root_step S C r (fst (snd (remove_trigger S C env name r disk)))"
| st_load: "root_step S C r (load_persisted_triggers S C disk r)"
| st_states: "root_step S C r (r\<lparr>asserted_states := ss\<rparr>)"
| st_touch: "root_step S C r (touch now r)"
| st_missing: "root_step S C r (snd (mark_missing r))"
| st_present: "root_step S C r (mark_present r)"

inductive root_reach :: "'n serde \<Rightarrow> 'n trigger_codec \<Rightarrow> root \<Rightarrow> bool"
  for S :: "'n serde" and C :: "'n trigger_codec" where
  init: "number < 2 ^ 64 \<Longrightarrow> now < 2 ^ 64 \<Longrightarrow> pid0 < 2 ^ 32 \<Longrightarrow>
    root_reach S C (root_new now pid0 p number pool sdir ig jj)"
| step: "root_reach S C r \<Longrightarrow> root_step S C r r' \<Longrightarrow> root_reach S C r'"

section \<open>The invariant\<close>

text \<open>The paths the watcher reported after tick \<open>n\<close>.\<close>

definition touched_since :: "nat \<Rightarrow> root \<Rightarrow> path set" where
  "touched_since n r = {p. \<exists>ev \<in> set (tick_tx r). n < ev_tick ev \<and> p \<in> set (ev_changed ev)}"

definition entries_stamped :: "root \<Rightarrow> bool" where
  "entries_stamped r \<longleftrightarrow>
     (\<forall>p e. tree_get (rtree r) p = Some e \<longrightarrow> cclock e \<le> oclock e \<and> oclock e \<le> ticks (rclock r))"

definition events_ordered :: "root \<Rightarrow> bool" where
  "events_ordered r \<longleftrightarrow>
     sorted_wrt (<) (map ev_tick (tick_tx r)) \<and> (\<forall>ev \<in> set (tick_tx r). ev_tick ev \<le> ticks (rclock r))"

definition events_seen :: "root \<Rightarrow> bool" where
  "events_seen r \<longleftrightarrow>
     (\<forall>ev \<in> set (tick_tx r). \<forall>p \<in> set (ev_changed ev). \<forall>e.
        tree_get (rtree r) p = Some e \<longrightarrow> ev_tick ev \<le> oclock e)"

definition index_complete :: "root \<Rightarrow> bool" where
  "index_complete r \<longleftrightarrow>
     (jj_events r \<longrightarrow> (\<forall>n \<ge> oldest_available_tick r. changed_since n (rtree r) = touched_since n r))"

definition tables_wf :: "root \<Rightarrow> bool" where
  "tables_wf r \<longleftrightarrow>
     im_wf (cursors r) \<and> im_wf (subscriptions r) \<and> im_wf (triggers r) \<and>
     (\<forall>(k, t) \<in> set (triggers r). tr_name t = k) \<and> (\<forall>(k, s) \<in> set (subscriptions r). sub_name s = k)"

definition root_inv :: "root \<Rightarrow> bool" where
  "root_inv r \<longleftrightarrow>
     tree_inv (rtree r) \<and> clock_wf (rclock r) \<and> oldest_available_tick r \<le> ticks (rclock r) \<and>
     (\<forall>c \<in> set (cursors r). snd c \<le> ticks (rclock r)) \<and>
     entries_stamped r \<and> events_ordered r \<and> events_seen r \<and> index_complete r \<and> tables_wf r"

lemmas root_inv_parts = entries_stamped_def events_ordered_def events_seen_def index_complete_def
  touched_since_def

section \<open>Batches\<close>

lemma tree_inv_apply_change: "tree_inv t \<Longrightarrow> tree_inv (apply_change jj k c t)"
  by (cases c) (auto simp: tree_invs Let_def split: option.splits)

lemma tree_inv_changes: "tree_inv t \<Longrightarrow> tree_inv (fold (apply_change jj k) cs t)"
  by (induction cs arbitrary: t) (simp_all add: tree_inv_apply_change)

lemma apply_change_get:
  "tree_get (apply_change jj k c t) p =
    (if p \<noteq> change_path c then tree_get t p
     else tree_get (apply_change jj k c t) p)"
  by (cases c) (auto simp: tree_gets split: option.splits)

text \<open>After a change its path has the tick of the batch, or is unknown and was so before.\<close>

lemma apply_change_stamp:
  assumes "tree_get (apply_change jj k c t) (change_path c) = Some e"
  shows "oclock e = k \<and> (cclock e = k \<or> (\<exists>e'. tree_get t (change_path c) = Some e' \<and> cclock e = cclock e'))"
  using assms
  by (cases c) (auto simp: tree_gets Let_def split: option.splits if_splits)

lemma apply_change_cases:
  assumes "tree_get (apply_change jj k c t) p = Some e"
  obtains "tree_get t p = Some e" "p \<noteq> change_path c"
    | "p = change_path c" "oclock e = k"
      "cclock e = k \<or> (\<exists>e'. tree_get t p = Some e' \<and> cclock e = cclock e')"
  using assms apply_change_get [of jj k c t p] apply_change_stamp [of jj k c t e]
  by (cases "p = change_path c") auto

definition stamped :: "nat \<Rightarrow> tree \<Rightarrow> bool" where
  "stamped k t \<longleftrightarrow> (\<forall>p e. tree_get t p = Some e \<longrightarrow> cclock e \<le> oclock e \<and> oclock e \<le> k)"

lemma stamped_mono: "stamped j t \<Longrightarrow> j \<le> k \<Longrightarrow> stamped k t"
  by (force simp: stamped_def)

lemma stamped_change: "stamped k t \<Longrightarrow> stamped k (apply_change jj k c t)"
  unfolding stamped_def by (auto elim!: apply_change_cases) (meson le_trans)

lemma stamped_changes: "stamped k t \<Longrightarrow> stamped k (fold (apply_change jj k) cs t)"
  by (induction cs arbitrary: t) (simp_all add: stamped_change)

text \<open>Every entry of a batch carries its tick; the other entries are untouched.\<close>

lemma changes_get:
  assumes "tree_get (fold (apply_change jj k) cs t) p = Some e"
  shows "(p \<in> change_path ` set cs \<and> oclock e = k) \<or> (p \<notin> change_path ` set cs \<and> tree_get t p = Some e)"
  using assms
proof (induction cs arbitrary: t)
  case (Cons c cs)
  from Cons.IH [of "apply_change jj k c t"] Cons.prems
  show ?case by (auto elim!: apply_change_cases)
qed simp

lemma changed_since_change:
  "n < k \<Longrightarrow> changed_since n (apply_change True k c t) = insert (change_path c) (changed_since n t)"
  by (cases c) (simp_all add: changed_since_ops split: prod.split)

lemma changed_since_changes:
  "n < k \<Longrightarrow> changed_since n (fold (apply_change True k) cs t) = change_path ` set cs \<union> changed_since n t"
  by (induction cs arbitrary: t) (auto simp: changed_since_change)

lemma changed_since_late: "stamped k t \<Longrightarrow> k \<le> n \<Longrightarrow> changed_since n t = {}"
  by (force simp: changed_since_def stamped_def)

section \<open>Crawls\<close>

lemma fill_tree_inv: "tree_inv t \<Longrightarrow> tree_inv (fill k es t)"
  by (induction k es t rule: fill.induct) (simp_all add: tree_invs)

lemma fill_get:
  assumes "tree_get (fill k es t) p = Some e"
  shows "(oclock e = k \<and> cclock e = k) \<or> tree_get t p = Some e"
  using assms
  by (induction k es t rule: fill.induct) (auto simp: tree_gets split: if_splits)

lemma fill_live: "live_paths (fill k es t) = fst ` set es \<union> live_paths t"
  by (induction k es t rule: fill.induct) auto

lemma tree_get_new [simp]: "tree_get tree_new p = None"
  by (simp add: tree_get_def tree_new_def)

lemma tree_len_new [simp]: "tree_len tree_new = 0"
  by (simp add: tree_len_def tree_new_def)

lemma stamped_new [simp]: "stamped k tree_new"
  by (simp add: stamped_def)

lemma changed_since_new [simp]: "changed_since n tree_new = {}"
  by (simp add: changed_since_def)

lemma stamped_fill: "stamped k (fill k es tree_new)"
  using fill_get [of k es tree_new] by (fastforce simp: stamped_def)

section \<open>Every operation keeps the invariant\<close>

lemma bump_clock_room:
  "clock_room r \<Longrightarrow> bump_clock r
    = (ticks (rclock r) + 1, r\<lparr>rclock := (rclock r)\<lparr>ticks := ticks (rclock r) + 1\<rparr>\<rparr>)"
  using bump_tick [of "rclock r"] by (simp add: bump_clock_def clock_room_def)

text \<open>One tick: a new tree, at most one event, all stamped with the bumped clock.\<close>

lemma root_inv_tick:
  assumes inv: "root_inv r" and room: "clock_room r" and k: "k = ticks (rclock r) + 1"
    and t: "tree_inv t" "stamped k t"
      "\<And>p e. tree_get t p = Some e \<Longrightarrow>
        oclock e = k \<or> (tree_get (rtree r) p = Some e \<and> (\<forall>ev \<in> set evs. p \<notin> set (ev_changed ev)))"
    and evs: "evs = [] \<or> (\<exists>ps. evs = [\<lparr> ev_tick = k, ev_changed = ps \<rparr>])"
    and old: "old \<le> k"
    and comp: "\<And>n. jj \<Longrightarrow> old \<le> n \<Longrightarrow> changed_since n t = touched_since n (r\<lparr>tick_tx := tick_tx r @ evs\<rparr>)"
  shows "root_inv (r\<lparr>rclock := (rclock r)\<lparr>ticks := k\<rparr>, rtree := t, tick_tx := tick_tx r @ evs,
    oldest_available_tick := old, jj_events := jj\<rparr>)" (is "root_inv ?r")
proof -
  have evk: "\<forall>ev \<in> set evs. ev_tick ev = k" "sorted_wrt (<) (map ev_tick evs)" using evs by auto
  have le: "\<forall>ev \<in> set (tick_tx r). ev_tick ev \<le> ticks (rclock r)"
    using inv by (simp add: root_inv_def events_ordered_def)
  have "entries_stamped ?r" using t(2) by (simp add: entries_stamped_def stamped_def)
  moreover have "events_ordered ?r"
    using inv evk le k by (fastforce simp: root_inv_def events_ordered_def sorted_wrt_append)
  moreover have "events_seen ?r"
    using inv evk le k t(3) unfolding events_seen_def root_inv_def
    by (simp; metis Un_iff le_add1 le_trans order_refl)
  moreover have "index_complete ?r"
    using comp by (simp add: index_complete_def touched_since_def)
  moreover have "clock_wf ((rclock r)\<lparr>ticks := k\<rparr>)"
    using inv room k by (simp add: root_inv_def clock_wf_def clock_room_def)
  moreover have "\<forall>c \<in> set (cursors r). snd c \<le> k" using inv k by (auto simp: root_inv_def)
  ultimately show ?thesis
    using inv t(1) old by (simp add: root_inv_def tables_wf_def)
qed

lemma root_stamped: "root_inv r \<Longrightarrow> stamped (ticks (rclock r)) (rtree r)"
  by (simp add: root_inv_def entries_stamped_def stamped_def)

lemma touched_append:
  "touched_since n (r\<lparr>tick_tx := tick_tx r @ evs\<rparr>)
    = touched_since n r \<union> {p. \<exists>ev \<in> set evs. n < ev_tick ev \<and> p \<in> set (ev_changed ev)}"
  by (auto simp: touched_since_def)

lemma touched_late: "root_inv r \<Longrightarrow> ticks (rclock r) \<le> n \<Longrightarrow> touched_since n r = {}"
  by (force simp: root_inv_def events_ordered_def touched_since_def)

lemma root_inv_bump:
  assumes "root_inv r" "clock_room r"
  shows "root_inv (snd (bump_clock r))"
proof -
  have "clock_wf ((rclock r)\<lparr>ticks := ticks (rclock r) + 1\<rparr>)"
    using assms by (simp add: root_inv_def clock_wf_def clock_room_def)
  then show ?thesis
    using assms(1) unfolding bump_clock_room [OF assms(2)] root_inv_def root_inv_parts tables_wf_def
    by (fastforce intro: le_SucI)
qed

lemma root_inv_seed:
  assumes "root_inv r" "clock_room r" "jj_events r \<longrightarrow> es = [] \<and> tick_tx r = []"
  shows "root_inv (snd (seed es r))"
proof -
  let ?k = "ticks (rclock r) + 1"
  have "root_inv (r\<lparr>rclock := (rclock r)\<lparr>ticks := ?k\<rparr>, rtree := fill ?k es tree_new, tick_tx := tick_tx r @ [],
      oldest_available_tick := oldest_available_tick r, jj_events := jj_events r\<rparr>)"
  proof (rule root_inv_tick [OF assms(1,2) refl])
    show "oldest_available_tick r \<le> ?k" using assms(1) by (simp add: root_inv_def)
    show "changed_since n (fill ?k es tree_new) = touched_since n (r\<lparr>tick_tx := tick_tx r @ []\<rparr>)"
      if "jj_events r" for n
      using that assms(3) by (simp add: touched_since_def)
  qed (use fill_get [of ?k es tree_new] in \<open>auto simp: fill_tree_inv tree_invs stamped_fill\<close>)
  then show ?thesis using assms(2) by (simp add: seed_def bump_clock_room)
qed

lemma root_inv_promote:
  assumes "root_inv r" "clock_room r"
  shows "root_inv (promote_to_full scan r)"
proof (cases "jj_events r")
  case True
  let ?k = "ticks (rclock r) + 1"
  have "root_inv (r\<lparr>rclock := (rclock r)\<lparr>ticks := ?k\<rparr>, rtree := fill ?k scan tree_new, tick_tx := tick_tx r @ [],
      oldest_available_tick := ?k, jj_events := False\<rparr>)"
    by (rule root_inv_tick [OF assms refl])
      (use fill_get [of ?k scan tree_new] in \<open>auto simp: fill_tree_inv tree_invs stamped_fill\<close>)
  then show ?thesis using True assms(2) by (simp add: promote_to_full_def bump_clock_room)
qed (use assms in \<open>simp add: promote_to_full_def\<close>)

lemma root_inv_invalidate:
  assumes "root_inv r" "clock_room r"
  shows "root_inv (snd (invalidate_jj_events r))"
proof (cases "jj_events r")
  case True
  let ?k = "ticks (rclock r) + 1" and ?ev = "[\<lparr> ev_tick = ticks (rclock r) + 1, ev_changed = [] \<rparr>]"
  have "root_inv (r\<lparr>rclock := (rclock r)\<lparr>ticks := ?k\<rparr>, rtree := tree_new, tick_tx := tick_tx r @ ?ev,
      oldest_available_tick := ?k, jj_events := jj_events r\<rparr>)"
    by (rule root_inv_tick [OF assms refl])
      (use touched_late [OF assms(1)] in \<open>auto simp: tree_invs touched_append\<close>)
  moreover have "snd (invalidate_jj_events r) = r\<lparr>rclock := (rclock r)\<lparr>ticks := ?k\<rparr>, rtree := tree_new,
      tick_tx := tick_tx r @ ?ev, oldest_available_tick := ?k, jj_events := jj_events r\<rparr>"
    using True assms(2)
    by (intro root.equality) (simp_all add: invalidate_jj_events_def bump_clock_room send_tick_def)
  ultimately show ?thesis by simp
qed (use assms in \<open>simp add: invalidate_jj_events_def\<close>)

text \<open>The tree a batch starts from: the event index is emptied when it is full.\<close>

definition batch_base :: "nat \<Rightarrow> root \<Rightarrow> tree \<times> nat" where
  "batch_base arena r =
     (if jj_events r \<and> (JJ_EVENT_INDEX_MAX_ENTRIES \<le> tree_len (rtree r) \<or> JJ_EVENT_INDEX_MAX_ARENA_BYTES \<le> arena)
      then (tree_new, ticks (rclock r) + 1) else (rtree r, oldest_available_tick r))"

lemma apply_changes_eq:
  assumes "clock_room r"
  shows "apply_changes arena cs r = (let k = ticks (rclock r) + 1; (t, old) = batch_base arena r in
    (k, r\<lparr>rclock := (rclock r)\<lparr>ticks := k\<rparr>, rtree := fold (apply_change (jj_events r) k) cs t,
      tick_tx := tick_tx r @ [\<lparr> ev_tick = k, ev_changed = map change_path cs \<rparr>],
      oldest_available_tick := old, jj_events := jj_events r\<rparr>))"
  using assms
  by (auto simp: apply_changes_def bump_clock_room batch_base_def send_tick_def Let_def intro!: root.equality)

lemma root_inv_changes:
  assumes "root_inv r" "clock_room r"
  shows "root_inv (snd (apply_changes arena cs r))"
proof -
  let ?k = "ticks (rclock r) + 1"
  obtain t old where b: "batch_base arena r = (t, old)" by (cases "batch_base arena r")
  have t: "tree_inv t" "stamped ?k t" "old \<le> ?k"
    using assms b root_stamped [OF assms(1)]
    by (auto simp: batch_base_def root_inv_def tree_invs intro: stamped_mono split: if_splits)
  have sub: "tree_get t p = Some e \<Longrightarrow> tree_get (rtree r) p = Some e" for p e
    using b by (auto simp: batch_base_def split: if_splits)
  let ?t = "fold (apply_change (jj_events r) ?k) cs t"
  let ?ev = "[\<lparr> ev_tick = ?k, ev_changed = map change_path cs \<rparr>]"
  have comp: "changed_since n ?t = touched_since n (r\<lparr>tick_tx := tick_tx r @ ?ev\<rparr>)"
    if jj: "jj_events r" and n: "old \<le> n" for n
  proof (cases "n < ?k")
    case True
    then have "t = rtree r" "old = oldest_available_tick r"
      using b n by (auto simp: batch_base_def split: if_splits)
    then have "changed_since n t = touched_since n r"
      using assms(1) jj n by (simp add: root_inv_def index_complete_def)
    with True jj show ?thesis by (auto simp: changed_since_changes touched_append)
  next
    case False
    then show ?thesis
      using touched_late [OF assms(1), of n] changed_since_late [OF stamped_changes [OF t(2)], of n]
      by (simp add: touched_append)
  qed
  have "root_inv (r\<lparr>rclock := (rclock r)\<lparr>ticks := ?k\<rparr>, rtree := ?t, tick_tx := tick_tx r @ ?ev,
      oldest_available_tick := old, jj_events := jj_events r\<rparr>)"
    by (rule root_inv_tick [OF assms refl])
      (use t comp sub in \<open>auto simp: tree_inv_changes stamped_changes dest!: changes_get\<close>)
  then show ?thesis using assms(2) b by (simp add: apply_changes_eq)
qed

lemma prune_cases:
  "snd (prune_tombstones r) = (if jj_events r then r
    else r\<lparr>rtree := snd (prune_tombstones_before (watermark r) (rtree r))\<rparr>)"
  by (simp add: prune_tombstones_def Let_def case_prod_beta)

lemma root_inv_prune:
  assumes "root_inv r"
  shows "root_inv (snd (prune_tombstones r))"
proof (cases "jj_events r")
  case False
  let ?t = "snd (prune_tombstones_before (watermark r) (rtree r))"
  have ti: "tree_inv (rtree r)" using assms by (simp add: root_inv_def)
  have sub: "tree_get (rtree r) p = Some e" if "tree_get ?t p = Some e" for p e
    using that ti by (auto simp: tree_get_prune split: option.splits if_splits)
  have "entries_stamped (r\<lparr>rtree := ?t\<rparr>)" "events_seen (r\<lparr>rtree := ?t\<rparr>)"
    using assms by (auto simp: root_inv_def entries_stamped_def events_seen_def dest!: sub)
  then have "root_inv (r\<lparr>rtree := ?t\<rparr>)"
    using assms False ti
    by (simp add: root_inv_def events_ordered_def index_complete_def tables_wf_def tree_inv_prune)
  then show ?thesis using False by (simp add: prune_cases)
qed (use assms in \<open>simp add: prune_cases\<close>)

lemma im_set_insert: "x \<in> set (im_insert k v m) \<Longrightarrow> x = (k, v) \<or> x \<in> set m"
  by (induction k v m rule: im_insert.induct) (auto split: if_splits)

lemma im_set_inserts: "x \<in> set (im_inserts kvs m) \<Longrightarrow> x \<in> set kvs \<or> x \<in> set m"
  by (induction kvs m rule: im_inserts.induct) (auto dest: im_set_insert)

lemma root_inv_tables:
  assumes "root_inv r" and "rclock r' = rclock r" "rtree r' = rtree r" "tick_tx r' = tick_tx r"
    "oldest_available_tick r' = oldest_available_tick r" "jj_events r' = jj_events r"
    and "tables_wf r'" and "\<forall>c \<in> set (cursors r'). snd c \<le> ticks (rclock r)"
  shows "root_inv r'"
  using assms
  by (simp add: root_inv_def entries_stamped_def events_ordered_def events_seen_def index_complete_def
      touched_since_def)

lemma root_inv_frame [simp]:
  "root_inv (r\<lparr>last_used := x\<rparr>) = root_inv r"
  "root_inv (r\<lparr>missing_ticks := x\<rparr>) = root_inv r"
  "root_inv (r\<lparr>asserted_states := ss\<rparr>) = root_inv r"
  by (simp_all add: root_inv_def entries_stamped_def events_ordered_def events_seen_def index_complete_def
      touched_since_def tables_wf_def)

lemma tables_cursor: "tables_wf r \<Longrightarrow> tables_wf (set_cursor name k r)"
  by (auto simp: tables_wf_def set_cursor_def)

lemma tables_add_subscription: "tables_wf r \<Longrightarrow> tables_wf (add_subscription spec r)"
  by (auto simp: tables_wf_def add_subscription_def dest!: im_set_insert)

lemma tables_remove_subscription: "tables_wf r \<Longrightarrow> tables_wf (snd (remove_subscription name r))"
  by (auto simp: tables_wf_def remove_subscription_def im_remove_def im_wf_filter)

lemma tables_install: "tables_wf r \<Longrightarrow> tables_wf (fst (install_trigger S C env t r disk))"
  by (auto simp: tables_wf_def install_trigger_def Let_def dest!: im_set_insert)

lemma tables_uninstall: "tables_wf r \<Longrightarrow> tables_wf (fst (snd (remove_trigger S C env name r disk)))"
  by (auto simp: tables_wf_def remove_trigger_def im_remove_def im_wf_filter Let_def)

lemma tables_load: "tables_wf r \<Longrightarrow> tables_wf (load_persisted_triggers S C disk r)"
  by (auto simp: tables_wf_def load_persisted_triggers_def Let_def im_wf_inserts dest!: im_set_inserts
      split: option.splits)

lemmas tables_ops = tables_cursor tables_add_subscription tables_remove_subscription tables_install
  tables_uninstall tables_load

lemma load_frame [simp]:
  "rclock (load_persisted_triggers S C disk r) = rclock r"
  "rtree (load_persisted_triggers S C disk r) = rtree r"
  "tick_tx (load_persisted_triggers S C disk r) = tick_tx r"
  "oldest_available_tick (load_persisted_triggers S C disk r) = oldest_available_tick r"
  "jj_events (load_persisted_triggers S C disk r) = jj_events r"
  "cursors (load_persisted_triggers S C disk r) = cursors r"
  by (auto simp: load_persisted_triggers_def Let_def split: option.splits)

lemma root_inv_step:
  assumes "root_step S C r r'" and inv: "root_inv r"
  shows "root_inv r'"
proof -
  have t: "tables_wf r" and c: "\<forall>c \<in> set (cursors r). snd c \<le> ticks (rclock r)"
    using inv by (simp_all add: root_inv_def)
  show ?thesis using assms(1)
  proof cases
    case (st_cursor tick name)
    then show ?thesis
      using t c by (intro root_inv_tables [OF inv]) (auto simp: tables_ops set_cursor_def tables_cursor [unfolded set_cursor_def] dest!: im_set_insert)
  next
    case (st_subscribe spec)
    then show ?thesis
      using t c tables_add_subscription [OF t, of spec]
      by (intro root_inv_tables [OF inv]) (auto simp: add_subscription_def)
  next
    case (st_unsubscribe name)
    then show ?thesis
      using t c tables_remove_subscription [OF t, of name]
      by (intro root_inv_tables [OF inv]) (auto simp: remove_subscription_def)
  next
    case (st_install env t' disk)
    then show ?thesis
      using c tables_install [OF t, of S C env t' disk]
      by (intro root_inv_tables [OF inv]) (auto simp: install_trigger_def Let_def)
  next
    case (st_uninstall env name disk)
    then show ?thesis
      using c tables_uninstall [OF t, of S C env name disk]
      by (intro root_inv_tables [OF inv]) (auto simp: remove_trigger_def Let_def)
  next
    case (st_load disk)
    then show ?thesis
      using c tables_load [OF t] by (intro root_inv_tables [OF inv]) auto
  qed (use inv in \<open>auto simp: root_inv_changes root_inv_seed root_inv_promote root_inv_invalidate root_inv_bump
      root_inv_prune touch_def mark_missing_def mark_present_def Let_def\<close>)
qed

lemma root_inv_new:
  "number < 2 ^ 64 \<Longrightarrow> now < 2 ^ 64 \<Longrightarrow> pid0 < 2 ^ 32 \<Longrightarrow> root_inv (root_new now pid0 p number pool sdir ig jj)"
  by (simp add: root_inv_def root_new_def clock_new_def clock_wf_def tree_invs entries_stamped_def
      events_ordered_def events_seen_def index_complete_def touched_since_def tables_wf_def)

lemma root_reach_inv: "root_reach S C r \<Longrightarrow> root_inv r"
  by (induction rule: root_reach.induct) (auto simp: root_inv_new intro: root_inv_step)

section \<open>Watermark\<close>

lemma fold_min_start: "fold min xs (b :: nat) \<le> b"
proof (induction xs arbitrary: b)
  case (Cons y ys)
  from Cons [of "min y b"] show ?case by simp
qed simp

lemma fold_min_elem: "x \<in> set xs \<Longrightarrow> fold min xs (b :: nat) \<le> x"
proof (induction xs arbitrary: b)
  case (Cons y ys)
  then show ?case using fold_min_start [of ys "min y b"] by auto
qed simp

lemma watermark_cursor: "(name, k) \<in> set (cursors r) \<Longrightarrow> watermark r \<le> k"
  unfolding watermark_def by (rule fold_min_elem) force

lemma watermark_tick: "watermark r \<le> current_tick (rclock r)"
  unfolding watermark_def by (rule fold_min_start)

section \<open>Properties\<close>

text \<open>Instances of the parameters for the witnesses.\<close>

definition no_codec :: "'n trigger_codec" where
  "no_codec = \<lparr> to_vec = (\<lambda>_. None), of_slice = (\<lambda>_. None) \<rparr>"

definition sample_md :: metadata where
  "sample_md = \<lparr> md_type = FtFile, md_len = 10, md_mode = 420, md_uid = 0, md_gid = 0, md_ino = 7, md_dev = 1,
     md_nlink = 1, md_modified = Some 1000000, md_created = None \<rparr>"

definition sample_root :: "bool \<Rightarrow> root" where
  "sample_root jj = root_new 1700000000 42 [RootDir, Normal ''w''] 1 1 None default_ignores jj"

definition sample_file :: path where
  "sample_file = [Normal ''a.txt'']"

lemma sample_root_reach: "root_reach S C (sample_root jj)"
  unfolding sample_root_def by (rule root_reach.init) simp_all

lemma sample_root_fields [simp]:
  "ticks (rclock (sample_root jj)) = 1" "rtree (sample_root jj) = tree_new" "tick_tx (sample_root jj) = []"
  "cursors (sample_root jj) = []" "jj_events (sample_root jj) = jj" "oldest_available_tick (sample_root jj) = 0"
  by (simp_all add: sample_root_def root_new_def clock_new_def)

lemma sample_root_room [simp]: "clock_room (sample_root jj)"
  by (simp add: clock_room_def sample_root_def root_new_def clock_new_def)

definition sample_events :: root where
  "sample_events = snd (apply_changes 0 [Upsert sample_file sample_md None] (sample_root True))"

lemma sample_events_reach: "root_reach S C sample_events"
  unfolding sample_events_def
  by (rule root_reach.step [OF sample_root_reach]) (rule root_step.st_changes, simp)

lemma sample_events_facts:
  "jj_events sample_events" "oldest_available_tick sample_events = 0"
  "tick_tx sample_events = [\<lparr> ev_tick = 2, ev_changed = [sample_file] \<rparr>]"
  "sample_file \<in> live_paths (rtree sample_events)"
  by (simp_all add: sample_events_def apply_changes_eq batch_base_def Let_def sample_root_def root_new_def
      JJ_EVENT_INDEX_MAX_ENTRIES_def JJ_EVENT_INDEX_MAX_ARENA_BYTES_def clock_new_def clock_room_def)

text \<open>
  C2. The event index of a jj root is complete and exact: for every tick from the oldest one it can
  still answer, the paths the index says changed are precisely the paths the watcher reported since,
  deletions included, whatever sequence of batches, overflows, invalidations and garbage collections
  led there.
\<close>

theorem jj_index_complete:
  assumes "root_reach S C r" and "jj_events r" and "oldest_available_tick r \<le> n"
  shows "changed_since n (rtree r) = touched_since n r"
  using root_reach_inv [OF assms(1)] assms(2,3) by (simp add: root_inv_def index_complete_def)

theorem jj_index_complete_witness:
  "changed_since 1 (rtree sample_events) = touched_since 1 sample_events"
  by (rule jj_index_complete [OF sample_events_reach [of tiny_serde no_codec]])
    (simp_all add: sample_events_facts)

text \<open>
  In either mode no change of a file that still exists is missed: a path the watcher reported
  after tick \<open>n\<close> and that exists in the index is among the paths changed since \<open>n\<close>, also after crawls,
  promotions and pruning.
\<close>

theorem existing_changes_not_missed:
  assumes "root_reach S C r" and "p \<in> touched_since n r" and "p \<in> live_paths (rtree r)"
  shows "p \<in> changed_since n (rtree r)"
  using root_reach_inv [OF assms(1)] assms(2,3)
  by (fastforce simp: root_inv_def events_seen_def touched_since_def live_paths_def changed_since_def)

theorem existing_changes_not_missed_witness:
  "sample_file \<in> changed_since 1 (rtree sample_events)"
  by (rule existing_changes_not_missed [OF sample_events_reach [of tiny_serde no_codec]])
    (simp_all add: sample_events_facts touched_since_def)

text \<open>
  C6. Garbage collection honours every named cursor: after pruning, the query of each registered
  cursor sees the changes it saw before, and no existing file is forgotten.
\<close>

theorem prune_honours_cursors:
  assumes "root_reach S C r" and "im_get (cursors r) name = Some k"
  shows "changed_since (cursor_tick name (snd (prune_tombstones r))) (rtree (snd (prune_tombstones r)))
      = changed_since k (rtree r) \<and>
    live_paths (rtree (snd (prune_tombstones r))) = live_paths (rtree r)"
proof -
  have "tree_inv (rtree r)" using root_reach_inv [OF assms(1)] by (simp add: root_inv_def)
  moreover have "watermark r \<le> k" using map_of_SomeD [OF assms(2)] by (rule watermark_cursor)
  ultimately show ?thesis
    using assms(2) by (simp add: prune_cases cursor_tick_def changed_since_prune)
qed

definition sample_cursor :: root where
  "sample_cursor = set_cursor ''c'' 1 (sample_root False)"

lemma sample_cursor_reach: "root_reach S C sample_cursor"
  unfolding sample_cursor_def
  by (rule root_reach.step [OF sample_root_reach]) (rule root_step.st_cursor,
      simp add: sample_root_def root_new_def clock_new_def)

theorem prune_honours_cursors_witness:
  "changed_since (cursor_tick ''c'' (snd (prune_tombstones sample_cursor)))
      (rtree (snd (prune_tombstones sample_cursor))) = changed_since 1 (rtree sample_cursor) \<and>
    live_paths (rtree (snd (prune_tombstones sample_cursor))) = live_paths (rtree sample_cursor)"
  by (rule prune_honours_cursors [OF sample_cursor_reach [of tiny_serde no_codec]])
    (simp add: sample_cursor_def set_cursor_def sample_root_def root_new_def)

definition sample_gone :: root where
  "sample_gone = snd (apply_changes 0 [Remove sample_file]
     (snd (seed [(sample_file, sample_md, None)] (sample_root False))))"

lemma seed_eq:
  "clock_room r \<Longrightarrow> seed es r = (ticks (rclock r) + 1,
    r\<lparr>rclock := (rclock r)\<lparr>ticks := ticks (rclock r) + 1\<rparr>, rtree := fill (ticks (rclock r) + 1) es tree_new\<rparr>)"
  by (simp add: seed_def bump_clock_room)

lemma sample_gone_reach: "root_reach S C sample_gone"
proof -
  have "root_reach S C (snd (seed [(sample_file, sample_md, None)] (sample_root False)))"
    by (rule root_reach.step [OF sample_root_reach]) (rule root_step.st_seed, simp_all)
  moreover have "clock_room (snd (seed [(sample_file, sample_md, None)] (sample_root False)))"
    by (simp add: seed_eq) (simp add: clock_room_def)
  ultimately show ?thesis
    unfolding sample_gone_def by (blast intro: root_reach.step root_step.st_changes)
qed

lemma sample_gone_tree:
  "rtree sample_gone = mark_gone sample_file 3 (upsert sample_file sample_md None 2 False 2 tree_new)"
  "tick_tx sample_gone = [\<lparr> ev_tick = 3, ev_changed = [sample_file] \<rparr>]"
  "ticks (rclock sample_gone) = 3" "cursors sample_gone = []" "\<not> jj_events sample_gone"
  "oldest_available_tick sample_gone = 0"
proof -
  have room: "clock_room (snd (seed [(sample_file, sample_md, None)] (sample_root False)))"
    by (simp add: seed_eq) (simp add: clock_room_def)
  show "rtree sample_gone = mark_gone sample_file 3 (upsert sample_file sample_md None 2 False 2 tree_new)"
    "tick_tx sample_gone = [\<lparr> ev_tick = 3, ev_changed = [sample_file] \<rparr>]"
    "ticks (rclock sample_gone) = 3" "cursors sample_gone = []" "\<not> jj_events sample_gone"
    "oldest_available_tick sample_gone = 0"
    unfolding sample_gone_def apply_changes_eq [OF room]
    by (simp_all add: seed_eq batch_base_def Let_def eval_nat_numeral)
qed


end
