(* ===== verification/Query_Expr.thy ===== *)
theory Query_Expr
  imports Root_Inv
begin

text \<open>
  Query expressions (\<^verbatim>\<open>query/expr.rs\<close>): the parser from wire values and the evaluator. Globs and regular
  expressions are compiled and matched by the crates \<^verbatim>\<open>globset\<close> and \<^verbatim>\<open>regex\<close>, which are the first fields
  of the parameter \<open>query_env\<close> (a compile error carries its message); the other fields stand for the
  debug rendering of a value, the content of files, the SHA-1 crate and the version-control commands.
\<close>

section \<open>Errors and environment\<close>

datatype command_error =
    UnknownCommand string
  | BadArgs string
  | UnknownRoot string
  | NotImplemented string
  | Internal string

record ('g, 'x) query_env =
  glob_new :: "string \<Rightarrow> bool \<Rightarrow> bool \<Rightarrow> string + 'g"
  glob_is_match :: "'g \<Rightarrow> path \<Rightarrow> bool"
  regex_new :: "string \<Rightarrow> bool \<Rightarrow> string + 'x"
  regex_is_match :: "'x \<Rightarrow> string \<Rightarrow> bool"
  value_debug :: "wire_value \<Rightarrow> string"
  read_file :: "path \<Rightarrow> byte list option"
  sha1_digest :: "byte list \<Rightarrow> byte list"
  scm_changed_paths :: "path \<Rightarrow> scm_vcs \<Rightarrow> string \<Rightarrow> path set option"

section \<open>Expressions\<close>

datatype match_scope = Basename | Wholename

datatype cmp_op = CmpEq | CmpNe | CmpLt | CmpLe | CmpGt | CmpGe

datatype ('g, 'x) expr =
    ETrue
  | EFalse
  | EAllOf "('g, 'x) expr list"
  | EAnyOf "('g, 'x) expr list"
  | ENot "('g, 'x) expr"
  | EName "string list" match_scope bool
  | EMatch 'g match_scope
  | EPcre 'x match_scope
  | ESuffix "string list"
  | EType file_kind
  | ESize cmp_op nat
  | EExists
  | EEmpty
  | ESince clock_spec
  | EDirname string bool

definition cmp_parse :: "string \<Rightarrow> cmp_op option" where
  "cmp_parse s =
     (if s = ''eq'' then Some CmpEq else if s = ''ne'' then Some CmpNe
      else if s = ''lt'' then Some CmpLt else if s = ''le'' then Some CmpLe
      else if s = ''gt'' then Some CmpGt else if s = ''ge'' then Some CmpGe else None)"

fun cmp_apply :: "cmp_op \<Rightarrow> nat \<Rightarrow> nat \<Rightarrow> bool" where
  "cmp_apply CmpEq a b = (a = b)"
| "cmp_apply CmpNe a b = (a \<noteq> b)"
| "cmp_apply CmpLt a b = (a < b)"
| "cmp_apply CmpLe a b = (a \<le> b)"
| "cmp_apply CmpGt a b = (b < a)"
| "cmp_apply CmpGe a b = (b \<le> a)"

section \<open>Parsing\<close>

definition first_str :: "wire_value list \<Rightarrow> string option" where
  "first_str vs = (case vs of [] \<Rightarrow> None | v # _ \<Rightarrow> as_str v)"

definition second :: "wire_value list \<Rightarrow> wire_value option" where
  "second vs = (case vs of _ # v # _ \<Rightarrow> Some v | _ \<Rightarrow> None)"

definition parse_scope :: "string \<Rightarrow> command_error + match_scope" where
  "parse_scope s =
     (if s = ''basename'' then Inr Basename
      else if s = ''wholename'' then Inr Wholename
      else Inl (BadArgs (''unknown scope `'' @ s @ ''` (use basename or wholename)'')))"

text \<open>The optional second operand: only a string selects a scope.\<close>

definition scope_arg :: "wire_value list \<Rightarrow> command_error + match_scope" where
  "scope_arg rest =
     (case Option.bind (second rest) as_str of None \<Rightarrow> Inr Basename | Some s \<Rightarrow> parse_scope s)"

fun flatten_strings :: "wire_value list \<Rightarrow> command_error + string list" where
  "flatten_strings [] = Inr []"
| "flatten_strings (VString s # vs) = sbind (flatten_strings vs) (\<lambda>r. Inr (s # r))"
| "flatten_strings (VArray inner # vs) =
     sbind (flatten_strings vs) (\<lambda>r. Inr (List.map_filter as_str inner @ r))"
| "flatten_strings (_ # vs) = Inl (BadArgs ''expected string or array'')"

definition parse_name_args :: "wire_value list \<Rightarrow> command_error + (string list \<times> match_scope)" where
  "parse_name_args rest =
     (case rest of
        [] \<Rightarrow> Inl (BadArgs ''`name` requires at least a name'')
      | first # _ \<Rightarrow>
          sbind (flatten_strings [first]) (\<lambda>names.
          sbind (scope_arg rest) (\<lambda>scope. Inr (names, scope))))"

definition parse_type :: "string \<Rightarrow> command_error + file_kind" where
  "parse_type t =
     (if t = ''f'' then Inr KFile else if t = ''d'' then Inr KDir else if t = ''l'' then Inr KSymlink
      else if t = ''b'' then Inr KBlock else if t = ''c'' then Inr KChar else if t = ''p'' then Inr KFifo
      else if t = ''s'' then Inr KSocket
      else Inl (BadArgs (''unknown type `'' @ t @ ''`'')))"

text \<open>The operators without sub-expressions.\<close>

definition parse_leaf ::
  "('g, 'x) query_env \<Rightarrow> string \<Rightarrow> wire_value list \<Rightarrow> command_error + ('g, 'x) expr" where
  "parse_leaf E head rest =
     (if head = ''true'' then Inr ETrue
      else if head = ''false'' then Inr EFalse
      else if head = ''exists'' then Inr EExists
      else if head = ''empty'' then Inr EEmpty
      else if head = ''name'' \<or> head = ''iname'' then
        sbind (parse_name_args rest) (\<lambda>(names, scope). Inr (EName names scope (head = ''name'')))
      else if head = ''match'' \<or> head = ''imatch'' then
        sbind (ok_or (BadArgs ''`match` requires a pattern'') (first_str rest)) (\<lambda>pattern.
        sbind (scope_arg rest) (\<lambda>scope.
          (case glob_new E pattern (head = ''imatch'') (scope = Wholename) of
             Inl e \<Rightarrow> Inl (BadArgs (''bad match pattern: '' @ e))
           | Inr g \<Rightarrow> Inr (EMatch g scope))))
      else if head = ''pcre'' \<or> head = ''ipcre'' then
        sbind (ok_or (BadArgs ''`pcre` requires a pattern'') (first_str rest)) (\<lambda>pattern.
        sbind (scope_arg rest) (\<lambda>scope.
          (case regex_new E pattern (head = ''ipcre'') of
             Inl e \<Rightarrow> Inl (BadArgs (''bad pcre pattern: '' @ e))
           | Inr x \<Rightarrow> Inr (EPcre x scope))))
      else if head = ''suffix'' then
        sbind (flatten_strings rest) (\<lambda>l. Inr (ESuffix (map to_ascii_lowercase l)))
      else if head = ''type'' then
        sbind (ok_or (BadArgs ''`type` requires a kind'') (first_str rest)) (\<lambda>t.
        sbind (parse_type t) (\<lambda>k. Inr (EType k)))
      else if head = ''size'' then
        sbind (ok_or (BadArgs ''`size` requires a comparison op'') (Option.bind (first_str rest) cmp_parse)) (\<lambda>op.
        sbind (ok_or (BadArgs ''`size` requires bytes'') (Option.bind (second rest) as_i64_value)) (\<lambda>bytes.
          Inr (ESize op (nat (as_u64 bytes)))))
      else if head = ''since'' then
        sbind (ok_or (BadArgs ''`since` requires a clock'') (first_str rest)) (\<lambda>s. Inr (ESince (clock_parse s)))
      else if head = ''dirname'' \<or> head = ''idirname'' then
        sbind (ok_or (BadArgs ''`dirname` requires a path'') (first_str rest)) (\<lambda>p.
          Inr (EDirname p (head = ''dirname'')))
      else Inl (BadArgs (''unknown expression operator `'' @ head @ ''`'')))"

definition parse_bare :: "string \<Rightarrow> command_error + ('g, 'x) expr" where
  "parse_bare s =
     (if s = ''true'' then Inr ETrue else if s = ''false'' then Inr EFalse
      else if s = ''exists'' then Inr EExists else if s = ''empty'' then Inr EEmpty
      else Inl (BadArgs (''unknown bare expression `'' @ s @ ''`'')))"

lemma size_list_mem: "v \<in> set vs \<Longrightarrow> size v < Suc (size_list size vs)"
  by (induction vs) auto

function (sequential) parse_expr :: "('g, 'x) query_env \<Rightarrow> wire_value \<Rightarrow> command_error + ('g, 'x) expr"
  and parse_array :: "('g, 'x) query_env \<Rightarrow> wire_value list \<Rightarrow> command_error + ('g, 'x) expr" where
  "parse_expr E (VString s) = parse_bare s"
| "parse_expr E (VArray items) = parse_array E items"
| "parse_expr E other = Inl (BadArgs (''expected expression array, got '' @ value_debug E other))"
| "parse_array E (VString head # rest) =
     (if head = ''not'' then
        (case rest of
           [] \<Rightarrow> Inl (BadArgs ''`not` requires an operand'')
         | inner # _ \<Rightarrow> sbind (parse_expr E inner) (\<lambda>e. Inr (ENot e)))
      else if head = ''allof'' then sbind (smap (parse_expr E) rest) (\<lambda>es. Inr (EAllOf es))
      else if head = ''anyof'' then sbind (smap (parse_expr E) rest) (\<lambda>es. Inr (EAnyOf es))
      else parse_leaf E head rest)"
| "parse_array E _ = Inl (BadArgs ''empty expression'')"
  by pat_completeness auto

termination
  by (relation "measure (case_sum (\<lambda>p. 2 * size (snd p)) (\<lambda>p. 2 * size_list size (snd p) + 1))")
    (auto dest: size_list_mem)

section \<open>Evaluation\<close>

definition scoped_name :: "path \<Rightarrow> match_scope \<Rightarrow> string" where
  "scoped_name rel scope =
     (case scope of
        Basename \<Rightarrow> (case path_file_name rel of None \<Rightarrow> [] | Some b \<Rightarrow> from_utf8_lossy b)
      | Wholename \<Rightarrow> to_string_lossy rel)"

definition match_name :: "path \<Rightarrow> string list \<Rightarrow> match_scope \<Rightarrow> bool \<Rightarrow> bool" where
  "match_name rel names scope case_sensitive =
     (let hay = scoped_name rel scope in
      if case_sensitive then list_ex (\<lambda>n. n = hay) names
      else list_ex (\<lambda>n. eq_ignore_ascii_case n hay) names)"

definition match_dirname :: "path \<Rightarrow> string \<Rightarrow> bool \<Rightarrow> bool" where
  "match_dirname rel target case_sensitive =
     (case path_parent rel of
        None \<Rightarrow> False
      | Some q \<Rightarrow>
          (let p = to_string_lossy q in
           if case_sensitive then p = target \<or> starts_with p (target @ [SLASH])
           else eq_ignore_ascii_case p target \<or>
             starts_with (to_ascii_lowercase p) (to_ascii_lowercase target @ [SLASH])))"

text \<open>The extension as a lower-case string, if it is UTF-8 (\<^verbatim>\<open>OsStr::to_str\<close>).\<close>

definition lower_extension :: "path \<Rightarrow> string option" where
  "lower_extension rel =
     (case path_extension rel of
        None \<Rightarrow> None
      | Some e \<Rightarrow> if utf8_valid e then Some (to_ascii_lowercase e) else None)"

record eval_ctx =
  cx_clock :: clock
  cx_rel :: path
  cx_case_sensitive :: bool

fun eval :: "('g, 'x) query_env \<Rightarrow> ('g, 'x) expr \<Rightarrow> file_entry \<Rightarrow> eval_ctx \<Rightarrow> bool" where
  "eval E ETrue e cx = True"
| "eval E EFalse e cx = False"
| "eval E (EAllOf l) e cx = list_all (\<lambda>x. eval E x e cx) l"
| "eval E (EAnyOf l) e cx = list_ex (\<lambda>x. eval E x e cx) l"
| "eval E (ENot x) e cx = (\<not> eval E x e cx)"
| "eval E EExists e cx = exists e"
| "eval E EEmpty e cx = (fsize e = 0)"
| "eval E (EName names scope cs) e cx = match_name (cx_rel cx) names scope (cs \<and> cx_case_sensitive cx)"
| "eval E (EMatch g scope) e cx =
     (case scope of
        Basename \<Rightarrow> (case path_file_name (cx_rel cx) of None \<Rightarrow> False | Some b \<Rightarrow> glob_is_match E g [Normal b])
      | Wholename \<Rightarrow> glob_is_match E g (cx_rel cx))"
| "eval E (EPcre x scope) e cx = regex_is_match E x (scoped_name (cx_rel cx) scope)"
| "eval E (ESuffix exts) e cx =
     (case lower_extension (cx_rel cx) of None \<Rightarrow> False | Some x \<Rightarrow> list_ex (\<lambda>s. s = x) exts)"
| "eval E (EType k) e cx = (kind e = k)"
| "eval E (ESize op rhs) e cx = cmp_apply op (fsize e) rhs"
| "eval E (ESince spec) e cx = (tick_against spec (cx_clock cx) < oclock e)"
| "eval E (EDirname p cs) e cx = match_dirname (cx_rel cx) p (cs \<and> cx_case_sensitive cx)"

end
