(* ===== verification/Query_Field.thy ===== *)
theory Query_Field
  imports Query_Expr "HOL-Library.Log_Nat"
begin

text \<open>
  Rendering of file entries (\<^verbatim>\<open>query/field.rs\<close>): the field names, the default fields, and the value of
  each field on the wire. The fractional times need two IEEE-754 operations, the conversion of an
  \<^verbatim>\<open>i128\<close> to \<^verbatim>\<open>f64\<close> and one division, both rounded to nearest with ties to even.
\<close>

section \<open>IEEE-754 rounding\<close>

definition round_half_even :: "nat \<Rightarrow> nat \<Rightarrow> nat" where
  "round_half_even n d =
     (let q = n div d; r = n mod d in if 2 * r < d \<or> (2 * r = d \<and> even q) then q else q + 1)"

text \<open>The binary exponent of the positive rational \<open>n / d\<close>.\<close>

definition ratio_exp :: "nat \<Rightarrow> nat \<Rightarrow> int" where
  "ratio_exp n d =
     (let e = int (floorlog 2 n) - int (floorlog 2 d) in
      if (if 0 \<le> e then d * 2 ^ nat e \<le> n else d \<le> n * 2 ^ nat (- e)) then e else e - 1)"

text \<open>The significand in \<open>[2^52, 2^53)\<close> and the exponent of the double nearest to \<open>n / d\<close>.\<close>

definition f64_ratio :: "nat \<Rightarrow> nat \<Rightarrow> nat \<times> int" where
  "f64_ratio n d =
     (let e = ratio_exp n d; s = 52 - e;
          m = (if 0 \<le> s then round_half_even (n * 2 ^ nat s) d else round_half_even n (d * 2 ^ nat (- s)))
      in if m = 2 ^ 53 then (2 ^ 52, e + 1) else (m, e))"

definition f64_bits :: "bool \<Rightarrow> nat \<times> int \<Rightarrow> f64" where
  "f64_bits neg me =
     word_of_int ((if neg then 2 ^ 63 else 0) + (snd me + 1023) * 2 ^ 52 + (int (fst me) - 2 ^ 52))"

text \<open>\<^verbatim>\<open>(ns as f64) / 1_000_000_000.0\<close>\<close>

definition nanos_to_secs_f64 :: "int \<Rightarrow> f64" where
  "nanos_to_secs_f64 ns =
     (if ns = 0 then 0
      else (let (m, e) = f64_ratio (nat \<bar>ns\<bar>) 1
            in f64_bits (ns < 0)
                 (if 52 \<le> e then f64_ratio (m * 2 ^ nat (e - 52)) 1000000000
                  else f64_ratio m (2 ^ nat (52 - e) * 1000000000))))"

section \<open>Fields\<close>

datatype field =
    FName | FExists | FSize | FMode | FUid | FGid | FIno | FDev | FNlink
  | FMtime | FMtimeMs | FMtimeUs | FMtimeNs | FMtimeF
  | FCtime | FCtimeMs | FCtimeUs | FCtimeNs | FCtimeF
  | FType | FNew | FCClock | FOClock | FSymlinkTarget | FContentSha1Hex

definition field_parse :: "string \<Rightarrow> field option" where
  "field_parse name =
     (if name = ''name'' then Some FName
      else if name = ''exists'' then Some FExists
      else if name = ''size'' then Some FSize
      else if name = ''mode'' then Some FMode
      else if name = ''uid'' then Some FUid
      else if name = ''gid'' then Some FGid
      else if name = ''ino'' then Some FIno
      else if name = ''dev'' then Some FDev
      else if name = ''nlink'' then Some FNlink
      else if name = ''mtime'' then Some FMtime
      else if name = ''mtime_ms'' then Some FMtimeMs
      else if name = ''mtime_us'' then Some FMtimeUs
      else if name = ''mtime_ns'' then Some FMtimeNs
      else if name = ''mtime_f'' then Some FMtimeF
      else if name = ''ctime'' then Some FCtime
      else if name = ''ctime_ms'' then Some FCtimeMs
      else if name = ''ctime_us'' then Some FCtimeUs
      else if name = ''ctime_ns'' then Some FCtimeNs
      else if name = ''ctime_f'' then Some FCtimeF
      else if name = ''type'' then Some FType
      else if name = ''new'' then Some FNew
      else if name = ''cclock'' then Some FCClock
      else if name = ''oclock'' then Some FOClock
      else if name = ''symlink_target'' then Some FSymlinkTarget
      else if name = ''content.sha1hex'' then Some FContentSha1Hex
      else None)"

fun wire_name :: "field \<Rightarrow> string" where
  "wire_name FName = ''name''"
| "wire_name FExists = ''exists''"
| "wire_name FSize = ''size''"
| "wire_name FMode = ''mode''"
| "wire_name FUid = ''uid''"
| "wire_name FGid = ''gid''"
| "wire_name FIno = ''ino''"
| "wire_name FDev = ''dev''"
| "wire_name FNlink = ''nlink''"
| "wire_name FMtime = ''mtime''"
| "wire_name FMtimeMs = ''mtime_ms''"
| "wire_name FMtimeUs = ''mtime_us''"
| "wire_name FMtimeNs = ''mtime_ns''"
| "wire_name FMtimeF = ''mtime_f''"
| "wire_name FCtime = ''ctime''"
| "wire_name FCtimeMs = ''ctime_ms''"
| "wire_name FCtimeUs = ''ctime_us''"
| "wire_name FCtimeNs = ''ctime_ns''"
| "wire_name FCtimeF = ''ctime_f''"
| "wire_name FType = ''type''"
| "wire_name FNew = ''new''"
| "wire_name FCClock = ''cclock''"
| "wire_name FOClock = ''oclock''"
| "wire_name FSymlinkTarget = ''symlink_target''"
| "wire_name FContentSha1Hex = ''content.sha1hex''"

definition default_fields :: "field list" where
  "default_fields = [FName, FExists, FNew, FSize, FMode, FType]"

definition parse_field_list :: "wire_value \<Rightarrow> command_error + field list" where
  "parse_field_list v =
     sbind (ok_or (BadArgs ''`fields` must be an array'') (as_array v)) (\<lambda>arr.
       smap (\<lambda>x. sbind (ok_or (BadArgs ''`fields` entries must be strings'') (as_str x)) (\<lambda>name.
         ok_or (BadArgs (''unknown field `'' @ name @ ''`'')) (field_parse name))) arr)"

section \<open>Rows\<close>

definition hex_digit :: "nat \<Rightarrow> char" where
  "hex_digit n = (if n < 10 then char_of (48 + n) else char_of (87 + n))"

definition byte_hex :: "byte \<Rightarrow> string" where
  "byte_hex b = [hex_digit (unat b div 16), hex_digit (unat b mod 16)]"

text \<open>The file is read in blocks and hashed; a file that cannot be read gives null.\<close>

definition sha1_of :: "('g, 'x) query_env \<Rightarrow> path \<Rightarrow> wire_value" where
  "sha1_of E file =
     (case read_file E file of
        None \<Rightarrow> VNull
      | Some content \<Rightarrow> VString (concat (map byte_hex (sha1_digest E content))))"

fun render_field :: "('g, 'x) query_env \<Rightarrow> path \<Rightarrow> path \<Rightarrow> file_entry \<Rightarrow> clock \<Rightarrow> field \<Rightarrow> wire_value" where
  "render_field E rp rel e c FName = VString (to_string_lossy rel)"
| "render_field E rp rel e c FExists = VBool (exists e)"
| "render_field E rp rel e c FSize = VInt (as_i64 (int (fsize e)))"
| "render_field E rp rel e c FMode = VInt (int (mode e))"
| "render_field E rp rel e c FUid = VInt (int (uid e))"
| "render_field E rp rel e c FGid = VInt (int (gid e))"
| "render_field E rp rel e c FIno = VInt (as_i64 (int (ino e)))"
| "render_field E rp rel e c FDev = VInt (as_i64 (int (dev e)))"
| "render_field E rp rel e c FNlink = VInt (as_i64 (int (nlink e)))"
| "render_field E rp rel e c FMtime = VInt (tdiv (mtime_ms e) 1000)"
| "render_field E rp rel e c FMtimeMs = VInt (mtime_ms e)"
| "render_field E rp rel e c FMtimeUs = VInt (as_i64 (tdiv (mtime_ns e) 1000))"
| "render_field E rp rel e c FMtimeNs = VInt (as_i64 (mtime_ns e))"
| "render_field E rp rel e c FMtimeF = VReal (nanos_to_secs_f64 (mtime_ns e))"
| "render_field E rp rel e c FCtime = VInt (tdiv (ctime_ms e) 1000)"
| "render_field E rp rel e c FCtimeMs = VInt (ctime_ms e)"
| "render_field E rp rel e c FCtimeUs = VInt (as_i64 (tdiv (ctime_ns e) 1000))"
| "render_field E rp rel e c FCtimeNs = VInt (as_i64 (ctime_ns e))"
| "render_field E rp rel e c FCtimeF = VReal (nanos_to_secs_f64 (ctime_ns e))"
| "render_field E rp rel e c FType = VString (as_wire_str (kind e))"
| "render_field E rp rel e c FNew = VBool (is_new e)"
| "render_field E rp rel e c FCClock = VString (clock_encode c (cclock e))"
| "render_field E rp rel e c FOClock = VString (clock_encode c (oclock e))"
| "render_field E rp rel e c FSymlinkTarget =
     (case symlink_target e of Some t \<Rightarrow> VString t | None \<Rightarrow> VNull)"
| "render_field E rp rel e c FContentSha1Hex = sha1_of E (path_join rp rel)"

definition render_row ::
  "('g, 'x) query_env \<Rightarrow> path \<Rightarrow> path \<Rightarrow> file_entry \<Rightarrow> field list \<Rightarrow> clock \<Rightarrow> wire_value" where
  "render_row E root_path rel e fs c =
     (if length fs = 1 \<and> fs ! 0 = FName then VString (to_string_lossy rel)
      else VObject (im_inserts
        (map (\<lambda>f. (wire_name f, render_field E root_path rel e c f)) fs) []))"

section \<open>Lemmas\<close>

lemma field_parse_wire_name: "field_parse (wire_name f) = Some f"
  by (cases f) (simp_all add: field_parse_def)

lemma wire_name_inj: "wire_name f = wire_name g \<longleftrightarrow> f = g"
  by (metis field_parse_wire_name option.inject)

lemma field_parse_Some: "field_parse s = Some f \<Longrightarrow> wire_name f = s"
  unfolding field_parse_def by (auto split: if_splits)

lemma parse_field_list_names:
  "parse_field_list (VArray (map (VString \<circ> wire_name) fs)) = Inr fs"
proof -
  have "smap (\<lambda>x. sbind (ok_or (BadArgs ''`fields` entries must be strings'') (as_str x)) (\<lambda>name.
      ok_or (BadArgs (''unknown field `'' @ name @ ''`'')) (field_parse name))) (map (VString \<circ> wire_name) fs) = Inr fs"
    by (induction fs) (simp_all add: field_parse_wire_name)
  then show ?thesis by (simp add: parse_field_list_def)
qed

lemma smap_Inr_map:
  "smap f xs = Inr ys \<Longrightarrow> (\<And>x y. x \<in> set xs \<Longrightarrow> f x = Inr y \<Longrightarrow> x = g y) \<Longrightarrow> xs = map g ys"
proof (induction xs arbitrary: ys)
  case (Cons x xs)
  from Cons.prems(1) obtain y zs where y: "f x = Inr y" "smap f xs = Inr zs" "ys = y # zs"
    by (auto simp: sbind_Inr_iff)
  have "xs = map g zs" by (rule Cons.IH [OF y(2)]) (meson Cons.prems(2) list.set_intros(2))
  moreover have "x = g y" by (rule Cons.prems(2) [OF _ y(1)]) simp
  ultimately show ?case using y(3) by simp
qed simp

lemma ok_or_Inr_iff: "ok_or e x = Inr y \<longleftrightarrow> x = Some y"
  by (cases x) auto

lemma as_str_Some: "as_str v = Some s \<longleftrightarrow> v = VString s"
  by (cases v) auto

lemma as_array_Some: "as_array v = Some a \<longleftrightarrow> v = VArray a"
  by (cases v) auto

lemma parse_field_list_Inr:
  "parse_field_list v = Inr fs \<longleftrightarrow> v = VArray (map (VString \<circ> wire_name) fs)"
proof
  assume "parse_field_list v = Inr fs"
  then show "v = VArray (map (VString \<circ> wire_name) fs)"
    unfolding parse_field_list_def
    by (auto simp: sbind_Inr_iff ok_or_Inr_iff as_array_Some as_str_Some dest!: field_parse_Some
        intro!: smap_Inr_map)
qed (simp add: parse_field_list_names)

lemma im_get_rendered:
  "im_get (im_inserts (map (\<lambda>f. (wire_name f, h f)) fs) m) (wire_name g)
    = (if g \<in> set fs then Some (h g) else im_get m (wire_name g))"
  by (induction fs arbitrary: m) (auto simp: store_simps wire_name_inj)

lemma render_row_get:
  assumes "fs \<noteq> [FName]"
  shows "\<exists>m. render_row E rp rel e fs c = VObject m \<and> im_wf m \<and>
    (\<forall>f. im_get m (wire_name f) = (if f \<in> set fs then Some (render_field E rp rel e c f) else None))"
proof -
  have "\<not> (length fs = 1 \<and> fs ! 0 = FName)"
    using assms by (auto simp: length_Suc_conv)
  then show ?thesis by (simp add: render_row_def im_get_rendered im_wf_inserts)
qed

text \<open>The double nearest to a positive rational: the significand is in its range.\<close>

lemma round_half_even_bounds:
  assumes "0 < d"
  shows "n div d \<le> round_half_even n d" "round_half_even n d \<le> n div d + 1"
  by (simp_all add: round_half_even_def Let_def)

lemma round_half_even_near:
  assumes "0 < d"
  shows "2 * \<bar>int (round_half_even n d) * int d - int n\<bar> \<le> int d"
proof -
  define q r where "q = n div d" and "r = n mod d"
  have n: "int n = int q * int d + int r" and r: "int r < int d"
    using assms by (simp_all add: q_def r_def flip: of_nat_mult of_nat_add)
  have "round_half_even n d = (if 2 * r < d \<or> (2 * r = d \<and> even q) then q else q + 1)"
    by (simp add: round_half_even_def q_def r_def Let_def)
  then show ?thesis using n r by (auto simp: algebra_simps abs_if)
qed

end
