(* ===== verification/Query_Run.thy ===== *)
theory Query_Run
  imports Query_Field
begin

text \<open>
  Generators (\<^verbatim>\<open>query/generator.rs\<close>) and the query executor (\<^verbatim>\<open>query/run.rs\<close>): parsing a query
  specification, deciding which clock it is relative to and whether it is a fresh instance, and
  selecting and rendering the entries of the index.
\<close>

section \<open>Generators\<close>

record path_spec =
  ps_path :: string
  ps_depth :: "nat option"

record 'g generators =
  gen_suffix :: "string list option"
  gen_glob :: "'g list option"
  gen_paths :: "path_spec list option"
  gen_since :: "clock_spec option"

definition as_string_list :: "wire_value \<Rightarrow> command_error + string list" where
  "as_string_list v =
     sbind (ok_or (BadArgs ''expected an array of strings'') (as_array v)) (\<lambda>arr.
       smap (\<lambda>item. ok_or (BadArgs ''expected a string'') (as_str item)) arr)"

fun parse_path_spec :: "wire_value \<Rightarrow> command_error + path_spec" where
  "parse_path_spec (VString s) = Inr \<lparr> ps_path = s, ps_depth = None \<rparr>"
| "parse_path_spec (VObject o1) =
     sbind (ok_or (BadArgs ''path entry missing `path`'') (Option.bind (im_get o1 ''path'') as_str)) (\<lambda>p.
       Inr \<lparr> ps_path = p,
             ps_depth = map_option (\<lambda>d. nat (as_u32 d)) (Option.bind (im_get o1 ''depth'') as_i64_value) \<rparr>)"
| "parse_path_spec _ = Inl (BadArgs ''`path` entries must be strings or objects'')"

text \<open>\<^verbatim>\<open>if let Some(v) = spec.get(key)\<close> around a parser that may fail.\<close>

definition opt_parse :: "('v \<Rightarrow> 'e + 'a) \<Rightarrow> 'v option \<Rightarrow> 'e + 'a option" where
  "opt_parse f v = (case v of None \<Rightarrow> Inr None | Some x \<Rightarrow> sbind (f x) (\<lambda>y. Inr (Some y)))"

definition compile_glob :: "('g, 'x) query_env \<Rightarrow> string \<Rightarrow> command_error + 'g" where
  "compile_glob E pat =
     (case glob_new E pat False True of
        Inl e \<Rightarrow> Inl (BadArgs (''bad glob `'' @ pat @ ''`: '' @ e))
      | Inr g \<Rightarrow> Inr g)"

definition generators_from_spec ::
  "('g, 'x) query_env \<Rightarrow> vobject \<Rightarrow> command_error + 'g generators" where
  "generators_from_spec E spec =
     sbind (opt_parse (\<lambda>v. sbind (as_string_list v) (\<lambda>l. Inr (map to_ascii_lowercase l))) (im_get spec ''suffix'')) (\<lambda>suf.
     sbind (opt_parse (\<lambda>v. sbind (as_string_list v) (smap (compile_glob E))) (im_get spec ''glob'')) (\<lambda>globs.
     sbind (opt_parse (\<lambda>v. sbind (ok_or (BadArgs ''`path` must be an array'') (as_array v)) (smap parse_path_spec))
       (im_get spec ''path'')) (\<lambda>paths.
     Inr \<lparr> gen_suffix = suf, gen_glob = globs, gen_paths = paths,
           gen_since = map_option clock_parse (Option.bind (im_get spec ''since'') as_str) \<rparr>)))"

text \<open>Depths are \<^verbatim>\<open>u32\<close>: both the count and \<^verbatim>\<open>d + 1\<close> are reduced to that width.\<close>

definition depth_ok :: "nat \<Rightarrow> nat option \<Rightarrow> bool" where
  "depth_ok components depth =
     (case depth of None \<Rightarrow> True | Some d \<Rightarrow> components mod 2 ^ 32 \<le> (d + 1) mod 2 ^ 32)"

definition accept_path :: "path \<Rightarrow> path_spec \<Rightarrow> bool" where
  "accept_path rel spec =
     (if ps_path spec = [] then depth_ok (length rel) (ps_depth spec)
      else (case path_strip_prefix (path_of (ps_path spec)) rel of
              None \<Rightarrow> False
            | Some sub \<Rightarrow> depth_ok (length sub) (ps_depth spec)))"

definition accept :: "('g, 'x) query_env \<Rightarrow> 'g generators \<Rightarrow> path \<Rightarrow> bool" where
  "accept E gen rel =
     ((case gen_suffix gen of
         None \<Rightarrow> True
       | Some sufs \<Rightarrow> (case lower_extension rel of None \<Rightarrow> False | Some e \<Rightarrow> list_ex (\<lambda>s. s = e) sufs)) \<and>
      (case gen_glob gen of None \<Rightarrow> True | Some globs \<Rightarrow> list_ex (\<lambda>g. glob_is_match E g rel) globs) \<and>
      (case gen_paths gen of None \<Rightarrow> True | Some paths \<Rightarrow> list_ex (accept_path rel) paths))"

section \<open>Query specifications\<close>

record ('g, 'x) query_spec =
  q_expression :: "('g, 'x) expr"
  q_fields :: "field list"
  q_generators :: "'g generators"
  q_since :: "clock_spec option"
  q_relative_root :: "path option"
  q_empty_on_fresh_instance :: bool
  q_always_include_directories :: bool
  q_dedup_results :: bool
  q_omit_changed_files :: bool
  q_case_sensitive :: bool

fun is_vcs_names :: "('g, 'x) expr \<Rightarrow> bool" where
  "is_vcs_names (EName names Wholename cs) =
     (length names = 2 \<and> ''.git'' \<in> set names \<and> ''.jj'' \<in> set names)"
| "is_vcs_names _ = False"

fun is_dirname_of :: "string \<Rightarrow> ('g, 'x) expr \<Rightarrow> bool" where
  "is_dirname_of d (EDirname p cs) = (p = d)"
| "is_dirname_of d _ = False"

definition is_jj_fsmonitor_query :: "('g, 'x) query_spec \<Rightarrow> bool" where
  "is_jj_fsmonitor_query q =
     (case q_expression q of
        ENot (EAnyOf excludes) \<Rightarrow>
          length excludes = 3 \<and> list_ex is_vcs_names excludes \<and>
          list_ex (is_dirname_of ''.git'') excludes \<and> list_ex (is_dirname_of ''.jj'') excludes
      | _ \<Rightarrow> False)"

definition bool_option :: "vobject \<Rightarrow> string \<Rightarrow> bool \<Rightarrow> bool" where
  "bool_option m key d = (case Option.bind (im_get m key) as_bool of None \<Rightarrow> d | Some b \<Rightarrow> b)"

definition always_include_dirs_default :: bool where
  "always_include_dirs_default = True"

definition parse_spec :: "('g, 'x) query_env \<Rightarrow> wire_value \<Rightarrow> command_error + ('g, 'x) query_spec" where
  "parse_spec E raw =
     sbind (ok_or (BadArgs ''query spec must be an object'') (as_object raw)) (\<lambda>m.
     sbind (case im_get m ''expression'' of Some v \<Rightarrow> parse_expr E v | None \<Rightarrow> Inr ETrue) (\<lambda>expression.
     sbind (case im_get m ''fields'' of Some v \<Rightarrow> parse_field_list v | None \<Rightarrow> Inr default_fields) (\<lambda>fs.
     sbind (generators_from_spec E m) (\<lambda>gens.
     Inr \<lparr> q_expression = expression, q_fields = fs, q_generators = gens,
           q_since = map_option clock_parse (Option.bind (im_get m ''since'') as_str),
           q_relative_root = map_option path_of (Option.bind (im_get m ''relative_root'') as_str),
           q_empty_on_fresh_instance = bool_option m ''empty_on_fresh_instance'' False,
           q_always_include_directories = bool_option m ''always_include_directories'' always_include_dirs_default,
           q_dedup_results = bool_option m ''dedup_results'' False,
           q_omit_changed_files = bool_option m ''omit_changed_files'' False,
           q_case_sensitive = bool_option m ''case_sensitive'' True \<rparr>))))"

section \<open>Running a query\<close>

record query_result =
  res_files :: "wire_value list"
  res_clock :: string
  res_is_fresh_instance :: bool

definition resolve_named_cursor :: "root \<Rightarrow> ('g, 'x) query_spec \<Rightarrow> nat option \<times> string option" where
  "resolve_named_cursor r q =
     (case q_since q of Some (Named name) \<Rightarrow> (Some (cursor_tick name r), Some name) | _ \<Rightarrow> (None, None))"

definition resolve_scm_set :: "('g, 'x) query_env \<Rightarrow> root \<Rightarrow> ('g, 'x) query_spec \<Rightarrow> path set option" where
  "resolve_scm_set E r q =
     (case q_since q of Some (Scm vcs mergebase) \<Rightarrow> scm_changed_paths E (rpath r) vcs mergebase | _ \<Rightarrow> None)"

definition since_tick :: "root \<Rightarrow> ('g, 'x) query_spec \<Rightarrow> nat option" where
  "since_tick r q =
     (case fst (resolve_named_cursor r q) of
        Some t \<Rightarrow> Some t
      | None \<Rightarrow> map_option (\<lambda>s. tick_against s (rclock r)) (q_since q))"

definition query_clock_tick :: "root \<Rightarrow> ('g, 'x) query_spec \<Rightarrow> nat option" where
  "query_clock_tick r q =
     (case fst (resolve_named_cursor r q) of
        Some t \<Rightarrow> if 0 < t then Some t else None
      | None \<Rightarrow>
          (case q_since q of
             Some (Tick t) \<Rightarrow> Some (tick_against (Tick t) (rclock r))
           | Some (FullClock a b c t) \<Rightarrow> Some (tick_against (FullClock a b c t) (rclock r))
           | _ \<Rightarrow> None))"

definition fresh_instance :: "root \<Rightarrow> ('g, 'x) query_spec \<Rightarrow> bool" where
  "fresh_instance r q =
     (since_tick r q = None \<or> (since_tick r q = Some 0 \<and> jj_events r) \<or>
      (case query_clock_tick r q of None \<Rightarrow> False | Some t \<Rightarrow> t < oldest_available_tick r))"

definition COOKIE_PREFIX :: string where "COOKIE_PREFIX = ''.watchman-cookie-''"

definition is_cookie :: "path \<Rightarrow> bool" where
  "is_cookie rel =
     (case path_file_name rel of None \<Rightarrow> False | Some n \<Rightarrow> starts_with (from_utf8_lossy n) COOKIE_PREFIX)"

definition display_rel :: "('g, 'x) query_spec \<Rightarrow> path \<Rightarrow> path option" where
  "display_rel q rel =
     (case q_relative_root q of None \<Rightarrow> Some rel | Some base \<Rightarrow> path_strip_prefix base rel)"

text \<open>One pass of the loop: the row pushed for an entry, or \<open>None\<close> for \<^verbatim>\<open>continue\<close>.\<close>

definition query_entry ::
  "('g, 'x) query_env \<Rightarrow> root \<Rightarrow> ('g, 'x) query_spec \<Rightarrow> path \<times> file_entry \<Rightarrow> wire_value option" where
  "query_entry E r q pe =
     (let (rel, entry) = pe in
      if (case since_tick r q of None \<Rightarrow> False | Some t \<Rightarrow> oclock entry \<le> t) then None
      else if is_cookie rel then None
      else if \<not> q_always_include_directories q \<and> kind entry = KDir then None
      else (case display_rel q rel of
              None \<Rightarrow> None
            | Some d \<Rightarrow>
                if \<not> accept E (q_generators q) d then None
                else if (case resolve_scm_set E r q of
                           None \<Rightarrow> False
                         | Some allowed \<Rightarrow> rel \<notin> allowed \<and> d \<notin> allowed) then None
                else if eval E (q_expression q) entry
                     \<lparr> cx_clock = rclock r, cx_rel = d, cx_case_sensitive = q_case_sensitive q \<rparr>
                then Some (render_row E (rpath r) d entry (q_fields q) (rclock r))
                else None))"

definition run :: "('g, 'x) query_env \<Rightarrow> root \<Rightarrow> ('g, 'x) query_spec \<Rightarrow> query_result \<times> root" where
  "run E r q =
     (let observed_tick = current_tick (rclock r);
          fresh = fresh_instance r q;
          files = (if fresh \<and> q_empty_on_fresh_instance q then []
                   else List.map_filter (query_entry E r q) (entries (rtree r)));
          r' = (case snd (resolve_named_cursor r q) of
                  None \<Rightarrow> r
                | Some name \<Rightarrow> set_cursor name observed_tick r)
      in (\<lparr> res_files = files, res_clock = clock_encode (rclock r) observed_tick,
            res_is_fresh_instance = fresh \<rparr>, r'))"

definition WATCHMAN_COMPAT_VERSION :: string where
  "WATCHMAN_COMPAT_VERSION = ''2026.03.30.00''"

definition result_to_pdu :: "path \<Rightarrow> query_result \<Rightarrow> wire_value" where
  "result_to_pdu root_path res =
     VObject (im_inserts
       [(''version'', VString WATCHMAN_COMPAT_VERSION),
        (''clock'', VString (res_clock res)),
        (''is_fresh_instance'', VBool (res_is_fresh_instance res)),
        (''files'', VArray (res_files res)),
        (''root'', VString (to_string_lossy root_path))] [])"

end
