(* ===== verification/Query_Props.thy ===== *)
theory Query_Props
  imports Query_Run
begin

text \<open>
  Properties of queries over a root: what a \<^verbatim>\<open>since\<close> query reports, fresh instances, named cursors, the
  parsers' errors, the jj file-system-monitor query, and the shape of what is sent back.
\<close>

section \<open>Selection\<close>

lemma set_map_filter: "x \<in> set (List.map_filter f xs) \<longleftrightarrow> (\<exists>y \<in> set xs. f y = Some x)"
  by (force simp: List.map_filter_def)

lemma map_filter_cong:
  "(\<And>x. x \<in> set xs \<Longrightarrow> f x = g x) \<Longrightarrow> List.map_filter f xs = List.map_filter g xs"
proof (induction xs)
  case (Cons x xs)
  then have "f x = g x" "List.map_filter f xs = List.map_filter g xs" by simp_all
  then show ?case by (simp add: List.map_filter_simps split: option.splits)
qed (simp add: List.map_filter_def)

lemma map_filter_empty: "List.map_filter f xs = [] \<longleftrightarrow> (\<forall>x \<in> set xs. f x = None)"
  by (simp add: List.map_filter_def filter_empty_conv)

lemma entries_get: "tree_inv t \<Longrightarrow> (p, e) \<in> set (entries t) \<longleftrightarrow> tree_get t p = Some e"
  by (auto simp: tree_inv_def tree_get_def im_get_wf dest: map_of_SomeD)

text \<open>The query a client sends to learn the names of the files changed since a clock.\<close>

definition changes_query :: "string \<Rightarrow> wire_value" where
  "changes_query clk = VObject [(''since'', VString clk), (''fields'', VArray [VString ''name''])]"

definition changes_spec :: "clock_spec \<Rightarrow> ('g, 'x) query_spec" where
  "changes_spec since =
     \<lparr> q_expression = ETrue, q_fields = [FName],
       q_generators = \<lparr> gen_suffix = None, gen_glob = None, gen_paths = None, gen_since = Some since \<rparr>,
       q_since = Some since, q_relative_root = None, q_empty_on_fresh_instance = False,
       q_always_include_directories = True, q_dedup_results = False, q_omit_changed_files = False,
       q_case_sensitive = True \<rparr>"

lemma parse_changes_query: "parse_spec E (changes_query clk) = Inr (changes_spec (clock_parse clk))"
  by (simp add: parse_spec_def changes_query_def changes_spec_def parse_field_list_def field_parse_def
      generators_from_spec_def opt_parse_def bool_option_def always_include_dirs_default_def)

definition name_row :: "path \<Rightarrow> wire_value" where
  "name_row p = VString (to_string_lossy p)"

lemma query_entry_changes:
  fixes E :: "('g, 'x) query_env"
  assumes "\<And>v m. since \<noteq> Scm v m"
  shows "query_entry E r (changes_spec since) (p, e) =
    (if since_tick r (changes_spec since :: ('g, 'x) query_spec) \<noteq> None \<and>
        oclock e \<le> the (since_tick r (changes_spec since :: ('g, 'x) query_spec)) \<or> is_cookie p
     then None else Some (name_row p))"
proof -
  have "resolve_scm_set E r (changes_spec since) = None"
    using assms by (auto simp: resolve_scm_set_def changes_spec_def split: clock_spec.splits)
  then show ?thesis
    by (auto simp: query_entry_def changes_spec_def display_rel_def accept_def render_row_def name_row_def
        split: option.splits)
qed

lemma run_changes_files:
  fixes E :: "('g, 'x) query_env"
  assumes "tree_inv (rtree r)" and "\<And>v m. since \<noteq> Scm v m"
    and "since_tick r (changes_spec since :: ('g, 'x) query_spec) = Some n"
  shows "set (res_files (fst (run E r (changes_spec since :: ('g, 'x) query_spec))))
    = name_row ` {p \<in> changed_since n (rtree r). \<not> is_cookie p}"
proof -
  have "\<not> q_empty_on_fresh_instance (changes_spec since :: ('g, 'x) query_spec)" by (simp add: changes_spec_def)
  then have "res_files (fst (run E r (changes_spec since)))
      = List.map_filter (query_entry E r (changes_spec since)) (entries (rtree r))"
    by (simp add: run_def Let_def)
  moreover have "query_entry E r (changes_spec since) (p, e) = Some x
      \<longleftrightarrow> n < oclock e \<and> \<not> is_cookie p \<and> x = name_row p" for p e x
    using query_entry_changes [of since E r p e, OF assms(2)] assms(3) by (auto simp: not_le)
  ultimately show ?thesis
    by (simp add: set_eq_iff set_map_filter Bex_def split_paired_Ex entries_get [OF assms(1)]
        changed_since_def image_iff) blast
qed

lemma changes_since_tick:
  "since_tick r (changes_spec (FullClock a b c n)) = Some (tick_against (FullClock a b c n) (rclock r))"
  "query_clock_tick r (changes_spec (FullClock a b c n)) = Some (tick_against (FullClock a b c n) (rclock r))"
  "snd (resolve_named_cursor r (changes_spec (FullClock a b c n))) = None"
  "since_tick r (changes_spec (Named nm)) = Some (cursor_tick nm r)"
  "query_clock_tick r (changes_spec (Named nm)) = (if 0 < cursor_tick nm r then Some (cursor_tick nm r) else None)"
  "snd (resolve_named_cursor r (changes_spec (Named nm))) = Some nm"
  by (simp_all add: since_tick_def query_clock_tick_def resolve_named_cursor_def changes_spec_def)

section \<open>The floor of the index\<close>

text \<open>
  No entry is older than the oldest tick the index can answer for, and none has tick 0.
\<close>

definition index_floor :: "root \<Rightarrow> bool" where
  "index_floor r \<longleftrightarrow>
     0 < ticks (rclock r) \<and>
     (\<forall>p e. tree_get (rtree r) p = Some e \<longrightarrow> oldest_available_tick r \<le> oclock e \<and> 0 < oclock e)"

lemma index_floor_tick:
  assumes "index_floor r" "root_inv r" "k = ticks (rclock r) + 1"
    and "\<And>p e. tree_get t p = Some e \<Longrightarrow> oclock e = k \<or> (tree_get (rtree r) p = Some e \<and> old = oldest_available_tick r)"
    and "old = oldest_available_tick r \<or> old = k"
  shows "index_floor (r\<lparr>rclock := (rclock r)\<lparr>ticks := k\<rparr>, rtree := t, tick_tx := evs, oldest_available_tick := old, jj_events := jj\<rparr>)"
proof -
  have "oldest_available_tick r \<le> ticks (rclock r)" using assms(2) by (simp add: root_inv_def)
  then have "old \<le> k" using assms(3,5) by auto
  then show ?thesis using assms(1,3,4) unfolding index_floor_def by fastforce
qed

lemma index_floor_changes:
  assumes "index_floor r" "root_inv r" "clock_room r"
  shows "index_floor (snd (apply_changes arena cs r))"
proof -
  obtain t old where b: "batch_base arena r = (t, old)" by (cases "batch_base arena r")
  let ?k = "ticks (rclock r) + 1"
  have "index_floor (r\<lparr>rclock := (rclock r)\<lparr>ticks := ?k\<rparr>, rtree := fold (apply_change (jj_events r) ?k) cs t,
      tick_tx := tick_tx r @ [\<lparr> ev_tick = ?k, ev_changed = map change_path cs \<rparr>],
      oldest_available_tick := old, jj_events := jj_events r\<rparr>)"
    by (rule index_floor_tick [OF assms(1,2) refl])
      (use b in \<open>auto simp: batch_base_def dest!: changes_get split: if_splits\<close>)
  then show ?thesis using assms(3) b by (simp add: apply_changes_eq)
qed

lemma index_floor_fill:
  assumes "index_floor r" "root_inv r" "clock_room r"
  shows "index_floor (snd (seed es r))" "index_floor (promote_to_full es r)"
    "index_floor (snd (invalidate_jj_events r))" "index_floor (snd (bump_clock r))"
proof -
  let ?k = "ticks (rclock r) + 1"
  have o: "oldest_available_tick r \<le> ticks (rclock r)" using assms(2) by (simp add: root_inv_def)
  show "index_floor (snd (seed es r))"
    using fill_get [of ?k es tree_new] o by (fastforce simp: seed_eq [OF assms(3)] index_floor_def)
  show "index_floor (promote_to_full es r)"
    using fill_get [of ?k es tree_new] assms(1)
    by (fastforce simp: promote_to_full_def bump_clock_room [OF assms(3)] index_floor_def)
  show "index_floor (snd (invalidate_jj_events r))"
    using assms(1) by (simp add: invalidate_jj_events_def bump_clock_room [OF assms(3)] send_tick_def index_floor_def)
  show "index_floor (snd (bump_clock r))"
    using assms(1) by (fastforce simp: bump_clock_room [OF assms(3)] index_floor_def)
qed

lemma index_floor_prune:
  assumes "index_floor r" "root_inv r"
  shows "index_floor (snd (prune_tombstones r))"
proof -
  have "tree_inv (rtree r)" using assms(2) by (simp add: root_inv_def)
  then show ?thesis
    using assms(1) by (auto simp: prune_cases index_floor_def tree_get_prune split: option.splits if_splits)
qed

lemma index_floor_frame:
  assumes "index_floor r" "rclock r' = rclock r" "rtree r' = rtree r"
    "oldest_available_tick r' = oldest_available_tick r"
  shows "index_floor r'"
  using assms by (simp add: index_floor_def)

lemma index_floor_step:
  assumes "root_step S C r r'" "index_floor r" "root_inv r"
  shows "index_floor r'"
  using assms(1)
  by cases (use assms(2,3) in \<open>auto simp: index_floor_changes index_floor_fill index_floor_prune
      set_cursor_def add_subscription_def remove_subscription_def install_trigger_def remove_trigger_def
      touch_def mark_missing_def mark_present_def Let_def intro: index_floor_frame\<close>)

lemma root_reach_floor: "root_reach S C r \<Longrightarrow> index_floor r"
proof (induction rule: root_reach.induct)
  case (init number now pid0 p pool sdir ig jj)
  then show ?case by (simp add: index_floor_def root_new_def clock_new_def)
next
  case (step r r')
  then show ?case using index_floor_step root_reach_inv by blast
qed

lemma reach_facts:
  assumes "root_reach S C r"
  shows "tree_inv (rtree r)" "clock_wf (rclock r)" "0 < ticks (rclock r)"
    "oldest_available_tick r \<le> ticks (rclock r)" "stamped (ticks (rclock r)) (rtree r)" "tables_wf r"
  using root_reach_inv [OF assms] root_reach_floor [OF assms] root_stamped
  by (auto simp: root_inv_def index_floor_def)

section \<open>Cursors\<close>

lemma im_insert_twice: "im_insert k v (im_insert k v' m) = im_insert k v m"
  by (induction m) auto

lemma run_named:
  "snd (run E r (changes_spec (Named name))) = set_cursor name (ticks (rclock r)) r"
  by (simp add: run_def Let_def changes_since_tick)

lemma cursor_tick_set [simp]: "cursor_tick name (set_cursor name k r) = k"
  by (simp add: cursor_tick_def set_cursor_def im.put_get_same)

lemma set_cursor_frame [simp]:
  "rclock (set_cursor name k r) = rclock r" "rtree (set_cursor name k r) = rtree r"
  "oldest_available_tick (set_cursor name k r) = oldest_available_tick r"
  "jj_events (set_cursor name k r) = jj_events r" "clock_room (set_cursor name k r) = clock_room r"
  by (simp_all add: set_cursor_def clock_room_def)

lemma set_cursor_twice: "set_cursor name k (set_cursor name k r) = set_cursor name k r"
  by (simp add: set_cursor_def im_insert_twice)

text \<open>The entries newer than the clock before a batch are those of the batch.\<close>

lemma changed_since_batch:
  assumes "root_inv r" "clock_room r" "apply_changes arena cs r = (k, r')"
  shows "changed_since (ticks (rclock r)) (rtree r') = {p \<in> change_path ` set cs. tree_get (rtree r') p \<noteq> None}"
    and "cursors r' = cursors r"
proof -
  obtain t old where b: "batch_base arena r = (t, old)" by (cases "batch_base arena r")
  let ?k = "ticks (rclock r) + 1"
  have r': "r' = r\<lparr>rclock := (rclock r)\<lparr>ticks := ?k\<rparr>, rtree := fold (apply_change (jj_events r) ?k) cs t,
      tick_tx := tick_tx r @ [\<lparr> ev_tick = ?k, ev_changed = map change_path cs \<rparr>],
      oldest_available_tick := old, jj_events := jj_events r\<rparr>"
    using assms(2,3) b by (auto simp: apply_changes_eq)
  then show "cursors r' = cursors r" by simp
  have st: "stamped (ticks (rclock r)) t"
    using b root_stamped [OF assms(1)] by (auto simp: batch_base_def split: if_splits)
  have get: "tree_get (rtree r') p = Some e \<Longrightarrow>
      (p \<in> change_path ` set cs \<and> oclock e = ?k) \<or> (p \<notin> change_path ` set cs \<and> oclock e \<le> ticks (rclock r))" for p e
    using changes_get [of "jj_events r" ?k cs t p e] st by (auto simp: r' stamped_def)
  show "changed_since (ticks (rclock r)) (rtree r') = {p \<in> change_path ` set cs. tree_get (rtree r') p \<noteq> None}"
  proof (intro set_eqI)
    fix p
    show "p \<in> changed_since (ticks (rclock r)) (rtree r') \<longleftrightarrow>
        p \<in> {p \<in> change_path ` set cs. tree_get (rtree r') p \<noteq> None}"
      by (cases "tree_get (rtree r') p") (auto simp: changed_since_def dest: get)
  qed
qed

section \<open>Fresh instances\<close>

lemma query_clock_since: "query_clock_tick r q = Some t \<Longrightarrow> since_tick r q = Some t"
  by (auto simp: query_clock_tick_def since_tick_def resolve_named_cursor_def
      split: option.splits clock_spec.splits if_splits)

lemma fresh_since_passes:
  assumes "index_floor r" and "fresh_instance r q" and "since_tick r q = Some t"
    and "tree_get (rtree r) p = Some e"
  shows "t < oclock e"
proof -
  have e: "oldest_available_tick r \<le> oclock e" "0 < oclock e"
    using assms(1,4) by (auto simp: index_floor_def)
  show ?thesis
  proof (cases "query_clock_tick r q")
    case None
    then show ?thesis using assms(2,3) e by (auto simp: fresh_instance_def)
  next
    case (Some t')
    then have "t' = t" using query_clock_since assms(3) by fastforce
    then show ?thesis using assms(2,3) e Some by (auto simp: fresh_instance_def)
  qed
qed

lemma query_entry_without_since:
  assumes "since_tick r q = None \<or> the (since_tick r q) < oclock e" and "resolve_scm_set E r q = None"
  shows "query_entry E r q (p, e) = query_entry E r (q\<lparr>q_since := None\<rparr>) (p, e)"
proof -
  have s: "since_tick r (q\<lparr>q_since := None\<rparr>) = None" "resolve_scm_set E r (q\<lparr>q_since := None\<rparr>) = None"
    "display_rel (q\<lparr>q_since := None\<rparr>) p = display_rel q p"
    by (simp_all add: since_tick_def resolve_named_cursor_def resolve_scm_set_def display_rel_def)
  show ?thesis
    using assms by (auto simp: query_entry_def s split: option.splits)
qed

section \<open>Parser errors\<close>

definition bad_args :: "command_error \<Rightarrow> bool" where
  "bad_args e = (\<exists>m. e = BadArgs m)"

lemma bad_args_simp [simp]: "bad_args (BadArgs m)"
  by (simp add: bad_args_def)

definition only_bad :: "command_error + 'a \<Rightarrow> bool" where
  "only_bad r = (case r of Inl e \<Rightarrow> bad_args e | Inr _ \<Rightarrow> True)"

lemma only_bad_simps [simp]: "only_bad (Inr x)" "only_bad (Inl e) = bad_args e"
  by (simp_all add: only_bad_def)

lemma only_bad_sbind [intro!]: "only_bad r \<Longrightarrow> (\<And>x. r = Inr x \<Longrightarrow> only_bad (f x)) \<Longrightarrow> only_bad (sbind r f)"
  by (cases r) auto

lemma only_bad_if: "only_bad x \<Longrightarrow> only_bad y \<Longrightarrow> only_bad (if b then x else y)"
  by simp

lemma only_bad_ok_or [simp]: "only_bad (ok_or (BadArgs m) x)"
  by (cases x) auto

lemma only_bad_smap [intro!]: "(\<And>x. x \<in> set xs \<Longrightarrow> only_bad (f x)) \<Longrightarrow> only_bad (smap f xs)"
  by (induction xs) auto

lemma only_bad_scope [simp]: "only_bad (scope_arg rest)"
  by (auto simp: scope_arg_def parse_scope_def split: option.splits)

lemma only_bad_flatten [simp]: "only_bad (flatten_strings vs)"
  by (induction vs rule: flatten_strings.induct) auto

lemma only_bad_name_args [simp]: "only_bad (parse_name_args rest)"
  by (auto simp: parse_name_args_def split: list.splits)

lemma only_bad_type [simp]: "only_bad (parse_type t)"
  by (simp add: parse_type_def)

lemma only_bad_leaf: "only_bad (parse_leaf E head rest)"
  unfolding parse_leaf_def by (intro only_bad_if) (auto split: sum.splits)

lemma only_bad_parse: "only_bad (parse_expr E v)" "only_bad (parse_array E items)"
  by (induction E v and E items rule: parse_expr_parse_array.induct)
    (auto simp: parse_bare_def only_bad_leaf only_bad_smap split: list.splits)

lemma only_bad_fields: "only_bad (parse_field_list v)"
  unfolding parse_field_list_def by (auto intro!: only_bad_smap)

lemma only_bad_string_list [simp]: "only_bad (as_string_list v)"
  unfolding as_string_list_def by (auto intro!: only_bad_smap)

lemma only_bad_path_spec [simp]: "only_bad (parse_path_spec v)"
  by (induction v rule: parse_path_spec.induct) auto

lemma only_bad_opt: "(\<And>x. only_bad (f x)) \<Longrightarrow> only_bad (opt_parse f v)"
  by (auto simp: opt_parse_def split: option.splits)

lemma only_bad_glob [simp]: "only_bad (compile_glob E p)"
  by (simp add: compile_glob_def split: sum.splits)

lemma only_bad_generators: "only_bad (generators_from_spec E m)"
  unfolding generators_from_spec_def by (auto intro!: only_bad_opt only_bad_smap)

lemma only_bad_spec: "only_bad (parse_spec E raw)"
  unfolding parse_spec_def
  by (auto simp: only_bad_parse only_bad_fields only_bad_generators split: option.splits)

section \<open>The jj query\<close>

lemma lossy_ascii_prefix:
  "(\<And>c. c \<in> set p \<Longrightarrow> of_char c < (128 :: nat)) \<Longrightarrow> from_utf8_lossy (p @ s) = p @ from_utf8_lossy s"
  by (induction p) (auto simp: from_utf8_lossy_Cons_ascii)

lemma path_str_plain_Cons:
  "plain_path (Normal d # q # qs) \<Longrightarrow> path_str (Normal d # q # qs) = d @ SLASH # path_str (q # qs)"
  by (simp add: path_str_plain del: path_str.simps)

definition vcs_dir :: "string \<Rightarrow> bool" where
  "vcs_dir d \<longleftrightarrow> d = ''.git'' \<or> d = ''.jj''"

lemma vcs_dir_ascii: "vcs_dir d \<Longrightarrow> c \<in> set d \<Longrightarrow> of_char c < (128 :: nat)"
  by (auto simp: vcs_dir_def)

lemma slash_ascii: "of_char SLASH < (128 :: nat)"
  by (simp add: SLASH_def)

lemma lower_slash: "ascii_lower SLASH = SLASH"
  by (simp add: SLASH_def ascii_lower_def)

lemma below_vcs_dirname:
  assumes "vcs_dir d" and "plain_path (Normal d # q)" and "q \<noteq> []"
  shows "match_dirname (Normal d # q) d cs"
proof -
  obtain qs where qs: "butlast (Normal d # q) = Normal d # qs" "plain_path (Normal d # qs)"
    using assms by (metis append_butlast_last_id butlast.simps(2) list.discI plain_path_append)
  have "last (Normal d # q) \<noteq> RootDir"
    using assms by (metis last_in_set list.discI path_component.distinct(5) plain_path_def)
  then have par: "path_parent (Normal d # q) = Some (Normal d # qs)" using qs by (simp add: path_parent_def)
  have asc: "c \<in> set (d @ [SLASH]) \<Longrightarrow> of_char c < (128 :: nat)" for c
    using vcs_dir_ascii [OF assms(1)] slash_ascii by auto
  have "to_string_lossy (Normal d # qs) = d \<or> (\<exists>s. to_string_lossy (Normal d # qs) = (d @ [SLASH]) @ s)"
  proof (cases qs)
    case Nil
    then show ?thesis
      using lossy_ascii_prefix [of d "[]"] vcs_dir_ascii [OF assms(1)] by (simp add: to_string_lossy_def)
  next
    case (Cons x xs)
    then show ?thesis
      using lossy_ascii_prefix [of "d @ [SLASH]" "path_str (x # xs)", OF asc] qs(2)
      by (simp add: to_string_lossy_def path_str_plain_Cons del: path_str.simps)
  qed
  then show ?thesis
    by (auto simp: match_dirname_def par Let_def starts_with_def eq_ignore_ascii_case_def
        str_strip_prefix_Some_iff to_ascii_lowercase_def lower_slash)
qed

lemma vcs_dir_itself:
  assumes "vcs_dir d" and "d \<in> set names"
  shows "match_name [Normal d] names Wholename cs"
proof -
  have "to_string_lossy [Normal d] = d"
    using lossy_ascii_prefix [of d "[]"] vcs_dir_ascii [OF assms(1)] by (simp add: to_string_lossy_def)
  then show ?thesis
    using assms(2) by (auto simp: match_name_def scoped_name_def Let_def list_ex_iff eq_ignore_ascii_case_def)
qed

lemma is_vcs_names_iff:
  "is_vcs_names x \<longleftrightarrow> (\<exists>names cs. x = EName names Wholename cs \<and> length names = 2 \<and>
    ''.git'' \<in> set names \<and> ''.jj'' \<in> set names)"
  by (cases x rule: is_vcs_names.cases) auto

lemma is_dirname_of_iff: "is_dirname_of d x \<longleftrightarrow> (\<exists>cs. x = EDirname d cs)"
  by (cases x) auto

lemma jj_query_shape:
  assumes "is_jj_fsmonitor_query q"
  obtains parts names cs1 cs2 cs3 where "q_expression q = ENot (EAnyOf parts)"
    "EName names Wholename cs1 \<in> set parts" "''.git'' \<in> set names" "''.jj'' \<in> set names"
    "EDirname ''.git'' cs2 \<in> set parts" "EDirname ''.jj'' cs3 \<in> set parts"
proof -
  from assms obtain parts where "q_expression q = ENot (EAnyOf parts)" "list_ex is_vcs_names parts"
    "list_ex (is_dirname_of ''.git'') parts" "list_ex (is_dirname_of ''.jj'') parts"
    by (auto simp: is_jj_fsmonitor_query_def split: expr.splits)
  then show ?thesis
    using that by (auto simp: list_ex_iff is_vcs_names_iff is_dirname_of_iff)
qed

lemma jj_query_excludes:
  assumes "is_jj_fsmonitor_query q" and "vcs_dir d" and "plain_path (Normal d # rest)"
    and "cx_rel cx = Normal d # rest"
  shows "\<not> eval E (q_expression q) e cx"
proof -
  from assms(1) obtain parts names cs1 cs2 cs3 where q: "q_expression q = ENot (EAnyOf parts)"
    and n: "EName names Wholename cs1 \<in> set parts" "''.git'' \<in> set names" "''.jj'' \<in> set names"
    and g: "EDirname ''.git'' cs2 \<in> set parts" and j: "EDirname ''.jj'' cs3 \<in> set parts"
    by (rule jj_query_shape)
  have "\<exists>part \<in> set parts. eval E part e cx"
  proof (cases "rest = []")
    case True
    have "d \<in> set names" using assms(2) n by (auto simp: vcs_dir_def)
    then have "eval E (EName names Wholename cs1) e cx"
      using vcs_dir_itself [OF assms(2)] assms(4) True by simp
    with n(1) show ?thesis by blast
  next
    case False
    from g j obtain cs where m: "EDirname d cs \<in> set parts" using assms(2) by (auto simp: vcs_dir_def)
    then have "eval E (EDirname d cs) e cx"
      using below_vcs_dirname [OF assms(2,3) False] assms(4) by simp
    with m show ?thesis by blast
  qed
  then show ?thesis by (simp add: q list_ex_iff)
qed

section \<open>What is sent is a value of the protocol\<close>

definition entry_ok :: "file_entry \<Rightarrow> bool" where
  "entry_ok e \<longleftrightarrow> mode e < 2 ^ 32 \<and> uid e < 2 ^ 32 \<and> gid e < 2 ^ 32 \<and>
     i64_range (mtime_ms e) \<and> i64_range (ctime_ms e) \<and>
     (\<forall>t. symlink_target e = Some t \<longrightarrow> utf8_valid t)"

lemma entry_ok_from_metadata:
  assumes "md_mode md < 2 ^ 32" "md_uid md < 2 ^ 32" "md_gid md < 2 ^ 32"
    and "\<And>t. target = Some t \<Longrightarrow> utf8_valid t"
  shows "entry_ok (from_metadata md target tick)"
  using assms by (auto simp: entry_ok_def from_metadata_def Let_def)

lemma i64_range_tdiv: "i64_range a \<Longrightarrow> i64_range (tdiv a 1000)"
proof -
  assume a: "i64_range a"
  have "\<bar>tdiv a 1000\<bar> \<le> \<bar>a\<bar> div 1000" by (cases "a = 0") (simp_all add: tdiv_def abs_mult)
  moreover have "\<bar>a\<bar> div 1000 < 2 ^ 63" using a by (auto simp: i64_range_def)
  ultimately show ?thesis by (auto simp: i64_range_def abs_le_iff)
qed

lemma i64_range_u32: "n < 2 ^ 32 \<Longrightarrow> i64_range (int n)"
proof -
  assume "n < 2 ^ 32"
  then have "int n < 2 ^ 32" by (metis of_nat_less_iff of_nat_numeral of_nat_power)
  then show ?thesis by (simp add: i64_range_def)
qed

lemma utf8_valid_clock: "utf8_valid (clock_encode c k)"
  by (rule utf8_valid_ascii) (auto simp: clock_encode_def nat_str_ascii)

lemma hex_digit_ascii: "n < 16 \<Longrightarrow> of_char (hex_digit n) < (128 :: nat)"
  by (simp add: hex_digit_def)

lemma utf8_valid_hex: "utf8_valid (concat (map byte_hex bs))"
proof (rule utf8_valid_ascii)
  fix c assume "c \<in> set (concat (map byte_hex bs))"
  then obtain b where "b \<in> set bs" "c = hex_digit (unat b div 16) \<or> c = hex_digit (unat b mod 16)"
    by (auto simp: byte_hex_def)
  moreover have "unat b div 16 < 16" for b :: byte using unsigned_less [of b, where 'a = nat] by simp
  ultimately show "of_char c < (128 :: nat)" using hex_digit_ascii by auto
qed

lemma utf8_valid_to_string_lossy [simp]: "utf8_valid (to_string_lossy p)"
  by (simp add: to_string_lossy_def utf8_valid_lossy)

lemma wire_name_valid: "utf8_valid (wire_name f)"
  by (cases f) simp_all

lemma utf8_valid_kind [simp]: "utf8_valid (as_wire_str k)"
  by (cases k) simp_all

lemma render_field_wf: "entry_ok e \<Longrightarrow> value_wf (render_field E rp rel e c f)"
  by (cases f)
    (auto simp: entry_ok_def i64_range_tdiv i64_range_u32 utf8_valid_clock sha1_of_def utf8_valid_hex
      split: option.splits)

lemma render_row_wf: "entry_ok e \<Longrightarrow> value_wf (render_row E rp rel e fs c)"
  unfolding render_row_def
  by (auto simp: im_wf_inserts render_field_wf wire_name_valid dest!: im_set_inserts)

lemma query_entry_wf: "entry_ok (snd pe) \<Longrightarrow> query_entry E r q pe = Some v \<Longrightarrow> value_wf v"
  by (auto simp: query_entry_def Let_def render_row_wf split: prod.splits if_splits option.splits)

section \<open>Properties\<close>

text \<open>Instances for the witnesses: globs and regular expressions are literal strings.\<close>

definition plain_env :: "(string, string) query_env" where
  "plain_env =
     \<lparr> glob_new = (\<lambda>p ci lit. Inr p), glob_is_match = (\<lambda>g p. path_str p = g),
       regex_new = (\<lambda>p ci. Inr p), regex_is_match = (\<lambda>x s. s = x),
       value_debug = (\<lambda>v. ''value''), read_file = (\<lambda>p. Some (as_bytes (path_str p))),
       sha1_digest = (\<lambda>bs. bs), scm_changed_paths = (\<lambda>p v m. None) \<rparr>"

lemma sample_file_not_cookie: "\<not> is_cookie sample_file"
  by (simp add: is_cookie_def sample_file_def path_file_name_def COOKIE_PREFIX_def starts_with_def
      from_utf8_lossy_Cons_ascii)



text \<open>
  C5. In either mode and whatever was crawled or pruned in between, a \<^verbatim>\<open>since\<close> query lists every file
  that still exists and that the watcher has reported since that clock (cookie files excepted).
\<close>

theorem since_query_complete_for_existing:
  fixes E :: "('g, 'x) query_env"
  assumes "root_reach S C r" and "n < 2 ^ 64"
    and "p \<in> touched_since n r" and "p \<in> live_paths (rtree r)" and "\<not> is_cookie p"
    and "parse_spec E (changes_query (clock_encode (rclock r) n)) = Inr q"
  shows "name_row p \<in> set (res_files (fst (run E r q)))"
proof -
  note f = reach_facts [OF assms(1)]
  have q: "q = changes_spec (FullClock (start_time (rclock r)) (pid (rclock r)) (root_number (rclock r)) n)"
    using assms(6) clock_parse_encode [OF f(2) assms(2)] by (simp add: parse_changes_query)
  have "set (res_files (fst (run E r q))) = name_row ` {p \<in> changed_since n (rtree r). \<not> is_cookie p}"
    unfolding q by (rule run_changes_files [OF f(1)]) (simp_all add: changes_since_tick)
  moreover have "p \<in> changed_since n (rtree r)"
    using root_reach_inv [OF assms(1)] assms(3,4)
    by (fastforce simp: root_inv_def events_seen_def touched_since_def live_paths_def changed_since_def)
  ultimately show ?thesis using assms(5) by blast
qed

theorem since_query_complete_for_existing_witness:
  "name_row sample_file \<in> set (res_files (fst (run plain_env sample_events
    (changes_spec (clock_parse (clock_encode (rclock sample_events) 1))))))"
  by (rule since_query_complete_for_existing [OF sample_events_reach [of tiny_serde no_codec]])
    (simp_all add: sample_events_facts parse_changes_query touched_since_def sample_file_not_cookie)

text \<open>
  C4. A named cursor never reports a change twice and never skips one: after a query with a cursor,
  the next query with it is not a fresh instance and lists nothing if nothing happened, and after one
  batch of changes it lists exactly the paths of the batch that the index knows (cookies excepted).
\<close>

theorem named_cursor_advances:
  fixes E :: "('g, 'x) query_env"
  assumes "root_reach S C r" and "clock_room r"
    and "run E r (changes_spec (Named name) :: ('g, 'x) query_spec) = (res1, r1)"
    and "run E r1 (changes_spec (Named name) :: ('g, 'x) query_spec) = (res2, r2)"
    and "apply_changes arena cs r1 = (k, r3)"
    and "run E r3 (changes_spec (Named name) :: ('g, 'x) query_spec) = (res3, r4)"
  shows "res_files res2 = [] \<and> \<not> res_is_fresh_instance res2 \<and> r2 = r1 \<and>
    set (res_files res3) =
      name_row ` {p \<in> change_path ` set cs. tree_get (rtree r3) p \<noteq> None \<and> \<not> is_cookie p}"
proof -
  let ?q = "changes_spec (Named name) :: ('g, 'x) query_spec" and ?t = "ticks (rclock r)"
  note f = reach_facts [OF assms(1)]
  have r1: "r1 = set_cursor name ?t r" using run_named [of E r name] assms(3) by simp
  have reach1: "root_reach S C r1"
    unfolding r1 by (rule root_reach.step [OF assms(1)]) (rule root_step.st_cursor, simp)
  note f1 = reach_facts [OF reach1]
  have "set (res_files (fst (run E r1 ?q))) = name_row ` {p \<in> changed_since ?t (rtree r1). \<not> is_cookie p}"
    by (rule run_changes_files [OF f1(1)]) (simp_all add: r1 changes_since_tick)
  then have files2: "res_files res2 = []"
    using assms(4) changed_since_late [OF f(5)] by (simp add: r1)
  have fresh2: "\<not> res_is_fresh_instance res2"
    using assms(4) f(3,4) by (auto simp: run_def Let_def fresh_instance_def changes_since_tick r1)
  have r2: "r2 = r1" using run_named [of E r1 name] assms(4) by (simp add: r1 set_cursor_twice)
  have room: "clock_room r1" using assms(2) r1 by simp
  note b = changed_since_batch [OF root_reach_inv [OF reach1] room assms(5)]
  have reach3: "root_reach S C r3"
    using root_reach.step [OF reach1 root_step.st_changes [OF room, of S C arena cs]] assms(5) by simp
  have "cursor_tick name r3 = ?t" using b(2) r1 by (simp add: cursor_tick_def set_cursor_def im.put_get_same)
  then have "set (res_files (fst (run E r3 ?q))) = name_row ` {p \<in> changed_since ?t (rtree r3). \<not> is_cookie p}"
    by (intro run_changes_files [OF reach_facts(1) [OF reach3]]) (simp_all add: changes_since_tick)
  then have "set (res_files res3)
      = name_row ` {p \<in> change_path ` set cs. tree_get (rtree r3) p \<noteq> None \<and> \<not> is_cookie p}"
    using assms(6) b(1) by (simp add: r1)
  then show ?thesis using files2 fresh2 r2 by blast
qed

theorem named_cursor_advances_witness:
  "res_files (fst (run plain_env (snd (run plain_env (sample_root False) (changes_spec (Named ''c'')))) (changes_spec (Named ''c'')))) = [] \<and>
    \<not> res_is_fresh_instance (fst (run plain_env (snd (run plain_env (sample_root False) (changes_spec (Named ''c'')))) (changes_spec (Named ''c'')))) \<and>
    snd (run plain_env (snd (run plain_env (sample_root False) (changes_spec (Named ''c'')))) (changes_spec (Named ''c'')))
      = snd (run plain_env (sample_root False) (changes_spec (Named ''c''))) \<and>
    set (res_files (fst (run plain_env (snd (apply_changes 0 [Upsert sample_file sample_md None]
        (snd (run plain_env (sample_root False) (changes_spec (Named ''c'')))))) (changes_spec (Named ''c'')))))
      = name_row ` {p \<in> change_path ` set [Upsert sample_file sample_md None].
          tree_get (rtree (snd (apply_changes 0 [Upsert sample_file sample_md None]
            (snd (run plain_env (sample_root False) (changes_spec (Named ''c''))))))) p \<noteq> None \<and> \<not> is_cookie p}"
  by (rule named_cursor_advances [OF sample_root_reach [of tiny_serde no_codec] sample_root_room
      prod.collapse [symmetric] prod.collapse [symmetric] prod.collapse [symmetric] prod.collapse [symmetric]])

text \<open>
  C8. A fresh instance hides nothing: when a query is flagged as a fresh instance, because it has no
  clock, its clock is foreign to a jj root, or its clock predates the index, its \<^verbatim>\<open>since\<close> clause drops no
  file: the answer lists the same rows as the query without the clause.
\<close>

theorem fresh_instance_lists_everything:
  assumes "root_reach S C r" and "fresh_instance r q" and "\<And>v m. q_since q \<noteq> Some (Scm v m)"
  shows "res_files (fst (run E r q)) = res_files (fst (run E r (q\<lparr>q_since := None\<rparr>)))"
proof -
  have scm: "resolve_scm_set E r q = None"
    using assms(3) by (auto simp: resolve_scm_set_def split: option.splits clock_spec.splits)
  have fresh': "fresh_instance r (q\<lparr>q_since := None\<rparr>)"
    by (simp add: fresh_instance_def since_tick_def resolve_named_cursor_def)
  have "query_entry E r q pe = query_entry E r (q\<lparr>q_since := None\<rparr>) pe" if "pe \<in> set (entries (rtree r))" for pe
  proof -
    obtain p e where pe: "pe = (p, e)" by (cases pe)
    then have get: "tree_get (rtree r) p = Some e"
      using that entries_get [OF reach_facts(1) [OF assms(1)]] by simp
    have "since_tick r q = None \<or> the (since_tick r q) < oclock e"
      using fresh_since_passes [OF root_reach_floor [OF assms(1)] assms(2) _ get]
      by (cases "since_tick r q") auto
    then show ?thesis unfolding pe by (rule query_entry_without_since) (rule scm)
  qed
  then have "List.map_filter (query_entry E r q) (entries (rtree r))
      = List.map_filter (query_entry E r (q\<lparr>q_since := None\<rparr>)) (entries (rtree r))"
    by (rule map_filter_cong)
  then show ?thesis using assms(2) fresh' by (simp add: run_def Let_def)
qed

theorem fresh_instance_lists_everything_witness:
  "res_files (fst (run plain_env sample_events (changes_spec (Tick 0))))
    = res_files (fst (run plain_env sample_events ((changes_spec (Tick 0))\<lparr>q_since := None\<rparr>)))"
proof (rule fresh_instance_lists_everything [OF sample_events_reach [of tiny_serde no_codec]])
  show "fresh_instance sample_events (changes_spec (Tick 0))"
    by (simp add: fresh_instance_def since_tick_def resolve_named_cursor_def changes_spec_def sample_events_facts)
qed (simp add: changes_spec_def)

text \<open>
  The query the daemon recognises as jj's file-system monitor never returns anything of the
  repository's own storage: no entry below \<^verbatim>\<open>.git\<close> or \<^verbatim>\<open>.jj\<close>, nor these directories themselves, whatever
  the case flags of the query are.
\<close>

theorem jj_query_skips_vcs:
  assumes "is_jj_fsmonitor_query q" and "q_relative_root q = None"
    and "d = ''.git'' \<or> d = ''.jj''" and "plain_path (Normal d # rest)"
  shows "query_entry E r q (Normal d # rest, e) = None"
proof -
  have "\<not> eval E (q_expression q) e
      \<lparr> cx_clock = rclock r, cx_rel = Normal d # rest, cx_case_sensitive = q_case_sensitive q \<rparr>"
    by (rule jj_query_excludes [OF assms(1) _ assms(4)]) (use assms(3) in \<open>simp_all add: vcs_dir_def\<close>)
  then show ?thesis using assms(2) by (simp add: query_entry_def display_rel_def)
qed

definition jj_query :: wire_value where
  "jj_query = VObject [(''expression'', VArray [VString ''not'', VArray [VString ''anyof'',
     VArray [VString ''name'', VArray [VString ''.git'', VString ''.jj''], VString ''wholename''],
     VArray [VString ''dirname'', VString ''.git''], VArray [VString ''dirname'', VString ''.jj'']]]),
     (''fields'', VArray [VString ''name''])]"

definition jj_spec :: "(string, string) query_spec" where
  "jj_spec = (changes_spec Epoch)\<lparr> q_since := None,
     q_expression := ENot (EAnyOf [EName [''.git'', ''.jj''] Wholename True, EDirname ''.git'' True, EDirname ''.jj'' True]) \<rparr>"

theorem jj_query_skips_vcs_witness:
  "query_entry plain_env (sample_root True) jj_spec ([Normal ''.git'', Normal ''HEAD''], from_metadata sample_md None 5) = None"
  by (rule jj_query_skips_vcs)
    (simp_all add: jj_spec_def changes_spec_def is_jj_fsmonitor_query_def plain_name_def DOT_def SLASH_def)



text \<open>
  Whatever a query returns can be sent: if the entries of the index carry metadata of the widths
  the operating system uses, the response to any query is a well-formed protocol value (integers in
  range, strings UTF-8 even for file names that are not, distinct keys).
\<close>

theorem query_response_wellformed:
  assumes "\<And>pe. pe \<in> set (entries (rtree r)) \<Longrightarrow> entry_ok (snd pe)"
  shows "value_wf (result_to_pdu (rpath r) (fst (run E r q)))"
proof -
  have "value_wf v" if "v \<in> set (res_files (fst (run E r q)))" for v
    using that assms by (auto simp: run_def Let_def set_map_filter intro: query_entry_wf split: if_splits)
  moreover have "utf8_valid (res_clock (fst (run E r q)))"
    by (simp add: run_def Let_def utf8_valid_clock)
  moreover have "utf8_valid WATCHMAN_COMPAT_VERSION" by (simp add: WATCHMAN_COMPAT_VERSION_def)
  ultimately show ?thesis by (simp add: result_to_pdu_def im_wf_def)
qed

theorem query_response_wellformed_witness:
  "value_wf (result_to_pdu (rpath (sample_root False)) (fst (run plain_env
    ((sample_root False)\<lparr>rtree := \<lparr> entries = [(sample_file, from_metadata sample_md None 5)], live = 1, tombstones = 0 \<rparr>\<rparr>) jj_spec)))"
proof -
  have "value_wf (result_to_pdu (rpath ((sample_root False)\<lparr>rtree := \<lparr> entries = [(sample_file, from_metadata sample_md None 5)], live = 1, tombstones = 0 \<rparr>\<rparr>))
    (fst (run plain_env ((sample_root False)\<lparr>rtree := \<lparr> entries = [(sample_file, from_metadata sample_md None 5)], live = 1, tombstones = 0 \<rparr>\<rparr>) jj_spec)))"
    by (rule query_response_wellformed) (auto simp: sample_md_def intro!: entry_ok_from_metadata)
  then show ?thesis by simp
qed

text \<open>
  With a relative root the content hash is taken from the wrong file: the row of the entry
  \<open>base/d\<close> carries the hash of \<open>d\<close> directly below the watched root, because the path handed to the hasher
  has already lost the relative root.
\<close>

theorem sha1_ignores_relative_root:
  assumes "q_relative_root q = Some base" and "FContentSha1Hex \<in> set (q_fields q)"
    and "query_entry E r q (base @ d, e) = Some row"
  shows "\<exists>m. row = VObject m \<and> im_get m ''content.sha1hex'' = Some (sha1_of E (path_join (rpath r) d))"
proof -
  have "row = render_row E (rpath r) d e (q_fields q) (rclock r)"
    using assms(1,3) by (auto simp: query_entry_def display_rel_def split: if_splits option.splits)
  moreover have "q_fields q \<noteq> [FName]" using assms(2) by auto
  ultimately obtain m where "row = VObject m"
    "\<forall>f. im_get m (wire_name f) = (if f \<in> set (q_fields q) then Some (render_field E (rpath r) d e (rclock r) f) else None)"
    using render_row_get by metis
  then show ?thesis using assms(2) by (metis render_field.simps(25) wire_name.simps(25))
qed

definition sha1_spec :: "(string, string) query_spec" where
  "sha1_spec = (changes_spec Epoch)\<lparr> q_since := None, q_fields := [FName, FContentSha1Hex],
     q_relative_root := Some [Normal ''sub''] \<rparr>"

theorem sha1_ignores_relative_root_witness:
  "\<exists>m. render_row plain_env (rpath (sample_root False)) [Normal ''a''] (from_metadata sample_md None 5)
      [FName, FContentSha1Hex] (rclock (sample_root False)) = VObject m \<and>
    im_get m ''content.sha1hex'' = Some (sha1_of plain_env (path_join (rpath (sample_root False)) [Normal ''a'']))"
  by (rule sha1_ignores_relative_root [where q = sha1_spec and base = "[Normal ''sub'']"])
    (simp_all add: sha1_spec_def changes_spec_def query_entry_def display_rel_def since_tick_def resolve_named_cursor_def
      is_cookie_def path_file_name_def starts_with_def COOKIE_PREFIX_def from_utf8_lossy_Cons_ascii accept_def
      resolve_scm_set_def)

end
