(* ===== verification/Jj_Scope.thy ===== *)
theory Jj_Scope
  imports File_Tree
begin

text \<open>
  The ignore-rule cache of a jj root (\<^verbatim>\<open>daemon/jj_scope.rs\<close>). Reading and matching a \<^verbatim>\<open>.gitignore\<close> file
  is the crate \<^verbatim>\<open>ignore\<close>, and the disk is outside the program: both are fields of \<open>fs_env\<close>. The cache is
  shown to be transparent: with it the search gives the answer of the search without it.
\<close>

datatype gi_verdict = GNone | GIgnore | GWhitelist

text \<open>
  \<open>fs_stat\<close> is \<^verbatim>\<open>symlink_metadata\<close>, \<open>fs_readlink\<close> the raw link target, \<open>fs_is_file\<close> and \<open>fs_is_dir\<close> follow
  links. \<open>gi_build dir\<close> compiles the rules of \<open>dir/.gitignore\<close> (\<open>None\<close>: they do not compile).
\<close>

record 'i fs_env =
  fs_stat :: "path \<Rightarrow> metadata option"
  fs_readlink :: "path \<Rightarrow> string option"
  fs_is_file :: "path \<Rightarrow> bool"
  fs_is_dir :: "path \<Rightarrow> bool"
  gi_build :: "path \<Rightarrow> 'i option"
  gi_matched :: "'i \<Rightarrow> path \<Rightarrow> bool \<Rightarrow> gi_verdict"

type_synonym 'i jj_scope = "(path, 'i option) imap"

definition GITIGNORE :: path_component where "GITIGNORE = Normal ''.gitignore''"
definition MAX_RULES :: nat where "MAX_RULES = 8192"

section \<open>The cached search\<close>

definition scope_clear :: "'i jj_scope \<Rightarrow> 'i jj_scope" where
  "scope_clear rules = []"

definition load_rules :: "'i fs_env \<Rightarrow> path \<Rightarrow> 'i option" where
  "load_rules E dir = (if fs_is_file E (path_join dir [GITIGNORE]) then gi_build E dir else None)"

definition scope_matcher :: "'i fs_env \<Rightarrow> path \<Rightarrow> 'i jj_scope \<Rightarrow> 'i option \<times> 'i jj_scope" where
  "scope_matcher E dir rules0 =
     (let rules = (if MAX_RULES \<le> length rules0 \<and> \<not> im_contains dir rules0 then scope_clear rules0 else rules0)
      in case im_get rules dir of
           Some m \<Rightarrow> (m, rules)
         | None \<Rightarrow> (let m = load_rules E dir in (m, im_insert dir m rules)))"

definition apply_verdict :: "'i fs_env \<Rightarrow> 'i option \<Rightarrow> path \<Rightarrow> bool \<Rightarrow> bool" where
  "apply_verdict E m dir ignored =
     (case m of
        None \<Rightarrow> ignored
      | Some g \<Rightarrow>
          (case gi_matched E g dir True of GNone \<Rightarrow> ignored | v \<Rightarrow> v = GIgnore))"

fun scan_ancestors :: "'i fs_env \<Rightarrow> path \<Rightarrow> path list \<Rightarrow> bool \<Rightarrow> 'i jj_scope \<Rightarrow> bool \<times> 'i jj_scope" where
  "scan_ancestors E dir [] ignored rules = (ignored, rules)"
| "scan_ancestors E dir (a # as) ignored rules =
     (let (m, rules') = scope_matcher E a rules
      in scan_ancestors E dir as (apply_verdict E m dir ignored) rules')"

fun ignored_loop ::
  "'i fs_env \<Rightarrow> path \<Rightarrow> bool \<Rightarrow> path list \<Rightarrow> path \<Rightarrow> path \<Rightarrow> 'i jj_scope \<Rightarrow> path option \<times> 'i jj_scope" where
  "ignored_loop E root is_dir0 ancestors prefix [] rules = (None, rules)"
| "ignored_loop E root is_dir0 ancestors prefix (c # cs) rules =
     (let prefix' = prefix @ [c] in
      if \<not> (cs \<noteq> [] \<or> is_dir0) then (None, rules)
      else (let dir = path_join root prefix';
                (ignored, rules') = scan_ancestors E dir ancestors False rules
            in if ignored then (Some prefix', rules')
               else ignored_loop E root is_dir0 (ancestors @ [dir]) prefix' cs rules'))"

definition ignored_directory ::
  "'i fs_env \<Rightarrow> path \<Rightarrow> path \<Rightarrow> bool \<Rightarrow> 'i jj_scope \<Rightarrow> path option \<times> 'i jj_scope" where
  "ignored_directory E root rel target_is_dir rules =
     ignored_loop E root target_is_dir [root] [] rel rules"

section \<open>The search without a cache\<close>

text \<open>
  A directory is ignored when the last rule file above it that has an opinion says so; the result is
  the outermost ignored directory on the path.
\<close>

definition dir_ignored :: "'i fs_env \<Rightarrow> path \<Rightarrow> path \<Rightarrow> bool" where
  "dir_ignored E root dir =
     foldl (\<lambda>ign k. apply_verdict E (load_rules E (path_join root (take k dir))) (path_join root dir) ign)
       False [0..<length dir]"

definition outermost_ignored :: "'i fs_env \<Rightarrow> path \<Rightarrow> path \<Rightarrow> bool \<Rightarrow> path option" where
  "outermost_ignored E root rel target_is_dir =
     (case find (\<lambda>k. (k < length rel \<or> target_is_dir) \<and> dir_ignored E root (take k rel)) [1..<length rel + 1] of
        None \<Rightarrow> None
      | Some k \<Rightarrow> Some (take k rel))"

section \<open>The cache is transparent\<close>

definition scope_ok :: "'i fs_env \<Rightarrow> 'i jj_scope \<Rightarrow> bool" where
  "scope_ok E rules \<longleftrightarrow> im_wf rules \<and> length rules \<le> MAX_RULES \<and> (\<forall>d m. im_get rules d = Some m \<longrightarrow> m = load_rules E d)"

lemma scope_ok_empty: "scope_ok E []"
  by (simp add: scope_ok_def)

lemma scope_matcher_ok:
  assumes "scope_ok E rules"
  shows "fst (scope_matcher E dir rules) = load_rules E dir \<and> scope_ok E (snd (scope_matcher E dir rules))"
proof -
  define rs where "rs = (if MAX_RULES \<le> length rules \<and> \<not> im_contains dir rules then scope_clear rules else rules)"
  have ok: "scope_ok E rs" and room: "im_get rs dir = None \<Longrightarrow> length rs < MAX_RULES"
    using assms by (auto simp: rs_def scope_ok_def scope_clear_def MAX_RULES_def im_contains_def)
  show ?thesis
  proof (cases "im_get rs dir")
    case None
    then have "im_get (im_insert dir (load_rules E dir) rs) = (im_get rs)(dir \<mapsto> load_rules E dir)"
      by (simp add: store_simps)
    then show ?thesis
      using None ok room [OF None]
      by (auto simp: scope_matcher_def scope_ok_def Let_def im.len_put simp flip: rs_def)
  next
    case (Some m)
    then show ?thesis using ok by (simp add: scope_matcher_def scope_ok_def Let_def flip: rs_def)
  qed
qed

lemma scan_ancestors_ok:
  assumes "scope_ok E rules"
  shows "fst (scan_ancestors E dir as ign rules) = foldl (\<lambda>i a. apply_verdict E (load_rules E a) dir i) ign as
    \<and> scope_ok E (snd (scan_ancestors E dir as ign rules))"
  using assms
proof (induction as arbitrary: ign rules)
  case (Cons a as)
  obtain m rs where m: "scope_matcher E a rules = (m, rs)" by (cases "scope_matcher E a rules")
  with scope_matcher_ok [OF Cons.prems, of a] have "m = load_rules E a" "scope_ok E rs" by simp_all
  with Cons.IH [of rs] m show ?case by simp
qed simp

lemma foldl_map_upt: "foldl (\<lambda>i a. f a i) s (map g ks) = foldl (\<lambda>i k. f (g k) i) s ks"
  by (induction ks arbitrary: s) auto

text \<open>The loop with its ancestors spelled out, against the reference search.\<close>

lemma ignored_loop_ok:
  assumes "scope_ok E rules"
  shows "fst (ignored_loop E root d (map (\<lambda>k. path_join root (take k prefix)) [0..<Suc (length prefix)]) prefix cs rules)
      = (case find (\<lambda>k. (k < length (prefix @ cs) \<or> d) \<and> dir_ignored E root (take k (prefix @ cs)))
            [Suc (length prefix)..<Suc (length (prefix @ cs))] of
           None \<Rightarrow> None | Some k \<Rightarrow> Some (take k (prefix @ cs)))
    \<and> scope_ok E (snd (ignored_loop E root d (map (\<lambda>k. path_join root (take k prefix)) [0..<Suc (length prefix)]) prefix cs rules))"
  using assms
proof (induction cs arbitrary: prefix rules)
  case (Cons c cs)
  let ?p = "prefix @ [c]" and ?n = "length prefix"
  let ?as = "map (\<lambda>k. path_join root (take k prefix)) [0..<Suc ?n]"
  obtain ign rs where sc: "scan_ancestors E (path_join root ?p) ?as False rules = (ign, rs)"
    by (cases "scan_ancestors E (path_join root ?p) ?as False rules")
  have as: "?as = map (\<lambda>k. path_join root (take k ?p)) [0..<length ?p]" by simp
  have s: "ign = dir_ignored E root ?p" "scope_ok E rs"
    using scan_ancestors_ok [OF Cons.prems, of "path_join root ?p" ?as False] sc
    unfolding as dir_ignored_def foldl_map_upt by simp_all
  have upt: "[Suc ?n..<Suc (length (prefix @ c # cs))] = Suc ?n # [Suc (Suc ?n)..<Suc (length (prefix @ c # cs))]"
    by (simp add: upt_rec)
  have tk: "take (Suc ?n) (prefix @ c # cs) = ?p" by simp
  have as': "?as @ [path_join root ?p] = map (\<lambda>k. path_join root (take k ?p)) [0..<Suc (length ?p)]" by simp
  show ?case
  proof (cases "cs \<noteq> [] \<or> d")
    case False
    then show ?thesis using Cons.prems by (simp add: upt)
  next
    case True
    then have lt: "Suc ?n < length (prefix @ c # cs) \<or> d" by (cases cs) auto
    show ?thesis
    proof (cases ign)
      case ig: True
      then show ?thesis
        using True sc s lt unfolding upt by (simp add: Let_def del: upt_Suc)
    next
      case ig: False
      have step: "ignored_loop E root d ?as prefix (c # cs) rules
          = ignored_loop E root d (map (\<lambda>k. path_join root (take k ?p)) [0..<Suc (length ?p)]) ?p cs rs"
        using True sc ig unfolding as' [symmetric] by (simp add: Let_def del: upt_Suc)
      have "\<not> dir_ignored E root (take (Suc ?n) (prefix @ c # cs))" using s ig tk by simp
      then show ?thesis
        using Cons.IH [OF s(2), of ?p] unfolding upt step
        by (simp del: upt_Suc ignored_loop.simps take_append cong: option.case_cong)
    qed
  qed
qed simp

lemma ignored_directory_ok:
  assumes "scope_ok E rules"
  shows "fst (ignored_directory E root rel d rules) = outermost_ignored E root rel d \<and>
    scope_ok E (snd (ignored_directory E root rel d rules))"
  using ignored_loop_ok [OF assms, of root d "[]" rel]
  unfolding ignored_directory_def outermost_ignored_def append_Nil
  by (simp add: path_join_def is_absolute_def)

lemma find_Some_in: "find P xs = Some x \<Longrightarrow> x \<in> set xs \<and> P x"
  by (induction xs) (auto split: if_splits)

lemma outermost_ignored_prefix:
  assumes "outermost_ignored E root rel d = Some p"
  shows "\<exists>rest. rel = p @ rest" "p \<noteq> []" "dir_ignored E root p"
proof -
  from assms obtain k where k: "p = take k rel" "k \<in> set [1..<length rel + 1]" "dir_ignored E root (take k rel)"
    by (auto simp: outermost_ignored_def simp del: upt_Suc split: option.splits dest!: find_Some_in)
  then show "\<exists>rest. rel = p @ rest" by (metis append_take_drop_id)
  show "p \<noteq> []" using k by auto
  show "dir_ignored E root p" using k by simp
qed

section \<open>Properties\<close>


definition target_ignored_env :: "unit fs_env" where
  "target_ignored_env =
     \<lparr> fs_stat = (\<lambda>_. None), fs_readlink = (\<lambda>_. None), fs_is_file = (\<lambda>p. p = [RootDir, Normal ''w'', GITIGNORE]),
       fs_is_dir = (\<lambda>_. True), gi_build = (\<lambda>_. Some ()),
       gi_matched = (\<lambda>_ p _. if last p = Normal ''target'' then GIgnore else GNone) \<rparr>"


end
