(* ===== verification/Root_Triggers.thy ===== *)
theory Root_Triggers
  imports Root_Inv
begin

text \<open>
  Trigger persistence (\<^verbatim>\<open>persisted\<close>, \<^verbatim>\<open>persist_triggers\<close> and \<^verbatim>\<open>load_persisted_triggers\<close> of \<^verbatim>\<open>daemon/root.rs\<close>):
  what survives a restart of the daemon.
\<close>

section \<open>One trigger\<close>

lemma to_serde_small_ints:
  assumes "number_laws S" and "value_wf v"
  shows "small_ints S (to_serde S v)"
  using assms(2)
proof (induction v rule: wire_value_induct)
  case (Int i)
  then show ?case using assms(1) by (simp add: number_laws_def)
next
  case (Real f)
  then show ?case using assms(1) by (auto simp: number_laws_def split: option.splits)
next
  case (Object m)
  then show ?case by (fastforce dest!: im_set_inserts)
next
  case (Template ks rows)
  then show ?case by (fastforce dest!: im_set_inserts set_zip_rightD)
qed simp_all

text \<open>What the persisted form keeps of a trigger: its expression as JSON carries it.\<close>

definition trigger_norm :: "trigger \<Rightarrow> trigger" where
  "trigger_norm t = t\<lparr>tr_expression := json_norm (tr_expression t)\<rparr>"

lemma into_from_trigger:
  assumes "number_laws S" and "value_wf (tr_expression t)"
  shows "into_trigger S (from_trigger S t) = trigger_norm t"
proof -
  have "json_to_value S (to_serde S (tr_expression t)) = json_norm (tr_expression t)"
    using assms by (simp add: json_to_value_from_serde to_serde_small_ints from_to_serde)
  then show ?thesis
    by (intro trigger.equality)
      (auto simp: into_trigger_def from_trigger_def trigger_norm_def root_print.pr_is_to_serde root_read.rd_is_json_to_value split: option.splits trigger_stdin.splits)
qed

section \<open>Saving and loading\<close>

definition save_ok :: "save_env" where
  "save_ok = \<lparr> mkdir_ok = True, write_ok = True, rename_ok = True \<rparr>"

text \<open>The JSON library reads back the list it has written.\<close>

definition codec_reads_back :: "'n trigger_codec \<Rightarrow> 'n persisted_trigger list \<Rightarrow> bool" where
  "codec_reads_back C items \<longleftrightarrow> (\<exists>bytes. to_vec C items = Some bytes \<and> of_slice C bytes = Some items)"

definition persisted_items :: "'n serde \<Rightarrow> root \<Rightarrow> 'n persisted_trigger list" where
  "persisted_items S r = map (\<lambda>(k, t). from_trigger S t) (triggers r)"

lemma load_after_persist:
  assumes laws: "number_laws S" and codec: "codec_reads_back C (persisted_items S r)"
    and dir: "trigger_persist_dir r \<noteq> None" "trigger_persist_dir r' \<noteq> None"
    and r: "tables_wf r" "\<forall>t \<in> set (list_triggers r). value_wf (tr_expression t)"
    and r': "triggers r' = []"
  shows "triggers (load_persisted_triggers S C (persist_triggers S C save_ok r disk) r')
    = map (\<lambda>(k, t). (k, trigger_norm t)) (triggers r)"
proof -
  obtain d d' where d: "trigger_persist_dir r = Some d" "trigger_persist_dir r' = Some d'" using dir by auto
  obtain bytes where b: "to_vec C (persisted_items S r) = Some bytes" "of_slice C bytes = Some (persisted_items S r)"
    using codec by (auto simp: codec_reads_back_def)
  have "into_trigger S (from_trigger S t) = trigger_norm t \<and> tr_name (trigger_norm t) = k"
    if "(k, t) \<in> set (triggers r)" for k t
    using that r laws by (force simp: tables_wf_def list_triggers_def into_from_trigger trigger_norm_def)
  then have m: "map (\<lambda>pt. let t = into_trigger S pt in (tr_name t, t)) (persisted_items S r)
      = map (\<lambda>(k, t). (k, trigger_norm t)) (triggers r)"
    by (auto simp: persisted_items_def Let_def)
  have wf: "im_wf (map (\<lambda>(k, t). (k, trigger_norm t)) (triggers r))"
    using r by (simp add: im_wf_map tables_wf_def)
  have "persist_triggers S C save_ok r disk = Some bytes"
    using d b(1) by (simp add: persist_triggers_def save_ok_def persisted_items_def)
  then have "triggers (load_persisted_triggers S C (persist_triggers S C save_ok r disk) r')
      = im_inserts (map (\<lambda>pt. let t = into_trigger S pt in (tr_name t, t)) (persisted_items S r)) []"
    using d b(2) r' by (simp add: load_persisted_triggers_def)
  then show ?thesis unfolding m im_inserts_id [OF wf] .
qed

lemma persist_dir_frame:
  "trigger_persist_dir (r\<lparr>triggers := ts\<rparr>) = trigger_persist_dir r"
  by (simp add: trigger_persist_dir_def)

section \<open>Properties\<close>

text \<open>
  C19. Triggers survive a restart: after installing a trigger with a working file system, a freshly
  registered root of the same path loads exactly the installed triggers, each under its name and with
  its expression as JSON carries it, provided the JSON library reads back the list it wrote.
\<close>

theorem triggers_survive_restart:
  assumes "root_reach S C r" and "number_laws S" and "trigger_persist_dir r \<noteq> None"
    and "install_trigger S C save_ok t r disk = (r1, disk1)"
    and "codec_reads_back C (persisted_items S r1)"
    and "\<forall>t \<in> set (list_triggers r1). value_wf (tr_expression t)"
    and "fresh = root_new now pid0 (rpath r) number pool (state_dir r) ig jj"
  shows "triggers (load_persisted_triggers S C disk1 fresh) = map (\<lambda>(k, t). (k, trigger_norm t)) (triggers r1)
    \<and> im_get (triggers (load_persisted_triggers S C disk1 fresh)) (tr_name t) = Some (trigger_norm t)"
proof -
  have r1: "r1 = r\<lparr>triggers := im_insert (tr_name t) t (triggers r)\<rparr>"
    and d1: "disk1 = persist_triggers S C save_ok r1 disk"
    using assms(4) by (auto simp: install_trigger_def Let_def)
  have "tables_wf r" using root_reach_inv [OF assms(1)] by (simp add: root_inv_def)
  then have wf: "tables_wf r1" using tables_install [of r S C save_ok t disk] assms(4) by simp
  have dir: "trigger_persist_dir r1 \<noteq> None" "trigger_persist_dir fresh \<noteq> None" "triggers fresh = []"
    using assms(3) by (simp_all add: r1 assms(7) persist_dir_frame) (simp_all add: trigger_persist_dir_def root_new_def)
  have l: "triggers (load_persisted_triggers S C disk1 fresh) = map (\<lambda>(k, t). (k, trigger_norm t)) (triggers r1)"
    unfolding d1 by (rule load_after_persist [OF assms(2,5) dir(1,2) wf assms(6) dir(3)])
  have "map_of (map (\<lambda>(k, t). (k, trigger_norm t)) m) k = map_option trigger_norm (map_of m k)" for m and k :: string
    by (induction m) auto
  moreover have "im_get (triggers r1) (tr_name t) = Some t" by (simp add: r1 im.put_get_same)
  ultimately show ?thesis unfolding l by simp
qed

definition sample_trigger :: trigger where
  "sample_trigger = \<lparr> tr_name = ''build'', tr_command = [''make''], tr_expression = VBytes [97],
     tr_append_files = True, tr_stdin = Some JsonName, tr_max_files_stdin = Some 3 \<rparr>"

definition sample_saved :: root where
  "sample_saved = root_new 1700000000 42 [RootDir, Normal ''w''] 1 1 (Some [RootDir, Normal ''s'']) default_ignores False"

definition sample_codec :: "(int + f64) trigger_codec" where
  "sample_codec = \<lparr> to_vec = (\<lambda>items. if items = [from_trigger tiny_serde sample_trigger] then Some [91, 93] else None),
     of_slice = (\<lambda>bytes. if bytes = [91, 93] then Some [from_trigger tiny_serde sample_trigger] else None) \<rparr>"

lemma sample_saved_fields [simp]:
  "triggers sample_saved = []" "state_dir sample_saved = Some [RootDir, Normal ''s'']"
  "rpath sample_saved = [RootDir, Normal ''w'']"
  by (simp_all add: sample_saved_def root_new_def)

theorem triggers_survive_restart_witness:
  "triggers (load_persisted_triggers tiny_serde sample_codec (Some [91, 93])
      (root_new 1800000000 43 [RootDir, Normal ''w''] 1 1 (Some [RootDir, Normal ''s'']) default_ignores False))
      = map (\<lambda>(k, t). (k, trigger_norm t)) (triggers (sample_saved\<lparr>triggers := [(''build'', sample_trigger)]\<rparr>))
    \<and> im_get (triggers (load_persisted_triggers tiny_serde sample_codec (Some [91, 93])
      (root_new 1800000000 43 [RootDir, Normal ''w''] 1 1 (Some [RootDir, Normal ''s'']) default_ignores False)))
      (tr_name sample_trigger) = Some (trigger_norm sample_trigger)"
proof (rule triggers_survive_restart [where disk = None and r = sample_saved and t = sample_trigger, OF _ tiny_number_laws])
  have n: "tr_name sample_trigger = ''build''" by (simp add: sample_trigger_def)
  show "root_reach tiny_serde sample_codec sample_saved"
    unfolding sample_saved_def by (rule root_reach.init) simp_all
  show "install_trigger tiny_serde sample_codec save_ok sample_trigger sample_saved None
      = (sample_saved\<lparr>triggers := [(''build'', sample_trigger)]\<rparr>, Some [91, 93])"
    by (simp add: install_trigger_def persist_triggers_def trigger_persist_dir_def save_ok_def sample_codec_def
        Let_def n)
qed (simp_all add: trigger_persist_dir_def codec_reads_back_def persisted_items_def sample_codec_def list_triggers_def,
    simp add: sample_trigger_def)

end
