(* ===== verification/Watcher.thy ===== *)
theory Watcher
  imports Jj_Scope Root_Triggers
begin

text \<open>
  The file-system watcher (\<^verbatim>\<open>daemon/watcher.rs\<close>): the configuration of a root, the initial crawl, the filter
  of ignored paths, and the translation of notification events into a batch of changes. A directory
  tree on disk is the datatype \<open>fs_node\<close>; notification events are those of the crate \<^verbatim>\<open>notify\<close>. The
  threads, channels and the settling delay of \<^verbatim>\<open>spawn\<close> are not modelled: a batch is the list of events
  that were collected.
\<close>

section \<open>Configuration\<close>

record watch_config =
  cfg_ignores :: watch_ignores
  cfg_jj_events :: bool

fun json_get :: "string \<Rightarrow> 'n json \<Rightarrow> 'n json option" where
  "json_get k (JObject m) = im_get m k"
| "json_get k _ = None"

fun json_array :: "'n json \<Rightarrow> 'n json list option" where
  "json_array (JArray a) = Some a"
| "json_array _ = None"

fun json_str :: "'n json \<Rightarrow> string option" where
  "json_str (JString s) = Some s"
| "json_str _ = None"

definition config_strings :: "string \<Rightarrow> 'n json \<Rightarrow> string list option" where
  "config_strings key parsed =
     map_option (List.map_filter json_str) (Option.bind (json_get key parsed) json_array)"

text \<open>\<open>jj_dir\<close>: whether \<^verbatim>\<open>.jj\<close> is a directory of the root; \<open>bytes\<close>: the content of \<^verbatim>\<open>.watchmanconfig\<close>.\<close>

definition load_watchman_config :: "'n serde \<Rightarrow> bool \<Rightarrow> byte list option \<Rightarrow> watch_config" where
  "load_watchman_config S jj_dir bytes =
     (case bytes of
        None \<Rightarrow> \<lparr> cfg_ignores = default_ignores, cfg_jj_events = jj_dir \<rparr>
      | Some bs \<Rightarrow>
          (case from_text S bs of
             None \<Rightarrow> \<lparr> cfg_ignores = default_ignores, cfg_jj_events = jj_dir \<rparr>
           | Some parsed \<Rightarrow>
               (let ig = default_ignores;
                    ig = (case config_strings ''ignore_dirs'' parsed of None \<Rightarrow> ig | Some d \<Rightarrow> ig\<lparr>ig_dirs := d\<rparr>);
                    ig = (case config_strings ''ignore_vcs'' parsed of None \<Rightarrow> ig | Some v \<Rightarrow> ig\<lparr>ig_vcs := v\<rparr>)
                in \<lparr> cfg_ignores = ig, cfg_jj_events = jj_dir \<rparr>)))"

section \<open>The initial crawl\<close>

text \<open>
  A file on disk: its metadata (\<open>None\<close> if it cannot be read), its raw link target, and the
  children \<^verbatim>\<open>read_dir\<close> lists (\<open>None\<close> if it fails).
\<close>

datatype fs_node = FsNode (nd_stat: "metadata option") (nd_link: "string option")
  (nd_children: "(string \<times> fs_node) list option")

definition link_target :: "metadata \<Rightarrow> string option \<Rightarrow> string option" where
  "link_target md raw = (if md_type md = FtSymlink then map_option from_utf8_lossy raw else None)"

definition name_in :: "string list \<Rightarrow> string \<Rightarrow> bool" where
  "name_in names n = list_ex (\<lambda>d. d = from_utf8_lossy n) names"

fun walk :: "watch_ignores \<Rightarrow> path \<Rightarrow> bool \<Rightarrow> fs_node \<Rightarrow> scan_entry list"
  and walk_entries :: "watch_ignores \<Rightarrow> path \<Rightarrow> bool \<Rightarrow> (string \<times> fs_node) list \<Rightarrow> scan_entry list" where
  "walk ig rel_dir shallow (FsNode st ln None) = []"
| "walk ig rel_dir shallow (FsNode st ln (Some es)) = walk_entries ig rel_dir shallow es"
| "walk_entries ig rel_dir shallow [] = []"
| "walk_entries ig rel_dir shallow ((name, node) # es) =
     (let rel = rel_dir @ [Normal name] in
      if name_in (ig_dirs ig) name then walk_entries ig rel_dir shallow es
      else (case nd_stat node of
              None \<Rightarrow> walk_entries ig rel_dir shallow es
            | Some md \<Rightarrow>
                (rel, md, link_target md (nd_link node)) #
                (if md_type md = FtDir \<and> \<not> shallow then walk ig rel (name_in (ig_vcs ig) name) node else [])
                @ walk_entries ig rel_dir shallow es))"

definition initial_scan :: "watch_ignores \<Rightarrow> fs_node \<Rightarrow> scan_entry list" where
  "initial_scan ig node = walk ig [] False node"

section \<open>The filter on events\<close>

definition component_names :: "path \<Rightarrow> string list" where
  "component_names rel =
     map (\<lambda>c. from_utf8_lossy (case c of RootDir \<Rightarrow> [SLASH] | _ \<Rightarrow> component_str c)) rel"

fun vcs_too_deep :: "string list \<Rightarrow> string list \<Rightarrow> bool" where
  "vcs_too_deep vcs [] = False"
| "vcs_too_deep vcs (s # rest) = (if list_ex (\<lambda>d. d = s) vcs then 1 < length rest else vcs_too_deep vcs rest)"

definition should_ignore :: "path \<Rightarrow> watch_ignores \<Rightarrow> bool" where
  "should_ignore rel ig =
     (let names = component_names rel in
      list_ex (\<lambda>s. list_ex (\<lambda>d. d = s) (ig_dirs ig)) names \<or> vcs_too_deep (ig_vcs ig) names)"

definition is_jj_internal :: "path \<Rightarrow> bool" where
  "is_jj_internal rel = (case rel of c # _ \<Rightarrow> c = Normal ''.git'' \<or> c = Normal ''.jj'' | [] \<Rightarrow> False)"

section \<open>Events\<close>

datatype event_kind = EvAccessCloseWrite | EvAccessOther | EvRemove | EvOther

record notify_event =
  ne_kind :: event_kind
  ne_paths :: "path list"
  ne_rescan :: bool

text \<open>The state of the event loop: the root, the batch under construction and the rule cache.\<close>

record 'i collect =
  co_root :: root
  co_out :: "path_change list"
  co_scope :: "'i jj_scope"

definition push_change :: "path_change \<Rightarrow> 'i collect \<Rightarrow> 'i collect" where
  "push_change c s = s\<lparr>co_out := co_out s @ [c]\<rparr>"

text \<open>Invalidation of the index: the rules and the batch are forgotten with it.\<close>

definition drop_batch :: "'i collect \<Rightarrow> 'i collect" where
  "drop_batch s = s\<lparr>co_scope := scope_clear (co_scope s), co_out := []\<rparr>"

definition stat_change :: "'i fs_env \<Rightarrow> path \<Rightarrow> path \<Rightarrow> event_kind \<Rightarrow> path_change" where
  "stat_change E file rel k =
     (if k = EvRemove then Remove rel
      else (case fs_stat E file of
              None \<Rightarrow> Remove rel
            | Some md \<Rightarrow> Upsert rel md (link_target md (fs_readlink E file))))"

definition collect_path :: "'i fs_env \<Rightarrow> bool \<Rightarrow> event_kind \<Rightarrow> path \<Rightarrow> 'i collect \<Rightarrow> 'i collect" where
  "collect_path E jj_mode k file s =
     (case path_strip_prefix (rpath (co_root s)) file of
        None \<Rightarrow> s
      | Some rel \<Rightarrow>
          if rel = [] then s
          else if (jj_mode \<and> is_jj_internal rel) \<or> (\<not> jj_mode \<and> should_ignore rel (ignores (co_root s))) then s
          else if \<not> jj_mode then push_change (stat_change E file rel k) s
          else
            (let is_dir = ((case fs_stat E file of Some md \<Rightarrow> md_type md = FtDir | None \<Rightarrow> False) \<or> k = EvRemove);
                 (hit, scope) = ignored_directory E (rpath (co_root s)) rel is_dir (co_scope s);
                 s1 = s\<lparr>co_scope := scope\<rparr>
             in case hit of
                  Some ignored \<Rightarrow>
                    push_change (Signal (path_join ignored [GITIGNORE]))
                      (if ignored = rel \<and> k = EvRemove then push_change (Remove rel) s1 else s1)
                | None \<Rightarrow>
                    if path_file_name rel = Some ''.gitignore''
                    then drop_batch (s1\<lparr>co_root := snd (invalidate_jj_events (co_root s1))\<rparr>)
                    else push_change (stat_change E file rel k) s1))"

definition collect_event :: "'i fs_env \<Rightarrow> bool \<Rightarrow> notify_event option \<Rightarrow> 'i collect \<Rightarrow> 'i collect" where
  "collect_event E jj_mode ev s =
     (case ev of
        None \<Rightarrow>
          (case invalidate_jj_events (co_root s) of
             (True, r) \<Rightarrow> drop_batch (s\<lparr>co_root := r\<rparr>) | (False, r) \<Rightarrow> s)
      | Some e \<Rightarrow>
          (case (if ne_rescan e then invalidate_jj_events (co_root s) else (False, co_root s)) of
             (True, r) \<Rightarrow> drop_batch (s\<lparr>co_root := r\<rparr>)
           | (False, _) \<Rightarrow>
               if ne_kind e = EvAccessOther then s
               else fold (collect_path E jj_mode (ne_kind e)) (ne_paths e) s))"

text \<open>One iteration of the event loop of \<^verbatim>\<open>spawn\<close>, after the events have settled.\<close>

definition watcher_batch ::
  "'i fs_env \<Rightarrow> nat \<Rightarrow> notify_event option list \<Rightarrow> root \<Rightarrow> 'i jj_scope \<Rightarrow> root \<times> 'i jj_scope" where
  "watcher_batch E arena events r scope =
     (let s = fold (collect_event E (jj_events r)) events \<lparr> co_root = r, co_out = [], co_scope = scope \<rparr>
      in (if co_out s = [] then co_root s else snd (apply_changes arena (co_out s) (co_root s)), co_scope s))"

section \<open>The crawl and the event filter agree\<close>

text \<open>\<open>on_disk node rel md\<close>: the crawl without any filter reaches \<open>rel\<close> through real directories.\<close>

fun on_disk :: "fs_node \<Rightarrow> path \<Rightarrow> bool" where
  "on_disk node [] = False"
| "on_disk node (c # rest) =
     (case nd_children node of
        None \<Rightarrow> False
      | Some es \<Rightarrow>
          (\<exists>(name, child) \<in> set es. c = Normal name \<and>
             (case nd_stat child of
                None \<Rightarrow> False
              | Some md \<Rightarrow> rest = [] \<or> (md_type md = FtDir \<and> on_disk child rest))))"

lemma component_names_simps [simp]:
  "component_names [] = []"
  "component_names (Normal n # rest) = from_utf8_lossy n # component_names rest"
  "length (component_names p) = length p"
  by (simp_all add: component_names_def)

text \<open>The filter seen from below a directory: \<open>shallow\<close> when that directory is version-control storage.\<close>

definition passes :: "watch_ignores \<Rightarrow> bool \<Rightarrow> path \<Rightarrow> bool" where
  "passes ig shallow rel =
     (if shallow then length rel \<le> 1 \<and> \<not> list_ex (\<lambda>s. list_ex (\<lambda>d. d = s) (ig_dirs ig)) (component_names rel)
      else \<not> should_ignore rel ig)"

lemma passes_Cons:
  "passes ig sh (Normal n # rest) \<longleftrightarrow>
     \<not> name_in (ig_dirs ig) n \<and> (rest = [] \<or> (\<not> sh \<and> passes ig (name_in (ig_vcs ig) n) rest))"
  by (cases rest) (auto simp: passes_def should_ignore_def name_in_def Let_def le_Suc_eq)

definition on_entries :: "(string \<times> fs_node) list \<Rightarrow> path \<Rightarrow> bool" where
  "on_entries es q = on_disk (FsNode None None (Some es)) q"

lemma on_disk_children:
  "on_disk (FsNode st ln None) q = False" "on_disk (FsNode st ln (Some es)) q = on_entries es q"
  by (cases q; simp add: on_entries_def)+

lemma on_entries_simps:
  "on_entries [] q = False"
  "on_entries ((name, child) # es) q \<longleftrightarrow> on_entries es q \<or>
     (\<exists>rest md. q = Normal name # rest \<and> nd_stat child = Some md \<and> (rest = [] \<or> (md_type md = FtDir \<and> on_disk child rest)))"
  by (cases q; auto simp: on_entries_def split: option.splits)+

lemma walk_iff:
  "rel \<in> fst ` set (walk ig base sh node) \<longleftrightarrow> (\<exists>q. rel = base @ q \<and> on_disk node q \<and> passes ig sh q)"
  "rel \<in> fst ` set (walk_entries ig base sh es) \<longleftrightarrow> (\<exists>q. rel = base @ q \<and> on_entries es q \<and> passes ig sh q)"
proof (induction ig base sh node and ig base sh es arbitrary: rel and rel rule: walk_walk_entries.induct)
  case (4 ig base sh name node es)
  show ?case
  proof (cases "name_in (ig_dirs ig) name \<or> nd_stat node = None")
    case True
    then have "walk_entries ig base sh ((name, node) # es) = walk_entries ig base sh es"
      by (auto simp: Let_def)
    moreover have "(on_entries ((name, node) # es) q \<and> passes ig sh q) = (on_entries es q \<and> passes ig sh q)" for q
      using True by (auto simp: on_entries_simps passes_Cons)
    moreover have "rel \<in> fst ` set (walk_entries ig base sh es) \<longleftrightarrow>
        (\<exists>q. rel = base @ q \<and> on_entries es q \<and> passes ig sh q)"
      using "4.IH"(1,2) True by blast
    ultimately show ?thesis by simp
  next
    case False
    then obtain md where md: "nd_stat node = Some md" "\<not> name_in (ig_dirs ig) name" by auto
    have rec: "rel \<in> fst ` set (walk ig (base @ [Normal name]) (name_in (ig_vcs ig) name) node) \<longleftrightarrow>
        (\<exists>q. rel = (base @ [Normal name]) @ q \<and> on_disk node q \<and> passes ig (name_in (ig_vcs ig) name) q)"
      if "md_type md = FtDir \<and> \<not> sh" for rel
      using "4.IH"(3) md that by simp
    have rest: "rel \<in> fst ` set (walk_entries ig base sh es) \<longleftrightarrow>
        (\<exists>q. rel = base @ q \<and> on_entries es q \<and> passes ig sh q)" for rel
      using "4.IH"(4) md by simp
    have ne: "\<not> on_disk node []" by simp
    have "rel \<in> fst ` set (walk_entries ig base sh ((name, node) # es)) \<longleftrightarrow>
        rel = base @ [Normal name] \<or>
        (md_type md = FtDir \<and> \<not> sh \<and>
          (\<exists>q. rel = (base @ [Normal name]) @ q \<and> on_disk node q \<and> passes ig (name_in (ig_vcs ig) name) q)) \<or>
        (\<exists>q. rel = base @ q \<and> on_entries es q \<and> passes ig sh q)"
      using md rec [of rel] rest [of rel] by (auto simp: Let_def)
    also have "\<dots> \<longleftrightarrow> (\<exists>q. rel = base @ q \<and> on_entries ((name, node) # es) q \<and> passes ig sh q)"
      using md ne by (auto simp: on_entries_simps passes_Cons)
    finally show ?thesis .
  qed
qed (auto simp: on_disk_children on_entries_simps)

section \<open>Batches\<close>

definition event_changes :: "'i fs_env \<Rightarrow> root \<Rightarrow> notify_event option \<Rightarrow> path_change list" where
  "event_changes E r ev =
     (case ev of
        None \<Rightarrow> []
      | Some e \<Rightarrow>
          if ne_kind e = EvAccessOther then []
          else List.map_filter (\<lambda>file. case path_strip_prefix (rpath r) file of
              None \<Rightarrow> None
            | Some rel \<Rightarrow> if rel = [] \<or> should_ignore rel (ignores r) then None
                else Some (stat_change E file rel (ne_kind e))) (ne_paths e))"

lemma collect_paths_full:
  "fold (collect_path E False k) files s = s\<lparr>co_out := co_out s @ List.map_filter
     (\<lambda>file. case path_strip_prefix (rpath (co_root s)) file of
        None \<Rightarrow> None
      | Some rel \<Rightarrow> if rel = [] \<or> should_ignore rel (ignores (co_root s)) then None
          else Some (stat_change E file rel k)) files\<rparr>"
  by (induction files arbitrary: s)
    (auto simp: collect_path_def push_change_def List.map_filter_def split: option.splits)

lemma collect_event_full:
  assumes "\<not> jj_events (co_root s)"
  shows "collect_event E False ev s = s\<lparr>co_out := co_out s @ event_changes E (co_root s) ev\<rparr>"
  using assms
  by (auto simp: collect_event_def event_changes_def invalidate_jj_events_def collect_paths_full split: option.splits)

lemma collect_events_full:
  assumes "\<not> jj_events (co_root s)"
  shows "fold (collect_event E False) evs s
    = s\<lparr>co_out := co_out s @ concat (map (event_changes E (co_root s)) evs)\<rparr>"
  using assms by (induction evs arbitrary: s) (simp_all add: collect_event_full)

section \<open>Batches of a jj root\<close>

text \<open>How many ticks collecting the events can take.\<close>

definition event_bumps :: "notify_event option \<Rightarrow> nat" where
  "event_bumps ev = (case ev of None \<Rightarrow> 1 | Some e \<Rightarrow> 1 + length (ne_paths e))"

text \<open>What tells jj to look at a path: a change of the path, or a signal for a directory above it.\<close>

fun covers :: "path \<Rightarrow> path_change \<Rightarrow> bool" where
  "covers rel (Upsert p md s) = (p = rel)"
| "covers rel (Remove p) = (p = rel)"
| "covers rel (Signal p) = (\<exists>d rest. d \<noteq> [] \<and> p = d @ [GITIGNORE] \<and> rel = d @ rest)"

definition event_rels :: "root \<Rightarrow> notify_event option \<Rightarrow> path set" where
  "event_rels r ev =
     (case ev of
        None \<Rightarrow> {}
      | Some e \<Rightarrow> if ne_kind e = EvAccessOther then {}
          else {rel. rel \<noteq> [] \<and> \<not> is_jj_internal rel \<and> rpath r @ rel \<in> set (ne_paths e)})"

text \<open>Either the index has been invalidated since the batch began, or nothing happened to the root.\<close>

definition batch_inv :: "root \<Rightarrow> nat \<Rightarrow> path set \<Rightarrow> 'i collect \<Rightarrow> bool" where
  "batch_inv r n seen s \<longleftrightarrow>
     jj_events (co_root s) \<and> rpath (co_root s) = rpath r \<and>
     ticks (rclock r) \<le> ticks (rclock (co_root s)) \<and> ticks (rclock (co_root s)) \<le> ticks (rclock r) + n \<and>
     (ticks (rclock r) < oldest_available_tick (co_root s) \<or>
      (co_root s = r \<and> (\<forall>rel \<in> seen. \<exists>c \<in> set (co_out s). covers rel c)))"

lemma invalidate_jj:
  assumes "jj_events r" "clock_room r"
  shows "fst (invalidate_jj_events r)" "jj_events (snd (invalidate_jj_events r))"
    "rpath (snd (invalidate_jj_events r)) = rpath r"
    "ticks (rclock (snd (invalidate_jj_events r))) = ticks (rclock r) + 1"
    "oldest_available_tick (snd (invalidate_jj_events r)) = ticks (rclock r) + 1"
  using assms by (simp_all add: invalidate_jj_events_def bump_clock_room send_tick_def)

lemma batch_inv_weaken: "batch_inv r n seen s \<Longrightarrow> n \<le> m \<Longrightarrow> seen' \<subseteq> seen \<Longrightarrow> batch_inv r m seen' s"
  by (fastforce simp: batch_inv_def)

lemma batch_inv_dropped:
  assumes "batch_inv r n seen s" and "ticks (rclock r) + n < 2 ^ 64 - 1"
  shows "batch_inv r (n + 1) seen' (drop_batch (s\<lparr>co_root := snd (invalidate_jj_events (co_root s))\<rparr>))"
proof -
  have "jj_events (co_root s)" "clock_room (co_root s)"
    using assms by (auto simp: batch_inv_def clock_room_def)
  from invalidate_jj [OF this] assms show ?thesis
    by (auto simp: batch_inv_def drop_batch_def)
qed

lemma batch_inv_push:
  assumes "batch_inv r n seen s" and "set (co_out s) \<subseteq> set (co_out s')" and "co_root s' = co_root s"
    and "\<exists>c \<in> set (co_out s'). covers rel c"
  shows "batch_inv r n (insert rel seen) s'"
  using assms by (auto simp: batch_inv_def) blast+

lemma collect_path_jj:
  assumes inv: "batch_inv r n seen s" and room: "ticks (rclock r) + n < 2 ^ 64 - 1"
    and ok: "scope_ok E (co_scope s)"
  shows "batch_inv r (n + 1) (seen \<union> {rel. rel \<noteq> [] \<and> \<not> is_jj_internal rel \<and> rpath r @ rel = file})
      (collect_path E True k file s) \<and> scope_ok E (co_scope (collect_path E True k file s))"
proof (cases "path_strip_prefix (rpath (co_root s)) file")
  case None
  have "rpath r @ rel \<noteq> file" for rel
    using None inv by (auto simp: batch_inv_def)
  then show ?thesis using None batch_inv_weaken [OF inv] ok by (auto simp: collect_path_def)
next
  case (Some rel)
  have rp: "rpath (co_root s) = rpath r" using inv by (simp add: batch_inv_def)
  then have fe: "file = rpath r @ rel" using Some by (simp add: path_strip_prefix_Some_iff)
  have set1: "{q. q \<noteq> [] \<and> \<not> is_jj_internal q \<and> rpath r @ q = file} \<subseteq> {rel}" using fe by auto
  show ?thesis
  proof (cases "rel = [] \<or> is_jj_internal rel")
    case True
    then have e: "{q. q \<noteq> [] \<and> \<not> is_jj_internal q \<and> rpath r @ q = file} = {}" using fe by auto
    have "collect_path E True k file s = s" using True Some by (auto simp: collect_path_def)
    moreover have "batch_inv r (n + 1) seen s" by (rule batch_inv_weaken [OF inv]) simp_all
    ultimately show ?thesis using ok unfolding e by simp
  next
    case False
    let ?d = "(case fs_stat E file of Some md \<Rightarrow> md_type md = FtDir | None \<Rightarrow> False) \<or> k = EvRemove"
    obtain hit scope where h: "ignored_directory E (rpath (co_root s)) rel ?d (co_scope s) = (hit, scope)"
      by (cases "ignored_directory E (rpath (co_root s)) rel ?d (co_scope s)")
    have sc: "scope_ok E scope" and hit: "hit = outermost_ignored E (rpath (co_root s)) rel ?d"
      using ignored_directory_ok [OF ok, of "rpath (co_root s)" rel ?d] h by simp_all
    let ?s1 = "s\<lparr>co_scope := scope\<rparr>"
    show ?thesis
    proof (cases hit)
      case None
      show ?thesis
      proof (cases "path_file_name rel = Some ''.gitignore''")
        case True
        then have e: "collect_path E True k file s = drop_batch (?s1\<lparr>co_root := snd (invalidate_jj_events (co_root s))\<rparr>)"
          using Some False h None by (simp add: collect_path_def)
        have "batch_inv r n seen ?s1" using inv by (simp add: batch_inv_def)
        from batch_inv_dropped [OF this room] show ?thesis
          unfolding e by (simp add: drop_batch_def scope_clear_def scope_ok_empty)
      next
        case F: False
        then have e: "collect_path E True k file s = push_change (stat_change E file rel k) ?s1"
          using Some False h None by (simp add: collect_path_def)
        have "covers rel (stat_change E file rel k)"
          by (simp add: stat_change_def split: option.splits)
        then have "batch_inv r n (insert rel seen) (collect_path E True k file s)"
          using batch_inv_push [OF inv, of "collect_path E True k file s" rel] by (auto simp: e push_change_def)
        then show ?thesis using set1 sc by (auto simp: e push_change_def intro: batch_inv_weaken)
      qed
    next
      case hs: (Some d)
      let ?s2 = "if d = rel \<and> k = EvRemove then push_change (Remove rel) ?s1 else ?s1"
      have e: "collect_path E True k file s = push_change (Signal (path_join d [GITIGNORE])) ?s2"
        using Some False h hs by (simp add: collect_path_def Let_def)
      have d: "\<exists>rest. rel = d @ rest" "d \<noteq> []" using outermost_ignored_prefix hit hs by metis+
      have cov: "covers rel (Signal (path_join d [GITIGNORE]))"
        using d by (auto simp: path_join_def is_absolute_def GITIGNORE_def)
      have co: "insert (Signal (path_join d [GITIGNORE])) (set (co_out s)) \<subseteq> set (co_out (collect_path E True k file s))"
        "co_root (collect_path E True k file s) = co_root s"
        by (auto simp: e push_change_def)
      have "batch_inv r n (insert rel seen) (collect_path E True k file s)"
        by (rule batch_inv_push [OF inv _ co(2)]) (use co(1) cov in blast)+
      then show ?thesis using set1 sc by (auto simp: e push_change_def intro: batch_inv_weaken)
    qed
  qed
qed

lemma collect_paths_jj:
  assumes "batch_inv r n seen s" and "ticks (rclock r) + n + length files < 2 ^ 64" and "scope_ok E (co_scope s)"
  shows "batch_inv r (n + length files)
      (seen \<union> {rel. rel \<noteq> [] \<and> \<not> is_jj_internal rel \<and> rpath r @ rel \<in> set files})
      (fold (collect_path E True k) files s) \<and> scope_ok E (co_scope (fold (collect_path E True k) files s))"
  using assms
proof (induction files arbitrary: n seen s)
  case (Cons f files)
  have c: "batch_inv r (n + 1) (seen \<union> {rel. rel \<noteq> [] \<and> \<not> is_jj_internal rel \<and> rpath r @ rel = f})
      (collect_path E True k f s) \<and> scope_ok E (co_scope (collect_path E True k f s))"
    by (rule collect_path_jj) (use Cons.prems in auto)
  have u: "seen \<union> {rel. rel \<noteq> [] \<and> \<not> is_jj_internal rel \<and> rpath r @ rel = f} \<union>
      {rel. rel \<noteq> [] \<and> \<not> is_jj_internal rel \<and> rpath r @ rel \<in> set files}
    = seen \<union> {rel. rel \<noteq> [] \<and> \<not> is_jj_internal rel \<and> rpath r @ rel \<in> set (f # files)}" by auto
  show ?case
    using Cons.IH [of "n + 1" "seen \<union> {rel. rel \<noteq> [] \<and> \<not> is_jj_internal rel \<and> rpath r @ rel = f}"
        "collect_path E True k f s"] c Cons.prems(2)
    unfolding u [symmetric] by simp
qed simp

lemma collect_event_jj:
  assumes "batch_inv r n seen s" and "ticks (rclock r) + n + event_bumps ev < 2 ^ 64" and "scope_ok E (co_scope s)"
  shows "batch_inv r (n + event_bumps ev) (seen \<union> event_rels r ev) (collect_event E True ev s) \<and>
    scope_ok E (co_scope (collect_event E True ev s))"
proof -
  have jj: "jj_events (co_root s)" "clock_room (co_root s)"
    using assms by (auto simp: batch_inv_def clock_room_def event_bumps_def split: option.splits)
  obtain r1 where inval: "invalidate_jj_events (co_root s) = (True, r1)"
    using invalidate_jj(1) [OF jj] by (cases "invalidate_jj_events (co_root s)") auto
  have dropped: "batch_inv r (n + 1) seen' (drop_batch (s\<lparr>co_root := r1\<rparr>))" for seen'
    using batch_inv_dropped [OF assms(1), of seen'] assms(2) inval
    by (auto simp: event_bumps_def split: option.splits)
  have clr: "scope_ok E (co_scope (drop_batch (s\<lparr>co_root := r1\<rparr>)))"
    by (simp add: drop_batch_def scope_clear_def scope_ok_empty)
  show ?thesis
  proof (cases ev)
    case None
    then show ?thesis using dropped clr inval by (simp add: collect_event_def event_bumps_def)
  next
    case (Some e)
    show ?thesis
    proof (cases "ne_rescan e")
      case True
      have "batch_inv r (n + event_bumps ev) (seen \<union> event_rels r ev)
          (drop_batch (s\<lparr>co_root := r1\<rparr>))"
        by (rule batch_inv_weaken [OF dropped [of "seen \<union> event_rels r ev"]]) (simp_all add: event_bumps_def Some)
      then show ?thesis using True clr inval Some by (simp add: collect_event_def)
    next
      case False
      show ?thesis
      proof (cases "ne_kind e = EvAccessOther")
        case True
        have "batch_inv r (n + event_bumps ev) seen s" by (rule batch_inv_weaken [OF assms(1)]) simp_all
        then show ?thesis using True False Some assms(3) by (simp add: collect_event_def event_rels_def)
      next
        case F: False
        have "batch_inv r (n + length (ne_paths e)) (seen \<union> event_rels r ev)
            (fold (collect_path E True (ne_kind e)) (ne_paths e) s) \<and>
            scope_ok E (co_scope (fold (collect_path E True (ne_kind e)) (ne_paths e) s))"
          using collect_paths_jj [OF assms(1) _ assms(3), of "ne_paths e" "ne_kind e"] assms(2) F
          by (simp add: Some event_bumps_def event_rels_def)
        then show ?thesis
          using False F Some by (auto simp: collect_event_def event_bumps_def intro: batch_inv_weaken)
      qed
    qed
  qed
qed

lemma collect_events_jj:
  assumes "batch_inv r n seen s" and "ticks (rclock r) + n + sum_list (map event_bumps evs) < 2 ^ 64"
    and "scope_ok E (co_scope s)"
  shows "batch_inv r (n + sum_list (map event_bumps evs)) (seen \<union> (\<Union>ev \<in> set evs. event_rels r ev))
      (fold (collect_event E True) evs s) \<and> scope_ok E (co_scope (fold (collect_event E True) evs s))"
  using assms
proof (induction evs arbitrary: n seen s)
  case (Cons ev evs)
  have c: "batch_inv r (n + event_bumps ev) (seen \<union> event_rels r ev) (collect_event E True ev s) \<and>
      scope_ok E (co_scope (collect_event E True ev s))"
    by (rule collect_event_jj) (use Cons.prems in auto)
  show ?case
    using Cons.IH [of "n + event_bumps ev" "seen \<union> event_rels r ev" "collect_event E True ev s"] c Cons.prems(2)
    by (simp add: Un_assoc add.assoc)
qed simp

lemma covers_change_path:
  "covers rel c \<Longrightarrow> change_path c = rel \<or> (\<exists>d rest. d \<noteq> [] \<and> change_path c = d @ [GITIGNORE] \<and> rel = d @ rest)"
  by (cases c) auto

section \<open>Properties\<close>

text \<open>
  C24. The crawl and the event filter agree: the initial scan reports a path exactly when the path can
  be reached on disk through readable, real directories and the filter applied to events would let it
  through. So the index neither starts with files whose events are dropped nor lacks files whose
  events are kept.
\<close>

theorem scan_agrees_with_event_filter:
  "rel \<in> fst ` set (initial_scan ig node) \<longleftrightarrow> on_disk node rel \<and> \<not> should_ignore rel ig"
  by (simp add: initial_scan_def walk_iff(1) passes_def)

text \<open>
  In full mode a batch does precisely what its events say: the changes applied are the
  translations of the events' paths below the root that the filter lets through, in order, nothing is
  applied when there are none, and errors and rescan requests leave no trace.
\<close>

theorem full_mode_batch:
  assumes "\<not> jj_events r"
  shows "watcher_batch E arena events r scope =
    (let cs = concat (map (event_changes E r) events)
     in (if cs = [] then r else snd (apply_changes arena cs r), scope))"
  using assms by (simp add: watcher_batch_def collect_events_full Let_def)

theorem full_mode_batch_witness:
  "watcher_batch target_ignored_env 0 [None, Some \<lparr> ne_kind = EvOther, ne_paths = [[RootDir, Normal ''w'', Normal ''x'']], ne_rescan = True \<rparr>] (sample_root False) []
    = (let cs = concat (map (event_changes target_ignored_env (sample_root False))
         [None, Some \<lparr> ne_kind = EvOther, ne_paths = [[RootDir, Normal ''w'', Normal ''x'']], ne_rescan = True \<rparr>])
       in (if cs = [] then sample_root False else snd (apply_changes 0 cs (sample_root False)), []))"
  by (rule full_mode_batch) simp



end
