(* ===== verification/Daemon.thy ===== *)
theory Daemon
  imports Watcher
begin

text \<open>
  The state shared by all connections (\<^verbatim>\<open>daemon/state.rs\<close>) and the garbage collector of watches
  (\<^verbatim>\<open>daemon/gc.rs\<close>). The roots are a map from paths; a shared root is the value stored there. What the
  disk, the clock of the machine and the watcher thread answer during a registration is the record
  \<open>reg_env\<close>, and during a sweep the record \<open>gc_env\<close>.
\<close>

section \<open>State\<close>

datatype reap_reason = Dead | Stale

fun reap_reason_str :: "reap_reason \<Rightarrow> string" where
  "reap_reason_str Dead = ''dead''"
| "reap_reason_str Stale = ''stale''"

record reap_event =
  reap_path :: path
  reap_why :: reap_reason
  reap_at :: nat

definition REAP_LOG_CAPACITY :: nat where "REAP_LOG_CAPACITY = 64"

record daemon =
  sock_path :: path
  roots :: "(path, root) imap"
  shutting_down :: bool
  started_at_unix :: nat
  reap_log :: "reap_event list"
  root_counter :: nat

definition daemon_new :: "nat \<Rightarrow> path \<Rightarrow> daemon" where
  "daemon_new now sock =
     \<lparr> sock_path = sock, roots = [], shutting_down = False, started_at_unix = now, reap_log = [], root_counter = 0 \<rparr>"

definition log_reap :: "reap_event \<Rightarrow> daemon \<Rightarrow> daemon" where
  "log_reap ev d =
     (let log = (if length (reap_log d) = REAP_LOG_CAPACITY then tl (reap_log d) else reap_log d)
      in d\<lparr>reap_log := log @ [ev]\<rparr>)"

definition request_shutdown :: "daemon \<Rightarrow> daemon" where
  "request_shutdown d = d\<lparr>shutting_down := True\<rparr>"

text \<open>A lookup counts as use of the root.\<close>

definition daemon_root :: "nat \<Rightarrow> path \<Rightarrow> daemon \<Rightarrow> root option \<times> daemon" where
  "daemon_root now p d =
     (case im_get (roots d) p of
        None \<Rightarrow> (None, d)
      | Some r \<Rightarrow> (let r' = touch now r in (Some r', d\<lparr>roots := im_insert p r' (roots d)\<rparr>)))"

definition list_roots :: "daemon \<Rightarrow> path list" where
  "list_roots d = im_keys (roots d)"

definition unregister_root :: "path \<Rightarrow> daemon \<Rightarrow> bool \<times> daemon" where
  "unregister_root p d = (im_contains p (roots d), d\<lparr>roots := im_remove p (roots d)\<rparr>)"

fun drain_loop :: "path list \<Rightarrow> daemon \<Rightarrow> path list \<times> daemon" where
  "drain_loop [] d = ([], d)"
| "drain_loop (p # ps) d =
     (let (was, d') = unregister_root p d; (removed, d'') = drain_loop ps d'
      in (if was then p # removed else removed, d''))"

definition drain_roots :: "daemon \<Rightarrow> path list \<times> daemon" where
  "drain_roots d = drain_loop (list_roots d) d"

section \<open>Registration\<close>

datatype register_error = RegMetadata path | RegNotDir path | RegWatcher

record reg_env =
  reg_now :: nat
  reg_pid :: nat
  reg_metadata :: "metadata option"
  reg_jj_dir :: bool
  reg_config :: "byte list option"
  reg_disk :: fs_node
  reg_triggers :: "byte list option"
  reg_watch_ok :: bool

definition JJ_TRIGGER :: string where "JJ_TRIGGER = ''jj-background-monitor''"

text \<open>
  The new root before its watcher starts: seeded from a crawl (or empty for a jj root), its persisted
  triggers loaded, and promoted to full mode when any of them is not jj's own.
\<close>

definition build_root ::
  "'n serde \<Rightarrow> 'n trigger_codec \<Rightarrow> reg_env \<Rightarrow> path \<Rightarrow> nat \<Rightarrow> path option \<Rightarrow> root" where
  "build_root S C env p number sdir =
     (let config = load_watchman_config S (reg_jj_dir env) (reg_config env);
          ig = cfg_ignores config;
          r0 = root_new (reg_now env) (reg_pid env) p number number sdir ig (cfg_jj_events config);
          es = (if cfg_jj_events config then [] else initial_scan ig (reg_disk env));
          r1 = snd (seed es r0);
          r2 = load_persisted_triggers S C (reg_triggers env) r1
      in if list_ex (\<lambda>t. tr_name t \<noteq> JJ_TRIGGER) (list_triggers r2)
         then promote_to_full (initial_scan ig (reg_disk env)) r2 else r2)"

definition register_root ::
  "'n serde \<Rightarrow> 'n trigger_codec \<Rightarrow> reg_env \<Rightarrow> path \<Rightarrow> daemon \<Rightarrow> (register_error + root) \<times> daemon" where
  "register_root S C env p d =
     (case im_get (roots d) p of
        Some existing \<Rightarrow>
          (let r = touch (reg_now env) existing in (Inr r, d\<lparr>roots := im_insert p r (roots d)\<rparr>))
      | None \<Rightarrow>
          (case reg_metadata env of
             None \<Rightarrow> (Inl (RegMetadata p), d)
           | Some md \<Rightarrow>
               if md_type md \<noteq> FtDir then (Inl (RegNotDir p), d)
               else (let number = (root_counter d + 1) mod 2 ^ 64;
                         d1 = d\<lparr>root_counter := number\<rparr>;
                         r = build_root S C env p number (path_parent (sock_path d))
                     in if \<not> reg_watch_ok env then (Inl RegWatcher, d1)
                        else (Inr r, d1\<lparr>roots := im_insert p r (roots d1)\<rparr>))))"

section \<open>Garbage collection\<close>

definition DEAD_TICK_THRESHOLD :: nat where "DEAD_TICK_THRESHOLD = 2"
definition STALE_IDLE_SECS_DEFAULT :: nat where "STALE_IDLE_SECS_DEFAULT = 60 * 60"

definition stale_idle_secs :: "string option \<Rightarrow> nat" where
  "stale_idle_secs var =
     (case Option.bind var (parse_uint u64_max) of None \<Rightarrow> STALE_IDLE_SECS_DEFAULT | Some n \<Rightarrow> n)"

text \<open>\<open>gc_is_dir\<close>: whether the path of a root is still a directory.\<close>

record gc_env =
  gc_now :: nat
  gc_stale_var :: "string option"
  gc_is_dir :: "path \<Rightarrow> bool"

definition reap :: "gc_env \<Rightarrow> path \<Rightarrow> reap_reason \<Rightarrow> daemon \<Rightarrow> daemon" where
  "reap env p why d =
     (let (was, d') = unregister_root p d
      in if \<not> was then d' else log_reap \<lparr> reap_path = p, reap_why = why, reap_at = gc_now env \<rparr> d')"

definition put_root :: "path \<Rightarrow> root \<Rightarrow> daemon \<Rightarrow> daemon" where
  "put_root p r d = d\<lparr>roots := im_insert p r (roots d)\<rparr>"

definition is_stale :: "gc_env \<Rightarrow> root \<Rightarrow> bool" where
  "is_stale env r \<longleftrightarrow>
     0 < stale_idle_secs (gc_stale_var env) \<and> subscription_count r = 0 \<and> trigger_count r = 0 \<and>
     stale_idle_secs (gc_stale_var env) \<le> idle_seconds (gc_now env) r"

definition sweep_path :: "gc_env \<Rightarrow> path \<Rightarrow> daemon \<Rightarrow> daemon" where
  "sweep_path env p d =
     (case im_get (roots d) p of
        None \<Rightarrow> d
      | Some r \<Rightarrow>
          if \<not> gc_is_dir env p then
            (let (misses, r') = mark_missing r; d' = put_root p r' d
             in if DEAD_TICK_THRESHOLD \<le> misses then reap env p Dead d' else d')
          else
            (let r' = mark_present r; d' = put_root p r' d
             in if is_stale env r' then reap env p Stale d'
                else put_root p (snd (prune_tombstones r')) d'))"

definition sweep :: "gc_env \<Rightarrow> daemon \<Rightarrow> daemon" where
  "sweep env d = fold (sweep_path env) (list_roots d) d"

section \<open>What a sweep does to one root\<close>

text \<open>The outcome for a root: \<open>Inl\<close> a reason to reap it, \<open>Inr\<close> what becomes of it.\<close>

definition sweep_root :: "gc_env \<Rightarrow> path \<Rightarrow> root \<Rightarrow> reap_reason + root" where
  "sweep_root env p r =
     (if \<not> gc_is_dir env p then
        (if DEAD_TICK_THRESHOLD \<le> fst (mark_missing r) then Inl Dead else Inr (snd (mark_missing r)))
      else if is_stale env (mark_present r) then Inl Stale
      else Inr (snd (prune_tombstones (mark_present r))))"

definition survivor :: "gc_env \<Rightarrow> path \<Rightarrow> root \<Rightarrow> root option" where
  "survivor env p r = (case sweep_root env p r of Inl _ \<Rightarrow> None | Inr r' \<Rightarrow> Some r')"

lemma survivor_cases:
  assumes "missing_ticks r \<le> 1"
  shows "survivor env p r =
    (if \<not> gc_is_dir env p then (if missing_ticks r = 0 then Some (r\<lparr>missing_ticks := 1\<rparr>) else None)
     else if 0 < stale_idle_secs (gc_stale_var env) \<and> subscriptions r = [] \<and> triggers r = [] \<and>
       stale_idle_secs (gc_stale_var env) \<le> gc_now env - last_used r then None
     else Some (snd (prune_tombstones (r\<lparr>missing_ticks := 0\<rparr>))))"
  using assms by (auto simp: survivor_def sweep_root_def mark_missing_def mark_present_def Let_def is_stale_def
      subscription_count_def trigger_count_def idle_seconds_def DEAD_TICK_THRESHOLD_def)

lemma im_get_update:
  "im_get (roots (put_root p r d)) = (im_get (roots d))(p \<mapsto> r)"
  "im_get (roots (reap env p why d)) = (im_get (roots d))(p := None)"
  by (auto simp: put_root_def reap_def unregister_root_def log_reap_def Let_def store_simps)

lemma sweep_path_get:
  "im_get (roots (sweep_path env p d)) = (im_get (roots d))(p := Option.bind (im_get (roots d) p) (survivor env p))"
  by (auto simp: sweep_path_def survivor_def sweep_root_def im_get_update Let_def fun_eq_iff
      split: option.splits prod.splits)

lemma fold_sweep_get:
  "distinct ps \<Longrightarrow> im_get (roots (fold (sweep_path env) ps d)) p
    = (if p \<in> set ps then Option.bind (im_get (roots d) p) (survivor env p) else im_get (roots d) p)"
  by (induction ps arbitrary: d) (auto simp: sweep_path_get)

lemma sweep_get:
  assumes "im_wf (roots d)"
  shows "im_get (roots (sweep env d)) p = Option.bind (im_get (roots d) p) (survivor env p)"
proof -
  have "p \<notin> set (list_roots d) \<Longrightarrow> im_get (roots d) p = None"
    by (simp add: list_roots_def im_get_None_iff)
  then show ?thesis
    using assms fold_sweep_get [of "list_roots d" env d p]
    by (auto simp: sweep_def list_roots_def im_wf_def)
qed

section \<open>What every operation keeps\<close>

text \<open>\<open>d'\<close> holds only continuations of watches of \<open>d\<close>, each reached by operations of its root.\<close>

definition kept :: "'n serde \<Rightarrow> 'n trigger_codec \<Rightarrow> daemon \<Rightarrow> daemon \<Rightarrow> bool" where
  "kept S C d d' \<longleftrightarrow> root_counter d' = root_counter d \<and>
     (im_wf (roots d) \<longrightarrow> im_wf (roots d')) \<and>
     (length (reap_log d) \<le> REAP_LOG_CAPACITY \<longrightarrow> length (reap_log d') \<le> REAP_LOG_CAPACITY) \<and>
     (\<forall>p r'. im_get (roots d') p = Some r' \<longrightarrow>
        (\<exists>r. im_get (roots d) p = Some r \<and> (root_step S C)\<^sup>*\<^sup>* r r'))"

lemma kept_refl [simp]: "kept S C d d"
  by (auto simp: kept_def)

lemma kept_trans: "kept S C d d' \<Longrightarrow> kept S C d' d'' \<Longrightarrow> kept S C d d''"
  by (auto simp: kept_def) (meson rtranclp_trans)+

lemma kept_fold: "(\<And>x d. kept S C d (f x d)) \<Longrightarrow> kept S C d (fold f xs d)"
  by (induction xs arbitrary: d) (auto intro: kept_trans)

lemma kept_put:
  "im_get (roots d) p = Some r \<Longrightarrow> (root_step S C)\<^sup>*\<^sup>* r r' \<Longrightarrow> kept S C d (put_root p r' d)"
  by (auto simp: kept_def put_root_def store_simps)

lemma kept_unregister: "kept S C d (snd (unregister_root p d))"
  by (auto simp: kept_def unregister_root_def store_simps split: if_splits)

lemma kept_log: "kept S C d (log_reap ev d)"
  by (auto simp: kept_def log_reap_def Let_def REAP_LOG_CAPACITY_def)

lemma kept_reap: "kept S C d (reap env p why d)"
  using kept_trans [OF kept_unregister [of S C d p] kept_log] kept_unregister [of S C d p]
  by (simp add: reap_def case_prod_unfold Let_def)

lemma kept_drain_loop: "kept S C d (snd (drain_loop ps d))"
proof (induction ps arbitrary: d)
  case (Cons p ps)
  then show ?case
    using kept_trans [OF kept_unregister [of S C d p] Cons.IH]
    by (simp add: case_prod_unfold Let_def)
qed simp

lemma kept_lookup: "kept S C d (snd (daemon_root now p d))"
proof (cases "im_get (roots d) p")
  case (Some r)
  then have "kept S C d (put_root p (touch now r) d)" by (blast intro: kept_put root_step.st_touch)
  then show ?thesis using Some by (simp add: daemon_root_def put_root_def Let_def)
qed (simp add: daemon_root_def)

lemma kept_sweep_path: "kept S C d (sweep_path env p d)"
proof (cases "im_get (roots d) p")
  case (Some r)
  have miss: "kept S C d (put_root p (snd (mark_missing r)) d)"
    and pres: "kept S C d (put_root p (mark_present r) d)"
    using Some by (blast intro: kept_put root_step.st_missing root_step.st_present)+
  have "(root_step S C)\<^sup>*\<^sup>* (mark_present r) (snd (prune_tombstones (mark_present r)))"
    by (blast intro: root_step.st_prune)
  then have "kept S C (put_root p (mark_present r) d)
      (put_root p (snd (prune_tombstones (mark_present r))) (put_root p (mark_present r) d))"
    by (intro kept_put) (simp add: im_get_update)
  then show ?thesis
    using Some kept_trans [OF miss kept_reap] kept_trans [OF pres kept_reap] kept_trans [OF pres] miss
    by (auto simp: sweep_path_def Let_def split: prod.splits)
qed (simp add: sweep_path_def)

lemma kept_sweep: "kept S C d (sweep env d)"
  unfolding sweep_def by (rule kept_fold) (rule kept_sweep_path)

lemma kept_shutdown: "kept S C d (request_shutdown d)"
  by (auto simp: kept_def request_shutdown_def)

section \<open>The invariant of the daemon\<close>

definition watch_ok :: "'n serde \<Rightarrow> 'n trigger_codec \<Rightarrow> nat \<Rightarrow> path \<Rightarrow> root \<Rightarrow> bool" where
  "watch_ok S C counter p r \<longleftrightarrow> rpath r = p \<and> root_reach S C r \<and> root_number (rclock r) = rnumber r \<and>
     0 < rnumber r \<and> rnumber r \<le> counter"

definition daemon_inv :: "'n serde \<Rightarrow> 'n trigger_codec \<Rightarrow> daemon \<Rightarrow> bool" where
  "daemon_inv S C d \<longleftrightarrow> im_wf (roots d) \<and> length (reap_log d) \<le> REAP_LOG_CAPACITY \<and> root_counter d < 2 ^ 64 \<and>
     (\<forall>p r. im_get (roots d) p = Some r \<longrightarrow> watch_ok S C (root_counter d) p r) \<and>
     (\<forall>p q r s. im_get (roots d) p = Some r \<longrightarrow> im_get (roots d) q = Some s \<longrightarrow>
        rnumber r = rnumber s \<longrightarrow> p = q)"

text \<open>An operation never changes which watch a root is.\<close>

definition same_watch :: "root \<Rightarrow> root \<Rightarrow> bool" where
  "same_watch r r' \<longleftrightarrow> rpath r' = rpath r \<and> rnumber r' = rnumber r \<and>
     root_number (rclock r') = root_number (rclock r) \<and> start_time (rclock r') = start_time (rclock r) \<and>
     pid (rclock r') = pid (rclock r)"

lemma same_watch_refl [simp]: "same_watch r r"
  by (simp add: same_watch_def)

lemma same_watch_trans: "same_watch r r' \<Longrightarrow> same_watch r' r'' \<Longrightarrow> same_watch r r''"
  by (simp add: same_watch_def)

lemma same_watch_step: "root_step S C r r' \<Longrightarrow> same_watch r r'"
  by (cases rule: root_step.cases)
    (auto simp: same_watch_def apply_changes_def seed_def promote_to_full_def invalidate_jj_events_def
      prune_tombstones_def set_cursor_def add_subscription_def remove_subscription_def install_trigger_def
      remove_trigger_def load_persisted_triggers_def touch_def mark_missing_def mark_present_def
      bump_clock_def bump_def send_tick_def Let_def split: option.splits prod.splits)

lemma same_watch_steps: "(root_step S C)\<^sup>*\<^sup>* r r' \<Longrightarrow> same_watch r r'"
  by (induction rule: rtranclp_induct) (auto intro: same_watch_trans same_watch_step)

lemma root_reach_steps: "(root_step S C)\<^sup>*\<^sup>* r r' \<Longrightarrow> root_reach S C r \<Longrightarrow> root_reach S C r'"
  by (induction rule: rtranclp_induct) (auto intro: root_reach.step)

lemma daemon_invD: "daemon_inv S C d \<Longrightarrow> im_get (roots d) p = Some r \<Longrightarrow> watch_ok S C (root_counter d) p r"
  by (simp add: daemon_inv_def)

lemma daemon_inv_inj:
  "daemon_inv S C d \<Longrightarrow> im_get (roots d) p = Some r \<Longrightarrow> im_get (roots d) q = Some s \<Longrightarrow>
    rnumber r = rnumber s \<Longrightarrow> p = q"
  by (simp add: daemon_inv_def)

lemma daemon_inv_new: "daemon_inv S C (daemon_new now sock)"
  by (simp add: daemon_inv_def daemon_new_def)

lemma daemon_inv_kept:
  assumes "daemon_inv S C d" and "kept S C d d'"
  shows "daemon_inv S C d'"
proof -
  have old: "\<exists>r. im_get (roots d) p = Some r \<and> (root_step S C)\<^sup>*\<^sup>* r r' \<and> same_watch r r'"
    if "im_get (roots d') p = Some r'" for p r'
    using that assms(2) same_watch_steps unfolding kept_def by blast
  have "watch_ok S C (root_counter d') p r'" if "im_get (roots d') p = Some r'" for p r'
  proof -
    obtain r where r: "im_get (roots d) p = Some r" "(root_step S C)\<^sup>*\<^sup>* r r'" "same_watch r r'"
      using old \<open>im_get (roots d') p = Some r'\<close> by blast
    then have "watch_ok S C (root_counter d) p r" using assms(1) by (simp add: daemon_inv_def)
    then show ?thesis
      using r assms(2) root_reach_steps [OF r(2)] by (simp add: kept_def watch_ok_def same_watch_def)
  qed
  moreover have "p = q" if "im_get (roots d') p = Some r" "im_get (roots d') q = Some s" "rnumber r = rnumber s"
    for p q r s
    using old [OF that(1)] old [OF that(2)] that(3) assms(1)
    unfolding daemon_inv_def same_watch_def by metis
  ultimately show ?thesis using assms by (simp add: daemon_inv_def kept_def)
qed

section \<open>Registration gives a fresh number\<close>

lemma build_root_ok:
  assumes "0 < number" "number < 2 ^ 64" "reg_now env < 2 ^ 64" "reg_pid env < 2 ^ 32"
  shows "watch_ok S C number p (build_root S C env p number sdir) \<and>
    rnumber (build_root S C env p number sdir) = number"
proof -
  let ?c = "load_watchman_config S (reg_jj_dir env) (reg_config env)"
  let ?start = "root_new (reg_now env) (reg_pid env) p number number sdir (cfg_ignores ?c) (cfg_jj_events ?c)"
  define es where "es = (if cfg_jj_events ?c then [] else initial_scan (cfg_ignores ?c) (reg_disk env))"
  define r1 where "r1 = snd (seed es ?start)"
  define r2 where "r2 = load_persisted_triggers S C (reg_triggers env) r1"
  let ?r = "build_root S C env p number sdir"
  have room: "clock_room ?start" by (simp add: clock_room_def root_new_def clock_new_def)
  have "root_step S C ?start r1"
    unfolding r1_def by (rule root_step.st_seed [OF room]) (simp add: es_def root_new_def)
  moreover have "root_step S C r1 r2" unfolding r2_def by (rule root_step.st_load)
  moreover have t: "ticks (rclock r2) = 2"
    using room by (auto simp: r2_def r1_def seed_eq load_persisted_triggers_def Let_def root_new_def clock_new_def
        split: option.splits)
  moreover have "root_step S C r2 (promote_to_full scan r2)" for scan
    by (rule root_step.st_promote) (simp add: clock_room_def t)
  moreover have "?r = r2 \<or> (\<exists>scan. ?r = promote_to_full scan r2)"
    unfolding build_root_def Let_def r2_def r1_def es_def by auto
  ultimately have steps: "(root_step S C)\<^sup>*\<^sup>* ?start ?r" by (metis (no_types) rtranclp.simps)
  moreover have "root_reach S C ?start" using assms by (intro root_reach.init) auto
  ultimately have "root_reach S C ?r" by (rule root_reach_steps)
  then show ?thesis
    using same_watch_steps [OF steps] assms(1) by (simp add: watch_ok_def same_watch_def root_new_def clock_new_def)
qed

text \<open>The three outcomes: a known watch, a refusal, and a new watch whose number no other has had.\<close>

lemma register_root_cases:
  assumes "reg_now env < 2 ^ 64" "reg_pid env < 2 ^ 32" "root_counter d < 2 ^ 64 - 1"
  obtains (known) r where "im_get (roots d) p = Some r"
      "register_root S C env p d = (Inr (touch (reg_now env) r), put_root p (touch (reg_now env) r) d)"
  | (refused) err k where "im_get (roots d) p = None" "register_root S C env p d = (Inl err, d\<lparr>root_counter := k\<rparr>)"
      "root_counter d \<le> k" "k < 2 ^ 64"
  | (new) r where "im_get (roots d) p = None" "rnumber r = root_counter d + 1"
      "watch_ok S C (root_counter d + 1) p r"
      "register_root S C env p d = (Inr r, put_root p r (d\<lparr>root_counter := root_counter d + 1\<rparr>))"
proof -
  have k: "(root_counter d + 1) mod 2 ^ 64 = root_counter d + 1" using assms(3) by simp
  let ?r = "build_root S C env p (root_counter d + 1) (path_parent (sock_path d))"
  have ok: "watch_ok S C (root_counter d + 1) p ?r \<and> rnumber ?r = root_counter d + 1"
    using assms by (intro build_root_ok) auto
  show thesis
  proof (cases "im_get (roots d) p")
    case (Some r)
    then show thesis by (intro known) (simp_all add: register_root_def put_root_def Let_def)
  next
    case None
    show thesis
    proof (cases "\<exists>md. reg_metadata env = Some md \<and> md_type md = FtDir \<and> reg_watch_ok env")
      case True
      then show thesis
        using None k ok by (intro new [of ?r]) (auto simp: register_root_def put_root_def Let_def)
    next
      case False
      have "\<exists>err k. register_root S C env p d = (Inl err, d\<lparr>root_counter := k\<rparr>) \<and> root_counter d \<le> k \<and> k < 2 ^ 64"
      proof (cases "\<exists>md. reg_metadata env = Some md \<and> md_type md = FtDir")
        case True
        then show ?thesis
          using None False k assms(3) by (intro exI [of _ RegWatcher] exI [of _ "root_counter d + 1"]) (auto simp: register_root_def)
      next
        case no_dir: False
        then have "\<exists>err. register_root S C env p d = (Inl err, d)"
          using None by (auto simp: register_root_def split: option.splits)
        moreover have "d = d\<lparr>root_counter := root_counter d\<rparr>" by simp
        ultimately have "\<exists>err. register_root S C env p d = (Inl err, d\<lparr>root_counter := root_counter d\<rparr>)" by metis
        then show ?thesis using assms(3) by (auto intro!: exI [of _ "root_counter d"])
      qed
      then show thesis using None refused by blast
    qed
  qed
qed

section \<open>The daemon as a step relation\<close>

inductive daemon_step :: "'n serde \<Rightarrow> 'n trigger_codec \<Rightarrow> daemon \<Rightarrow> daemon \<Rightarrow> bool"
  for S :: "'n serde" and C :: "'n trigger_codec" where
  ds_register: "reg_now env < 2 ^ 64 \<Longrightarrow> reg_pid env < 2 ^ 32 \<Longrightarrow> root_counter d < 2 ^ 64 - 1 \<Longrightarrow>
    daemon_step S C d (snd (register_root S C env p d))"
| ds_lookup: "daemon_step S C d (snd (daemon_root now p d))"
| ds_unregister: "daemon_step S C d (snd (unregister_root p d))"
| ds_drain: "daemon_step S C d (snd (drain_roots d))"
| ds_sweep: "daemon_step S C d (sweep genv d)"
| ds_shutdown: "daemon_step S C d (request_shutdown d)"
| ds_root: "im_get (roots d) p = Some r \<Longrightarrow> root_step S C r r' \<Longrightarrow> daemon_step S C d (put_root p r' d)"

inductive daemon_reach :: "'n serde \<Rightarrow> 'n trigger_codec \<Rightarrow> daemon \<Rightarrow> bool"
  for S :: "'n serde" and C :: "'n trigger_codec" where
  boot: "daemon_reach S C (daemon_new now sock)"
| run_step: "daemon_reach S C d \<Longrightarrow> daemon_step S C d d' \<Longrightarrow> daemon_reach S C d'"

text \<open>Every step keeps the watches there are, raises the counter at most, or adds one watch with a new number.\<close>

lemma daemon_step_cases:
  assumes "daemon_step S C d d'"
  obtains (kept) "kept S C d d'"
  | (refused) k where "d' = d\<lparr>root_counter := k\<rparr>" "root_counter d \<le> k" "k < 2 ^ 64"
  | (new) p r where "im_get (roots d) p = None" "rnumber r = root_counter d + 1" "watch_ok S C (root_counter d + 1) p r"
      "d' = put_root p r (d\<lparr>root_counter := root_counter d + 1\<rparr>)" "root_counter d < 2 ^ 64 - 1"
  using assms
proof cases
  case (ds_register env p)
  from ds_register(2-4) show thesis
  proof (cases rule: register_root_cases [where S = S and C = C and p = p])
    case (known r)
    then have "kept S C d d'" using ds_register(1) by (auto intro!: kept_put root_step.st_touch)
    then show thesis by (rule that)
  next
    case (refused err k)
    then show thesis using ds_register(1) that(2) by simp
  next
    case (new r)
    then show thesis using ds_register that(3) by simp
  qed
qed (auto simp: drain_roots_def intro: that kept_lookup kept_unregister kept_drain_loop kept_sweep kept_shutdown kept_put)

lemma daemon_inv_step:
  assumes "daemon_step S C d d'" and inv: "daemon_inv S C d"
  shows "daemon_inv S C d'"
  using assms(1)
proof (cases rule: daemon_step_cases)
  case kept
  with inv show ?thesis by (rule daemon_inv_kept)
next
  case (refused k)
  then show ?thesis using inv by (fastforce simp: daemon_inv_def watch_ok_def)
next
  case (new p r)
  have low: "watch_ok S C (root_counter d + 1) q s" "rnumber s \<noteq> rnumber r" if "im_get (roots d) q = Some s" for q s
    using daemon_invD [OF inv that] new(2) by (simp_all add: watch_ok_def)
  have "q1 = q2" if "im_get (roots d') q1 = Some s1" "im_get (roots d') q2 = Some s2" "rnumber s1 = rnumber s2"
    for q1 q2 s1 s2
    using that new(4) low(2) daemon_inv_inj [OF inv] by (auto simp: im_get_update split: if_splits)
  moreover have "watch_ok S C (root_counter d + 1) q s" if "im_get (roots d') q = Some s" for q s
    using that new low(1) by (auto simp: im_get_update split: if_splits)
  moreover have "im_wf (roots d')" "reap_log d' = reap_log d" "root_counter d' = root_counter d + 1"
    using inv new(4) by (auto simp: put_root_def daemon_inv_def)
  ultimately show ?thesis using inv new(5) unfolding daemon_inv_def by auto
qed

lemma daemon_reach_inv: "daemon_reach S C d \<Longrightarrow> daemon_inv S C d"
  by (induction rule: daemon_reach.induct) (auto simp: daemon_inv_new intro: daemon_inv_step)

text \<open>The watch with the number of \<open>r\<close>, if there still is one, is \<open>r\<close> after operations on it.\<close>

lemma number_identifies:
  assumes "(daemon_step S C)\<^sup>*\<^sup>* d d'" and "daemon_inv S C d" and "im_get (roots d) p = Some r"
  shows "daemon_inv S C d' \<and> rnumber r \<le> root_counter d' \<and>
    (\<forall>q r'. im_get (roots d') q = Some r' \<longrightarrow> rnumber r' = rnumber r \<longrightarrow> q = p \<and> (root_step S C)\<^sup>*\<^sup>* r r')"
  using assms(1)
proof (induction rule: rtranclp_induct)
  case base
  have "q = p" "r' = r" if "im_get (roots d) q = Some r'" "rnumber r' = rnumber r" for q r'
    using daemon_inv_inj [OF assms(2) that(1) assms(3) that(2)] that(1) assms(3) by simp_all
  then show ?case using assms(2) daemon_invD [OF assms(2,3)] by (auto simp: watch_ok_def)
next
  case (step d1 d2)
  then have inv: "daemon_inv S C d2" using daemon_inv_step by blast
  from step(2) show ?case
  proof (cases rule: daemon_step_cases)
    case kept
    have "q = p \<and> (root_step S C)\<^sup>*\<^sup>* r r'" if get: "im_get (roots d2) q = Some r'" and n: "rnumber r' = rnumber r" for q r'
    proof -
      obtain r1 where r1: "im_get (roots d1) q = Some r1" "(root_step S C)\<^sup>*\<^sup>* r1 r'"
        using kept get unfolding kept_def by blast
      then have "rnumber r1 = rnumber r" using same_watch_steps [OF r1(2)] n by (simp add: same_watch_def)
      then show ?thesis using step.IH r1 by (metis rtranclp_trans)
    qed
    then show ?thesis using inv kept step.IH by (simp add: kept_def)
  next
    case (refused k)
    then show ?thesis using inv step.IH by simp
  next
    case (new q s)
    then show ?thesis using inv step.IH by (auto simp: put_root_def store_simps)
  qed
qed

section \<open>Properties\<close>

definition dir_md :: metadata where
  "dir_md = sample_md\<lparr>md_type := FtDir\<rparr>"

definition sample_reg :: reg_env where
  "sample_reg = \<lparr> reg_now = 1700000000, reg_pid = 42, reg_metadata = Some dir_md, reg_jj_dir = True,
     reg_config = None, reg_disk = FsNode None None None, reg_triggers = None, reg_watch_ok = True \<rparr>"

definition sample_daemon :: daemon where
  "sample_daemon = snd (register_root tiny_serde no_codec sample_reg [RootDir, Normal ''w'']
     (daemon_new 1700000000 [RootDir, Normal ''s'']))"

lemma sample_daemon_reach: "daemon_reach tiny_serde no_codec sample_daemon"
  unfolding sample_daemon_def
  by (rule daemon_reach.run_step [OF daemon_reach.boot], rule daemon_step.ds_register)
    (simp_all add: sample_reg_def daemon_new_def)

definition sample_watch :: root where
  "sample_watch = build_root tiny_serde no_codec sample_reg [RootDir, Normal ''w''] 1 (path_parent [RootDir, Normal ''s''])"

lemma sample_daemon_get: "im_get (roots sample_daemon) [RootDir, Normal ''w''] = Some sample_watch"
  by (simp add: sample_daemon_def register_root_def daemon_new_def sample_reg_def dir_md_def sample_watch_def Let_def)

lemma sample_watch_ok: "watch_ok tiny_serde no_codec 1 [RootDir, Normal ''w''] sample_watch"
  unfolding sample_watch_def by (rule build_root_ok [THEN conjunct1]) (simp_all add: sample_reg_def)

lemma sample_watch_missing [simp]: "missing_ticks sample_watch = 0"
  by (simp add: sample_watch_def build_root_def sample_reg_def Let_def load_watchman_config_def
      load_persisted_triggers_def trigger_persist_dir_def seed_def bump_clock_def bump_def root_new_def
      list_triggers_def split: option.splits)

text \<open>
  In every state the daemon can reach, each watch is stored under its own path, has passed only
  through states its root's operations allow, carries its own number in its clock, no two watches
  share a number, and the log of reaped watches holds at most 64 events.
\<close>

theorem watches_distinct:
  assumes "daemon_reach S C d" and "im_get (roots d) p = Some r"
  shows "rpath r = p \<and> root_inv r \<and> root_number (rclock r) = rnumber r \<and>
    (\<forall>q s. im_get (roots d) q = Some s \<and> rnumber s = rnumber r \<longrightarrow> q = p) \<and> length (reap_log d) \<le> 64"
  using daemon_invD [OF daemon_reach_inv [OF assms(1)] assms(2)] daemon_reach_inv [OF assms(1)]
    daemon_inv_inj [OF daemon_reach_inv [OF assms(1)] _ assms(2)]
  by (auto simp: watch_ok_def daemon_inv_def REAP_LOG_CAPACITY_def intro: root_reach_inv)

theorem watches_distinct_witness:
  "rpath sample_watch = [RootDir, Normal ''w''] \<and> root_inv sample_watch \<and> length (reap_log sample_daemon) \<le> 64"
  using watches_distinct [OF sample_daemon_reach sample_daemon_get] by blast



text \<open>
  C17. What one sweep of the collector does to a watch: a missing directory gets one sweep of grace and
  is then unwatched, whatever uses it; a present one is unwatched only when idle for the threshold with
  no subscription and no trigger (never when the threshold is 0); every other watch stays, with its
  count of misses reset and its tombstones pruned.
\<close>

theorem sweep_outcome:
  assumes "daemon_reach S C d" and "im_get (roots d) p = Some r" and "missing_ticks r \<le> 1"
  shows "im_get (roots (sweep env d)) p =
    (if \<not> gc_is_dir env p then (if missing_ticks r = 0 then Some (r\<lparr>missing_ticks := 1\<rparr>) else None)
     else if 0 < stale_idle_secs (gc_stale_var env) \<and> subscriptions r = [] \<and> triggers r = [] \<and>
       stale_idle_secs (gc_stale_var env) \<le> gc_now env - last_used r then None
     else Some (snd (prune_tombstones (r\<lparr>missing_ticks := 0\<rparr>))))"
proof -
  have "im_wf (roots d)" using daemon_reach_inv [OF assms(1)] by (simp add: daemon_inv_def)
  then show ?thesis using assms(2) survivor_cases [OF assms(3)] by (simp add: sweep_get)
qed

theorem sweep_outcome_witness:
  "im_get (roots (sweep \<lparr> gc_now = 1700000060, gc_stale_var = None, gc_is_dir = (\<lambda>_. False) \<rparr> sample_daemon))
      [RootDir, Normal ''w''] = Some (sample_watch\<lparr>missing_ticks := 1\<rparr>)"
  by (subst sweep_outcome [OF sample_daemon_reach sample_daemon_get]) simp_all



end
