(* ===== verification/Command_Env.thy ===== *)
theory Command_Env
  imports Query_Props Daemon
begin

text \<open>
  What every command handler works on. A handler is a function from the daemon's state (\<open>world\<close>: the
  shared state, the trigger files on disk and the loops that have been spawned) to its result and the
  state it leaves; an error keeps the changes made before it, as in the program. What a handler asks
  of the machine is the parameter \<open>cmd_env\<close>: the wall clock, the process id, path canonicalisation,
  the files on disk and the texts of operating system errors.
\<close>

section \<open>State\<close>

text \<open>A subscription's push loop and a trigger's loop: the root they hold weakly, and their variables.\<close>

record push_task =
  pu_root :: path
  pu_number :: nat
  pu_last_tick :: nat
  pu_session :: nat
  pu_name :: string
  pu_spec :: wire_value

record trigger_task =
  tg_root :: path
  tg_number :: nat
  tg_last_tick :: nat
  tg_trigger :: trigger

record world =
  w_daemon :: daemon
  w_disk :: "path \<Rightarrow> byte list option"
  w_pushes :: "push_task list"
  w_triggers :: "trigger_task list"

record ('g, 'x, 'n) cmd_env =
  ce_query :: "('g, 'x) query_env"
  ce_serde :: "'n serde"
  ce_codec :: "'n trigger_codec"
  ce_now :: nat
  ce_pid :: nat
  ce_canonicalize :: "string \<Rightarrow> string + path"
  ce_exists :: "path \<Rightarrow> bool"
  ce_register :: "path \<Rightarrow> reg_env"
  ce_scan :: "path \<Rightarrow> fs_node"
  ce_save :: save_env
  ce_gc :: gc_env
  ce_io_error :: string
  ce_watch_error :: string

section \<open>Handlers\<close>

type_synonym 'a handler = "world \<Rightarrow> (command_error + 'a) \<times> world"

definition hreturn :: "'a \<Rightarrow> 'a handler" where
  "hreturn x w = (Inr x, w)"

definition hfail :: "command_error \<Rightarrow> 'a handler" where
  "hfail e w = (Inl e, w)"

definition hlift :: "command_error + 'a \<Rightarrow> 'a handler" where
  "hlift x w = (x, w)"

definition hbind :: "'a handler \<Rightarrow> ('a \<Rightarrow> 'b handler) \<Rightarrow> 'b handler" where
  "hbind m f w = (case m w of (Inl e, w') \<Rightarrow> (Inl e, w') | (Inr x, w') \<Rightarrow> f x w')"

definition hdaemon :: "(daemon \<Rightarrow> 'a \<times> daemon) \<Rightarrow> 'a handler" where
  "hdaemon f w = (let (x, d) = f (w_daemon w) in (Inr x, w\<lparr>w_daemon := d\<rparr>))"

text \<open>The object of a response, its keys in the order they are inserted.\<close>

definition obj :: "(string \<times> wire_value) list \<Rightarrow> wire_value" where
  "obj kvs = VObject (im_inserts kvs [])"

section \<open>Arguments\<close>

definition nth_arg :: "nat \<Rightarrow> wire_value list \<Rightarrow> wire_value option" where
  "nth_arg i args = (if i < length args then Some (args ! i) else None)"

definition str_arg :: "nat \<Rightarrow> string \<Rightarrow> wire_value list \<Rightarrow> string handler" where
  "str_arg i msg args = hlift (ok_or (BadArgs msg) (Option.bind (nth_arg i args) as_str))"

definition canonical :: "('g, 'x, 'n) cmd_env \<Rightarrow> string \<Rightarrow> path" where
  "canonical E p = (case ce_canonicalize E p of Inl _ \<Rightarrow> path_of p | Inr c \<Rightarrow> c)"

text \<open>The root named by the first argument; every handler that names a root does this first.\<close>

definition find_root :: "('g, 'x, 'n) cmd_env \<Rightarrow> string \<Rightarrow> wire_value list \<Rightarrow> (path \<times> root) handler" where
  "find_root E msg args =
     hbind (str_arg 0 msg args) (\<lambda>s.
       let p = canonical E s in
       hbind (hdaemon (daemon_root (ce_now E) p)) (\<lambda>found.
         hlift (ok_or (UnknownRoot (to_string_lossy p)) (map_option (\<lambda>r. (p, r)) found))))"

text \<open>An operation on a root the handler holds: the shared root changes.\<close>

definition on_root :: "path \<Rightarrow> (root \<Rightarrow> 'a \<times> root) \<Rightarrow> root \<Rightarrow> ('a \<times> root) handler" where
  "on_root p f r w =
     (let (x, r') = f r in (Inr (x, r'), w\<lparr>w_daemon := put_root p r' (w_daemon w)\<rparr>))"

definition no_result :: "('a \<Rightarrow> 'b) \<Rightarrow> 'a \<Rightarrow> unit \<times> 'b" where
  "no_result f x = ((), f x)"

definition promote :: "('g, 'x, 'n) cmd_env \<Rightarrow> root \<Rightarrow> root" where
  "promote E r = promote_to_full (initial_scan (ignores r) (ce_scan E (rpath r))) r"

section \<open>Instances for the witnesses\<close>

definition sample_cmd_env :: "(string, string, int + f64) cmd_env" where
  "sample_cmd_env =
     \<lparr> ce_query = plain_env, ce_serde = tiny_serde, ce_codec = no_codec, ce_now = 1700000010, ce_pid = 42,
       ce_canonicalize = (\<lambda>s. Inr (path_of s)), ce_exists = (\<lambda>p. p = [RootDir, Normal ''w'', Normal ''.git'']),
       ce_register = (\<lambda>p. sample_reg), ce_scan = (\<lambda>p. FsNode None None None),
       ce_save = \<lparr> mkdir_ok = True, write_ok = True, rename_ok = True \<rparr>,
       ce_gc = \<lparr> gc_now = 1700000010, gc_stale_var = None, gc_is_dir = (\<lambda>_. True) \<rparr>,
       ce_io_error = ''io'', ce_watch_error = ''watch'' \<rparr>"

definition sample_world :: world where
  "sample_world = \<lparr> w_daemon = sample_daemon, w_disk = (\<lambda>_. None), w_pushes = [], w_triggers = [] \<rparr>"

end
