(* ===== verification/Commands.thy ===== *)
theory Commands
  imports Command_Env
begin

text \<open>
  The handlers of the commands that work on watches: \<^verbatim>\<open>commands/watch.rs\<close>, \<^verbatim>\<open>clock.rs\<close>, \<^verbatim>\<open>query.rs\<close>,
  \<^verbatim>\<open>state.rs\<close>, \<^verbatim>\<open>subscribe.rs\<close>, \<^verbatim>\<open>trigger.rs\<close> and \<^verbatim>\<open>debug.rs\<close>.
\<close>

section \<open>Watches\<close>

definition arg_path :: "wire_value list \<Rightarrow> string handler" where
  "arg_path = str_arg 0 ''expected a path argument''"

definition default_watcher_name :: string where
  "default_watcher_name = ''inotify''"

fun reg_message :: "('g, 'x, 'n) cmd_env \<Rightarrow> register_error \<Rightarrow> string" where
  "reg_message E (RegMetadata p) = ''resolving metadata for '' @ to_string_lossy p @ '': '' @ ce_io_error E"
| "reg_message E (RegNotDir p) = ''watch root '' @ to_string_lossy p @ '' is not a directory''"
| "reg_message E RegWatcher = ce_watch_error E"

text \<open>The directory a root's triggers are saved in, before there is a root.\<close>

definition trigger_dir_for :: "path \<Rightarrow> path \<Rightarrow> path option" where
  "trigger_dir_for sock p =
     map_option (\<lambda>d. path_join (path_join d [Normal ''roots'']) (path_of (path_slug p))) (path_parent sock)"

definition saved_triggers :: "world \<Rightarrow> path \<Rightarrow> byte list option" where
  "saved_triggers w p = Option.bind (trigger_dir_for (sock_path (w_daemon w)) p) (w_disk w)"

definition trigger_tasks :: "path \<Rightarrow> root \<Rightarrow> trigger_task list" where
  "trigger_tasks p r =
     map (\<lambda>t. \<lparr> tg_root = p, tg_number = rnumber r, tg_last_tick = current_tick (rclock r), tg_trigger = t \<rparr>)
       (list_triggers r)"

text \<open>
  \<^verbatim>\<open>DaemonState::register_root\<close> on the world: a new watch also starts the loops of the triggers it found
  on disk (also when its watcher then fails to start, in which case they end with the dropped root).
\<close>

definition register :: "('g, 'x, 'n) cmd_env \<Rightarrow> path \<Rightarrow> root handler" where
  "register E p w =
     (let env = (ce_register E p)\<lparr>reg_triggers := saved_triggers w p\<rparr>;
          known = im_contains p (roots (w_daemon w));
          (res, d) = register_root (ce_serde E) (ce_codec E) env p (w_daemon w);
          w' = w\<lparr>w_daemon := d\<rparr>
      in case res of
           Inl err \<Rightarrow> (Inl (Internal (reg_message E err)), w')
         | Inr r \<Rightarrow> (Inr r, if known then w' else w'\<lparr>w_triggers := w_triggers w @ trigger_tasks p r\<rparr>))"

definition canonical_arg :: "('g, 'x, 'n) cmd_env \<Rightarrow> wire_value list \<Rightarrow> path handler" where
  "canonical_arg E args =
     hbind (arg_path args) (\<lambda>s.
       case ce_canonicalize E s of Inl e \<Rightarrow> hfail (Internal (''canonicalize: '' @ e)) | Inr c \<Rightarrow> hreturn c)"

definition watch_cmd :: "('g, 'x, 'n) cmd_env \<Rightarrow> wire_value list \<Rightarrow> wire_value handler" where
  "watch_cmd E args =
     hbind (canonical_arg E args) (\<lambda>c.
     hbind (register E c) (\<lambda>_.
     hreturn (obj [(''watch'', VString (to_string_lossy c)), (''watcher'', VString default_watcher_name)])))"

definition ROOT_MARKERS :: "string list" where
  "ROOT_MARKERS = [''.watchmanconfig'', ''.git'', ''.hg'', ''.svn'', ''.jj'', ''package.json'', ''Cargo.toml'',
     ''mix.exs'', ''pyproject.toml'', ''go.mod'']"

definition has_root_marker :: "('g, 'x, 'n) cmd_env \<Rightarrow> path \<Rightarrow> bool" where
  "has_root_marker E dir = list_ex (\<lambda>m. ce_exists E (path_join dir (path_of m))) ROOT_MARKERS"

lemma path_parent_shorter: "path_parent p = Some q \<Longrightarrow> length q < length p"
  by (auto simp: path_parent_def split: if_splits list.splits path_component.splits)

function resolve_from :: "('g, 'x, 'n) cmd_env \<Rightarrow> path \<Rightarrow> path \<Rightarrow> path \<times> path option" where
  "resolve_from E start cur =
     (case path_parent cur of
        None \<Rightarrow> (start, None)
      | Some parent \<Rightarrow>
          if has_root_marker E cur then
            (cur, case path_strip_prefix cur start of None \<Rightarrow> None | Some r \<Rightarrow> if r = [] then None else Some r)
          else resolve_from E start parent)"
  by pat_completeness auto
termination
  by (relation "measure (\<lambda>(E, start, cur). length cur)") (auto dest: path_parent_shorter)

declare resolve_from.simps [simp del]

definition resolve_project_root :: "('g, 'x, 'n) cmd_env \<Rightarrow> path \<Rightarrow> path \<times> path option" where
  "resolve_project_root E start = resolve_from E start start"

definition watch_project_cmd :: "('g, 'x, 'n) cmd_env \<Rightarrow> wire_value list \<Rightarrow> wire_value handler" where
  "watch_project_cmd E args =
     hbind (canonical_arg E args) (\<lambda>c.
     let (rt, rel) = resolve_project_root E c in
     hbind (register E rt) (\<lambda>_.
     hreturn (obj ([(''watch'', VString (to_string_lossy rt)), (''watcher'', VString default_watcher_name)]
       @ (case rel of None \<Rightarrow> [] | Some p \<Rightarrow> [(''relative_path'', VString (to_string_lossy p))])))))"

definition path_values :: "path list \<Rightarrow> wire_value" where
  "path_values ps = VArray (map (\<lambda>p. VString (to_string_lossy p)) ps)"

definition watch_list_cmd :: "wire_value handler" where
  "watch_list_cmd = hbind (hdaemon (\<lambda>d. (list_roots d, d))) (\<lambda>ps. hreturn (obj [(''roots'', path_values ps)]))"

definition watch_del_cmd :: "('g, 'x, 'n) cmd_env \<Rightarrow> wire_value list \<Rightarrow> wire_value handler" where
  "watch_del_cmd E args =
     hbind (arg_path args) (\<lambda>s.
     let c = canonical E s in
     hbind (hdaemon (unregister_root c)) (\<lambda>removed.
     hreturn (obj [(''watch-del'', VBool removed), (''root'', VString (to_string_lossy c))])))"

definition watch_del_all_cmd :: "wire_value handler" where
  "watch_del_all_cmd = hbind (hdaemon drain_roots) (\<lambda>ps. hreturn (obj [(''roots'', path_values ps)]))"

section \<open>Clock and queries\<close>

definition clock_cmd :: "('g, 'x, 'n) cmd_env \<Rightarrow> wire_value list \<Rightarrow> wire_value handler" where
  "clock_cmd E args =
     hbind (find_root E ''expected a root path'' args) (\<lambda>(p, r).
     hbind (on_root p bump_clock r) (\<lambda>(_, r').
     hreturn (obj [(''clock'', VString (clock_string r'))])))"

definition query_cmd :: "('g, 'x, 'n) cmd_env \<Rightarrow> wire_value list \<Rightarrow> wire_value handler" where
  "query_cmd E args =
     hbind (find_root E ''query requires a root'' args) (\<lambda>(p, r).
     hbind (hlift (ok_or (BadArgs ''query requires a spec object'') (nth_arg 1 args))) (\<lambda>raw.
     hbind (hlift (parse_spec (ce_query E) raw)) (\<lambda>spec.
     hbind (if jj_events r \<and> \<not> is_jj_fsmonitor_query spec then on_root p (no_result (promote E)) r
            else hreturn ((), r)) (\<lambda>(_, r1).
     hbind (on_root p (\<lambda>r. run (ce_query E) r spec) r1) (\<lambda>(res, _).
     hreturn (result_to_pdu p res))))))"

text \<open>\<^verbatim>\<open>find\<close> and \<^verbatim>\<open>since\<close>: a query built from the arguments, always on the full index.\<close>

definition full_query :: "('g, 'x, 'n) cmd_env \<Rightarrow> path \<Rightarrow> root \<Rightarrow> vobject \<Rightarrow> wire_value handler" where
  "full_query E p r spec_obj =
     hbind (hlift (parse_spec (ce_query E) (VObject spec_obj))) (\<lambda>spec.
     hbind (on_root p (no_result (promote E)) r) (\<lambda>(_, r1).
     hbind (on_root p (\<lambda>r. run (ce_query E) r spec) r1) (\<lambda>(res, _).
     hreturn (result_to_pdu p res))))"

definition find_cmd :: "('g, 'x, 'n) cmd_env \<Rightarrow> wire_value list \<Rightarrow> wire_value handler" where
  "find_cmd E args =
     hbind (find_root E ''find requires a root'' args) (\<lambda>(p, r).
     let patterns = List.map_filter as_str (tl args) in
     full_query E p r (if patterns = [] then [] else [(''glob'', VArray (map VString patterns))]))"

definition since_cmd :: "('g, 'x, 'n) cmd_env \<Rightarrow> wire_value list \<Rightarrow> wire_value handler" where
  "since_cmd E args =
     hbind (find_root E ''since requires a root'' args) (\<lambda>(p, r).
     hbind (str_arg 1 ''since requires a clock'' args) (\<lambda>c.
     full_query E p r [(''since'', VString c)]))"

section \<open>Asserted states\<close>

fun state_name :: "wire_value \<Rightarrow> string option" where
  "state_name (VString s) = Some s"
| "state_name (VObject m) = Option.bind (im_get m ''name'') as_str"
| "state_name _ = None"

definition parse_state :: "('g, 'x, 'n) cmd_env \<Rightarrow> wire_value list \<Rightarrow> (path \<times> root \<times> string) handler" where
  "parse_state E args =
     hbind (find_root E ''expected a root path'' args) (\<lambda>(p, r).
     hbind (hlift (ok_or (BadArgs ''expected a state name'') (Option.bind (nth_arg 1 args) state_name))) (\<lambda>name.
     hreturn (p, r, name)))"

definition state_enter_cmd :: "('g, 'x, 'n) cmd_env \<Rightarrow> wire_value list \<Rightarrow> wire_value handler" where
  "state_enter_cmd E args =
     hbind (parse_state E args) (\<lambda>(p, r, name).
     hbind (on_root p (no_result (\<lambda>r. r\<lparr>asserted_states := List.insert name (asserted_states r)\<rparr>)) r) (\<lambda>_.
     hreturn (obj [(''state-enter'', VString name)])))"

definition state_leave_cmd :: "('g, 'x, 'n) cmd_env \<Rightarrow> wire_value list \<Rightarrow> wire_value handler" where
  "state_leave_cmd E args =
     hbind (parse_state E args) (\<lambda>(p, r, name).
     hbind (on_root p (no_result (\<lambda>r. r\<lparr>asserted_states := removeAll name (asserted_states r)\<rparr>)) r) (\<lambda>_.
     hreturn (obj [(''state-leave'', VString name)])))"

section \<open>Subscriptions\<close>

text \<open>
  \<open>subscribe_query\<close> is the handler up to the end of its initial query; \<open>subscribe_arm\<close> is the rest, which
  registers the subscription and starts the push loop from the root's current tick.
\<close>

definition parse_subscribe_args ::
  "('g, 'x, 'n) cmd_env \<Rightarrow> wire_value list \<Rightarrow> (path \<times> root \<times> string \<times> wire_value) handler" where
  "parse_subscribe_args E args =
     hbind (find_root E ''subscribe requires a root'' args) (\<lambda>(p, r).
     hbind (str_arg 1 ''subscribe requires a name'' args) (\<lambda>name.
     hbind (hlift (ok_or (BadArgs ''subscribe requires a query spec'') (nth_arg 2 args))) (\<lambda>spec.
     hreturn (p, r, name, spec))))"

definition subscribe_query ::
  "('g, 'x, 'n) cmd_env \<Rightarrow> wire_value list \<Rightarrow> (path \<times> string \<times> wire_value \<times> query_result) handler" where
  "subscribe_query E args =
     hbind (parse_subscribe_args E args) (\<lambda>(p, r, name, raw).
     hbind (hlift (parse_spec (ce_query E) raw)) (\<lambda>spec.
     hbind (on_root p (no_result (promote E)) r) (\<lambda>(_, r1).
     hbind (on_root p (\<lambda>r. run (ce_query E) r spec) r1) (\<lambda>(initial, _).
     hreturn (p, name, raw, initial)))))"

definition subscribe_arm ::
  "nat \<Rightarrow> path \<times> string \<times> wire_value \<times> query_result \<Rightarrow> wire_value handler" where
  "subscribe_arm session found w =
     (let (p, name, raw, initial) = found;
          response = obj [(''version'', VString WATCHMAN_COMPAT_VERSION), (''subscribe'', VString name),
            (''clock'', VString (res_clock initial)),
            (''is_fresh_instance'', VBool (res_is_fresh_instance initial)),
            (''root'', VString (to_string_lossy p)), (''files'', VArray (res_files initial))]
      in case im_get (roots (w_daemon w)) p of
           None \<Rightarrow> (Inr response, w)
         | Some r \<Rightarrow>
             (let r' = add_subscription \<lparr> sub_name = name, sub_query = raw \<rparr> r;
                  task = \<lparr> pu_root = p, pu_number = rnumber r, pu_last_tick = current_tick (rclock r'),
                    pu_session = session, pu_name = name, pu_spec = raw \<rparr>
              in (Inr response, w\<lparr>w_daemon := put_root p r' (w_daemon w), w_pushes := w_pushes w @ [task]\<rparr>)))"

definition subscribe_cmd :: "('g, 'x, 'n) cmd_env \<Rightarrow> nat \<Rightarrow> wire_value list \<Rightarrow> wire_value handler" where
  "subscribe_cmd E session args = hbind (subscribe_query E args) (subscribe_arm session)"

definition unsubscribe_cmd :: "('g, 'x, 'n) cmd_env \<Rightarrow> wire_value list \<Rightarrow> wire_value handler" where
  "unsubscribe_cmd E args =
     hbind (find_root E ''unsubscribe requires a root'' args) (\<lambda>(p, r).
     hbind (str_arg 1 ''unsubscribe requires a name'' args) (\<lambda>name.
     hbind (on_root p (remove_subscription name) r) (\<lambda>(removed, _).
     hreturn (obj [(''unsubscribed'', VBool removed), (''subscription'', VString name)]))))"

definition flush_subscriptions_cmd :: "('g, 'x, 'n) cmd_env \<Rightarrow> wire_value list \<Rightarrow> wire_value handler" where
  "flush_subscriptions_cmd E args =
     hbind (find_root E ''flush requires a root'' args) (\<lambda>(p, r).
     hreturn (obj [(''synced'', VArray (map (\<lambda>(_, s). VString (sub_name s)) (subscriptions r)))]))"

section \<open>Triggers\<close>

fun parse_stdin :: "wire_value option \<Rightarrow> trigger_stdin option" where
  "parse_stdin (Some (VString s)) =
     (if s = ''NAME_PER_LINE'' then Some NamePerLine
      else if s = ''json'' \<or> s = ''JSON'' then Some JsonName else None)"
| "parse_stdin _ = None"

definition parse_trigger :: "wire_value \<Rightarrow> command_error + trigger" where
  "parse_trigger spec =
     sbind (ok_or (BadArgs ''trigger spec must be an object'') (as_object spec)) (\<lambda>m.
     sbind (ok_or (BadArgs ''trigger.name is required'') (Option.bind (im_get m ''name'') as_str)) (\<lambda>name.
     sbind (ok_or (BadArgs ''trigger.command array is required'')
       (Option.bind (im_get m ''command'') as_array)) (\<lambda>command.
     Inr \<lparr> tr_name = name, tr_command = List.map_filter as_str command,
           tr_expression = (case im_get m ''expression'' of None \<Rightarrow> VString ''true'' | Some v \<Rightarrow> v),
           tr_append_files = bool_option m ''append_files'' False,
           tr_stdin = parse_stdin (im_get m ''stdin''),
           tr_max_files_stdin =
             map_option (\<lambda>n. nat (max n 0)) (Option.bind (im_get m ''max_files_stdin'') as_i64_value) \<rparr>)))"

definition trigger_to_value :: "trigger \<Rightarrow> wire_value" where
  "trigger_to_value t =
     obj ([(''name'', VString (tr_name t)), (''command'', VArray (map VString (tr_command t))),
           (''expression'', tr_expression t), (''append_files'', VBool (tr_append_files t))]
       @ (case tr_stdin t of
            None \<Rightarrow> []
          | Some NamePerLine \<Rightarrow> [(''stdin'', VString ''NAME_PER_LINE'')]
          | Some JsonName \<Rightarrow> [(''stdin'', VString ''json'')])
       @ (case tr_max_files_stdin t of
            None \<Rightarrow> []
          | Some n \<Rightarrow> [(''max_files_stdin'', VInt (as_i64 (int n)))]))"

text \<open>An operation on a root that also saves the root's triggers.\<close>

definition on_root_disk ::
  "path \<Rightarrow> (root \<Rightarrow> byte list option \<Rightarrow> 'a \<times> root \<times> byte list option) \<Rightarrow> root \<Rightarrow> ('a \<times> root) handler" where
  "on_root_disk p f r w =
     (let key = trigger_persist_dir r;
          (x, r', disk) = f r (Option.bind key (w_disk w));
          files = (case key of None \<Rightarrow> w_disk w | Some k \<Rightarrow> (w_disk w)(k := disk))
      in (Inr (x, r'), w\<lparr>w_daemon := put_root p r' (w_daemon w), w_disk := files\<rparr>))"

definition spawn_trigger_loop :: "path \<Rightarrow> root \<Rightarrow> trigger \<Rightarrow> unit handler" where
  "spawn_trigger_loop p r t w =
     (Inr (), w\<lparr>w_triggers := w_triggers w @ [\<lparr> tg_root = p, tg_number = rnumber r,
        tg_last_tick = current_tick (rclock r), tg_trigger = t \<rparr>]\<rparr>)"

definition parse_trigger_spec ::
  "('g, 'x, 'n) cmd_env \<Rightarrow> wire_value list \<Rightarrow> (path \<times> root \<times> wire_value) handler" where
  "parse_trigger_spec E args =
     hbind (find_root E ''trigger requires a root'' args) (\<lambda>(p, r).
     hbind (hlift (ok_or (BadArgs ''trigger requires a spec'') (nth_arg 1 args))) (\<lambda>spec.
     hreturn (p, r, spec)))"

definition trigger_cmd :: "('g, 'x, 'n) cmd_env \<Rightarrow> wire_value list \<Rightarrow> wire_value handler" where
  "trigger_cmd E args =
     hbind (parse_trigger_spec E args) (\<lambda>(p, r, spec).
     hbind (hlift (parse_trigger spec)) (\<lambda>t.
     hbind (if tr_name t \<noteq> JJ_TRIGGER then on_root p (no_result (promote E)) r else hreturn ((), r)) (\<lambda>(_, r1).
     hbind (on_root_disk p (\<lambda>r disk. ((), install_trigger (ce_serde E) (ce_codec E) (ce_save E) t r disk)) r1) (\<lambda>(_, r2).
     hbind (spawn_trigger_loop p r2 t) (\<lambda>_.
     hreturn (obj [(''trigger'', VString (tr_name t))]))))))"

definition trigger_resolve_root :: "('g, 'x, 'n) cmd_env \<Rightarrow> wire_value list \<Rightarrow> (path \<times> root) handler" where
  "trigger_resolve_root E = find_root E ''trigger command requires a root''"

definition trigger_list_cmd :: "('g, 'x, 'n) cmd_env \<Rightarrow> wire_value list \<Rightarrow> wire_value handler" where
  "trigger_list_cmd E args =
     hbind (trigger_resolve_root E args) (\<lambda>(p, r).
     hreturn (obj [(''triggers'', VArray (map trigger_to_value (list_triggers r)))]))"

definition trigger_del_cmd :: "('g, 'x, 'n) cmd_env \<Rightarrow> wire_value list \<Rightarrow> wire_value handler" where
  "trigger_del_cmd E args =
     hbind (trigger_resolve_root E args) (\<lambda>(p, r).
     hbind (str_arg 1 ''trigger-del requires a name'' args) (\<lambda>name.
     hbind (on_root_disk p (remove_trigger (ce_serde E) (ce_codec E) (ce_save E) name) r) (\<lambda>(removed, _).
     hreturn (obj [(''deleted'', VBool removed), (''trigger'', VString name)]))))"

section \<open>Debugging\<close>

definition debug_resolve_root :: "('g, 'x, 'n) cmd_env \<Rightarrow> wire_value list \<Rightarrow> (path \<times> root) handler" where
  "debug_resolve_root E = find_root E ''debug command requires a root''"

definition root_value :: "root \<Rightarrow> string \<times> wire_value" where
  "root_value r = (''root'', VString (to_string_lossy (rpath r)))"

definition recrawl_cmd :: "('g, 'x, 'n) cmd_env \<Rightarrow> wire_value list \<Rightarrow> wire_value handler" where
  "recrawl_cmd E args =
     hbind (debug_resolve_root E args) (\<lambda>(p, r).
     hbind (on_root p invalidate_jj_events r) (\<lambda>(was_jj, r1).
     if was_jj then hreturn (obj [(''recrawled'', VBool True), root_value r1, (''files'', VInt 0)])
     else (let es = initial_scan (ignores r1) (ce_scan E (rpath r1)) in
       hbind (on_root p (seed es) r1) (\<lambda>(_, r2).
       hreturn (obj [(''recrawled'', VBool True), root_value r2, (''files'', VInt (as_i64 (int (length es))))])))))"

definition inject_drop_cmd :: "('g, 'x, 'n) cmd_env \<Rightarrow> wire_value list \<Rightarrow> wire_value handler" where
  "inject_drop_cmd E args =
     hbind (debug_resolve_root E args) (\<lambda>(p, r).
     hbind (on_root p invalidate_jj_events r) (\<lambda>(was_jj, _).
     hreturn (obj [(''injected'', VBool was_jj)])))"

fun ageout_loop :: "path list \<Rightarrow> int \<Rightarrow> daemon \<Rightarrow> int \<times> daemon" where
  "ageout_loop [] freed d = (freed, d)"
| "ageout_loop (p # ps) freed d =
     (case im_get (roots d) p of
        None \<Rightarrow> ageout_loop ps freed d
      | Some r \<Rightarrow>
          (let ((_, removed), r') = prune_tombstones r
           in ageout_loop ps (as_i64 (freed + as_i64 (int removed))) (put_root p r' d)))"

definition ageout_cmd :: "wire_value list \<Rightarrow> wire_value handler" where
  "ageout_cmd args =
     hbind (hdaemon (\<lambda>d. ageout_loop (list_roots d) 0 d)) (\<lambda>freed.
     hreturn (obj [(''ageout'', VBool True), (''files'', VInt freed)]))"

definition show_cursors_cmd :: "('g, 'x, 'n) cmd_env \<Rightarrow> wire_value list \<Rightarrow> wire_value handler" where
  "show_cursors_cmd E args =
     hbind (debug_resolve_root E args) (\<lambda>(p, r).
     hreturn (obj [(''cursors'',
       obj (map (\<lambda>(name, tick). (''n:'' @ name, VString (clock_encode (rclock r) tick))) (cursors r)))]))"

definition get_asserted_states_cmd :: "('g, 'x, 'n) cmd_env \<Rightarrow> wire_value list \<Rightarrow> wire_value handler" where
  "get_asserted_states_cmd E args =
     hbind (debug_resolve_root E args) (\<lambda>(p, r).
     hreturn (obj [root_value r, (''states'', VArray (map VString (asserted_states r)))]))"

definition get_subscriptions_cmd :: "('g, 'x, 'n) cmd_env \<Rightarrow> wire_value list \<Rightarrow> wire_value handler" where
  "get_subscriptions_cmd E args =
     hbind (debug_resolve_root E args) (\<lambda>(p, r).
     hreturn (obj [(''subscriptions'',
       VArray (map (\<lambda>(_, s). obj [(''name'', VString (sub_name s)), (''query'', sub_query s)]) (subscriptions r)))]))"

definition root_status_cmd :: "('g, 'x, 'n) cmd_env \<Rightarrow> wire_value list \<Rightarrow> wire_value handler" where
  "root_status_cmd E args =
     hbind (debug_resolve_root E args) (\<lambda>(p, r).
     hreturn (obj [root_value r, (''num_files'', VInt (as_i64 (int (tree_len (rtree r))))),
       (''clock'', VString (clock_string r))]))"

definition debug_status_cmd :: "('g, 'x, 'n) cmd_env \<Rightarrow> wire_value handler" where
  "debug_status_cmd E =
     hbind (hdaemon (\<lambda>d. (list_roots d, d))) (\<lambda>ps.
     hreturn (obj [(''roots'', path_values ps), (''pid'', VInt (int (ce_pid E)))]))"

definition watcher_info_cmd :: "('g, 'x, 'n) cmd_env \<Rightarrow> wire_value list \<Rightarrow> wire_value handler" where
  "watcher_info_cmd E args =
     hbind (debug_resolve_root E args) (\<lambda>(p, r).
     hreturn (obj [root_value r, (''watcher'', VString ''inotify'')]))"

definition contenthash_cmd :: "('g, 'x, 'n) cmd_env \<Rightarrow> wire_value list \<Rightarrow> wire_value handler" where
  "contenthash_cmd E args =
     hbind (debug_resolve_root E args) (\<lambda>(p, r).
     hreturn (obj [root_value r, (''enabled'', VBool True)]))"

end
