(* ===== verification/Info.thy ===== *)
theory Info
  imports Commands Rust_Text
begin

text \<open>
  Information about the daemon (\<^verbatim>\<open>commands/info.rs\<close>): the capabilities it announces, its configuration and
  the status report, as built for Linux. What the operating system and the allocator report is the
  parameter \<open>info_env\<close>.
\<close>

section \<open>Capabilities\<close>

definition CAPABILITIES :: "string list" where
  "CAPABILITIES = [
    ''bser-v2'', ''clock-sync-timeout'', ''cmd-clock'', ''cmd-debug-ageout'', ''cmd-debug-contenthash'',
    ''cmd-debug-fsevents-inject-drop'', ''cmd-debug-get-asserted-states'', ''cmd-debug-get-subscriptions'',
    ''cmd-debug-kqueue-and-fsevents-recrawl'', ''cmd-debug-poll-for-settle'', ''cmd-debug-recrawl'',
    ''cmd-debug-root-status'', ''cmd-debug-set-parallel-crawl'', ''cmd-debug-set-subscriptions-paused'',
    ''cmd-debug-show-cursors'', ''cmd-debug-status'', ''cmd-debug-symlink-target-cache'',
    ''cmd-debug-watcher-info'', ''cmd-debug-watcher-info-clear'', ''cmd-find'', ''cmd-flush-subscriptions'',
    ''cmd-get-config'', ''cmd-get-log'', ''cmd-get-pid'', ''cmd-get-sockname'', ''cmd-global-log-level'',
    ''cmd-list-capabilities'', ''cmd-log'', ''cmd-log-level'', ''cmd-query'', ''cmd-shutdown-server'',
    ''cmd-since'', ''cmd-status'', ''cmd-state-enter'', ''cmd-state-leave'', ''cmd-subscribe'',
    ''cmd-trigger'', ''cmd-trigger-del'', ''cmd-trigger-list'', ''cmd-unsubscribe'', ''cmd-version'',
    ''cmd-watch'', ''cmd-watch-del'', ''cmd-watch-del-all'', ''cmd-watch-list'', ''cmd-watch-project'',
    ''dedup_results'', ''field-cclock'', ''field-content.sha1hex'', ''field-ctime'', ''field-ctime_f'',
    ''field-ctime_ms'', ''field-ctime_ns'', ''field-ctime_us'', ''field-dev'', ''field-exists'',
    ''field-gid'', ''field-ino'', ''field-mode'', ''field-mtime'', ''field-mtime_f'', ''field-mtime_ms'',
    ''field-mtime_ns'', ''field-mtime_us'', ''field-name'', ''field-new'', ''field-nlink'',
    ''field-oclock'', ''field-size'', ''field-symlink_target'', ''field-type'', ''field-uid'',
    ''glob_generator'', ''path_generator'', ''relative_root'', ''scm-git'', ''scm-hg'', ''scm-since'',
    ''suffix-set'', ''term-allof'', ''term-anyof'', ''term-dirname'', ''term-empty'', ''term-exists'',
    ''term-false'', ''term-idirname'', ''term-imatch'', ''term-iname'', ''term-ipcre'', ''term-match'',
    ''term-name'', ''term-not'', ''term-pcre'', ''term-since'', ''term-size'', ''term-suffix'',
    ''term-true'', ''term-type'', ''wildmatch'', ''wildmatch-multislash'']"

definition WATCHER_CAPABILITY :: string where "WATCHER_CAPABILITY = ''watcher-inotify''"

definition WATCHWOMAN_VERSION :: string where "WATCHWOMAN_VERSION = ''0.8.3''"

definition has_capability :: "string \<Rightarrow> bool" where
  "has_capability name \<longleftrightarrow> name \<in> set CAPABILITIES \<or> name = WATCHER_CAPABILITY"

section \<open>Simple answers\<close>

record info_env =
  in_config :: "path \<Rightarrow> byte list option"
  in_uptime :: nat
  in_rusage :: "((int \<times> int) \<times> (int \<times> int)) option"
  in_proc_status :: "string option"
  in_proc_statm :: "string option"
  in_page_size :: int
  in_allocator :: string
  in_allocated :: "nat option"
  in_active :: "nat option"
  in_mapped :: "nat option"
  in_arena_bytes :: "path \<Rightarrow> nat"
  in_entry_size :: nat

definition get_sockname_cmd :: "wire_value handler" where
  "get_sockname_cmd w =
     (let s = to_string_lossy (sock_path (w_daemon w))
      in (Inr (obj [(''version'', VString WATCHMAN_COMPAT_VERSION), (''sockname'', VString s),
            (''unix_domain'', VString s)]), w))"

definition get_pid_cmd :: "('g, 'x, 'n) cmd_env \<Rightarrow> wire_value handler" where
  "get_pid_cmd E = hreturn (obj [(''pid'', VInt (int (ce_pid E)))])"

text \<open>The strings of the array stored under a key; anything else counts as absent.\<close>

definition names_under :: "string \<Rightarrow> vobject \<Rightarrow> string list" where
  "names_under key m =
     (case Option.bind (im_get m key) as_array of None \<Rightarrow> [] | Some a \<Rightarrow> List.map_filter as_str a)"

definition missing_capability :: "string list \<Rightarrow> string option" where
  "missing_capability names =
     map_option (\<lambda>n. ''required capability `'' @ n @ ''` is not supported'')
       (List.find (\<lambda>n. \<not> has_capability n) names)"

definition version_cmd :: "wire_value list \<Rightarrow> wire_value handler" where
  "version_cmd args =
     (let m = (case Option.bind (nth_arg 0 args) as_object of None \<Rightarrow> [] | Some m \<Rightarrow> m);
          required = names_under ''required'' m;
          optional = names_under ''optional'' m;
          caps = im_inserts (map (\<lambda>n. (n, VBool (has_capability n))) (required @ optional)) [];
          err = missing_capability required
      in hreturn (obj ([(''version'', VString WATCHMAN_COMPAT_VERSION),
             (''buildinfo'', VString (''watchwoman '' @ WATCHWOMAN_VERSION))]
           @ (if caps = [] then [] else [(''capabilities'', VObject caps)])
           @ (case err of None \<Rightarrow> [] | Some e \<Rightarrow> [(''error'', VString e)]))))"

definition list_capabilities_cmd :: "wire_value handler" where
  "list_capabilities_cmd =
     hreturn (obj [(''capabilities'', VArray (map VString (CAPABILITIES @ [WATCHER_CAPABILITY])))])"

definition get_config_cmd :: "('g, 'x, 'n) cmd_env \<Rightarrow> info_env \<Rightarrow> wire_value list \<Rightarrow> wire_value handler" where
  "get_config_cmd E I args =
     hreturn (obj [(''config'',
       case Option.bind (nth_arg 0 args) as_str of
         None \<Rightarrow> VObject []
       | Some p \<Rightarrow>
           (case Option.bind (in_config I (path_join (path_of p) [Normal ''.watchmanconfig''])) (from_text (ce_serde E)) of
              None \<Rightarrow> VObject []
            | Some j \<Rightarrow> info_json_to_value (ce_serde E) j))])"

definition get_log_cmd :: "wire_value handler" where
  "get_log_cmd = hreturn (obj [(''log'', VArray [])])"

definition log_level_cmd :: "wire_value list \<Rightarrow> wire_value handler" where
  "log_level_cmd args = hreturn (obj [(''log_level'', VString ''warn'')])"

definition log_cmd :: "wire_value list \<Rightarrow> wire_value handler" where
  "log_cmd args =
     hbind (str_arg 1 ''log message missing'' args) (\<lambda>msg. hreturn (obj [(''logged'', VBool True)]))"

section \<open>Resource usage\<close>

definition sat64 :: "nat \<Rightarrow> nat" where
  "sat64 n = min n (2 ^ 64 - 1)"

text \<open>The sum of a saturated product and a small quotient is the one addition that can wrap.\<close>

definition to_ms :: "int \<times> int \<Rightarrow> nat" where
  "to_ms t = (sat64 (nat (max (fst t) 0) * 1000) + nat (max (snd t) 0) div 1000) mod 2 ^ 64"

definition proc_kb :: "string \<Rightarrow> string \<Rightarrow> nat option" where
  "proc_kb status prefix =
     Option.bind (List.find (\<lambda>l. starts_with l prefix) (lines status)) (\<lambda>l.
       let ws = split_whitespace l in if 1 < length ws then parse_uint u64_max (ws ! 1) else None)"

definition current_footprint_bytes :: "info_env \<Rightarrow> nat option" where
  "current_footprint_bytes I =
     Option.bind (in_proc_status I) (\<lambda>status.
       map_option (\<lambda>rss.
         let swap = (case proc_kb status ''VmSwap:'' of None \<Rightarrow> 0 | Some n \<Rightarrow> n)
         in sat64 (sat64 (rss + swap) * 1024)) (proc_kb status ''VmRSS:''))"

definition page_size_bytes :: "info_env \<Rightarrow> nat option" where
  "page_size_bytes I = (if 0 < in_page_size I then Some (nat (in_page_size I)) else None)"

definition current_rss_bytes :: "info_env \<Rightarrow> nat option" where
  "current_rss_bytes I =
     Option.bind (in_proc_statm I) (\<lambda>s.
       let ws = split_whitespace s in
       Option.bind (if 1 < length ws then parse_uint u64_max (ws ! 1) else None) (\<lambda>pages.
         map_option (\<lambda>page. sat64 (pages * page)) (page_size_bytes I)))"

record self_usage =
  us_rss_bytes :: nat
  us_footprint_bytes :: nat
  us_user_cpu_ms :: nat
  us_system_cpu_ms :: nat

definition self_resource_usage :: "info_env \<Rightarrow> self_usage" where
  "self_resource_usage I =
     (let rss = (case current_rss_bytes I of None \<Rightarrow> 0 | Some n \<Rightarrow> n)
      in \<lparr> us_rss_bytes = rss,
           us_footprint_bytes = (case current_footprint_bytes I of None \<Rightarrow> rss | Some n \<Rightarrow> n),
           us_user_cpu_ms = (case in_rusage I of None \<Rightarrow> 0 | Some (u, s) \<Rightarrow> to_ms u),
           us_system_cpu_ms = (case in_rusage I of None \<Rightarrow> 0 | Some (u, s) \<Rightarrow> to_ms s) \<rparr>)"

section \<open>The status report\<close>

definition classify_health :: "gc_env \<Rightarrow> bool \<Rightarrow> int \<Rightarrow> int \<Rightarrow> int \<Rightarrow> int \<Rightarrow> string" where
  "classify_health G present misses idle subs trigs =
     (if \<not> present then (if 2 \<le> misses then ''dead'' else ''missing'')
      else if 0 < subs \<or> 0 < trigs then ''active''
      else (let threshold = as_i64 (int (stale_idle_secs (gc_stale_var G)))
            in if 0 < threshold \<and> threshold \<le> idle then ''stale'' else ''idle''))"

text \<open>Counters are \<^verbatim>\<open>i64\<close> and wrap; the bytes of all trees are added with saturation.\<close>

definition wrap_sum :: "int list \<Rightarrow> int" where
  "wrap_sum xs = fold (\<lambda>x acc. as_i64 (acc + x)) xs 0"

definition sat_sum :: "nat list \<Rightarrow> nat" where
  "sat_sum xs = fold (\<lambda>x acc. sat64 (acc + x)) xs 0"

definition vnat :: "nat \<Rightarrow> wire_value" where
  "vnat n = VInt (as_i64 (int n))"

definition root_health :: "('g, 'x, 'n) cmd_env \<Rightarrow> path \<Rightarrow> root \<Rightarrow> string" where
  "root_health E p r =
     classify_health (ce_gc E) (gc_is_dir (ce_gc E) p) (int (missing_ticks r))
       (as_i64 (int (idle_seconds (ce_now E) r)))
       (as_i64 (int (subscription_count r))) (as_i64 (int (trigger_count r)))"

definition status_root :: "('g, 'x, 'n) cmd_env \<Rightarrow> info_env \<Rightarrow> path \<times> root \<Rightarrow> wire_value" where
  "status_root E I pr =
     (let (p, r) = pr in
      obj [(''path'', VString (to_string_lossy p)),
        (''num_files'', vnat (tree_len (rtree r))),
        (''live_files'', vnat (live_count (rtree r))),
        (''tombstones'', vnat (tombstone_count (rtree r))),
        (''tree_bytes_est'', vnat (in_arena_bytes I p)),
        (''index_mode'', VString (if jj_events r then ''jj-events'' else ''full'')),
        (''clock'', VString (clock_string r)),
        (''subscriptions'', vnat (subscription_count r)),
        (''triggers'', vnat (trigger_count r)),
        (''idle_seconds'', vnat (idle_seconds (ce_now E) r)),
        (''registered_at_unix'', vnat (registered_at r)),
        (''exists'', VBool (gc_is_dir (ce_gc E) p)),
        (''missing_ticks'', vnat (missing_ticks r)),
        (''health'', VString (root_health E p r))])"

definition insert_stat :: "string \<Rightarrow> nat option \<Rightarrow> (string \<times> wire_value) list" where
  "insert_stat key v = (case v of None \<Rightarrow> [] | Some n \<Rightarrow> [(key, vnat n)])"

definition status_memory :: "info_env \<Rightarrow> (path, root) imap \<Rightarrow> wire_value" where
  "status_memory I rs =
     (let usage = self_resource_usage I;
          tree_bytes = sat_sum (map (\<lambda>(p, r). in_arena_bytes I p) rs)
      in obj ([(''rss_bytes'', vnat (us_rss_bytes usage)),
           (''footprint_bytes'', vnat (us_footprint_bytes usage)),
           (''tree_bytes_est'', vnat tree_bytes),
           (''unaccounted_bytes'', vnat (us_footprint_bytes usage - tree_bytes)),
           (''live_entries'', VInt (wrap_sum (map (\<lambda>(p, r). as_i64 (int (live_count (rtree r)))) rs))),
           (''tombstone_entries'', VInt (wrap_sum (map (\<lambda>(p, r). as_i64 (int (tombstone_count (rtree r)))) rs))),
           (''entry_size_bytes'', vnat (in_entry_size I)),
           (''allocator'', VString (in_allocator I))]
         @ insert_stat ''allocator_allocated_bytes'' (in_allocated I)
         @ insert_stat ''allocator_active_bytes'' (in_active I)
         @ insert_stat ''allocator_mapped_bytes'' (in_mapped I)))"

definition reap_value :: "reap_event \<Rightarrow> wire_value" where
  "reap_value e =
     obj [(''path'', VString (to_string_lossy (reap_path e))), (''reason'', VString (reap_reason_str (reap_why e))),
       (''at_unix'', vnat (reap_at e))]"

definition status_cmd :: "('g, 'x, 'n) cmd_env \<Rightarrow> info_env \<Rightarrow> wire_value handler" where
  "status_cmd E I w =
     (let d = w_daemon w; rs = roots d; usage = self_resource_usage I;
          total = (\<lambda>f. VInt (wrap_sum (map (\<lambda>(p, r). as_i64 (int (f r))) rs)))
      in (Inr (obj
           [(''version'', VString WATCHWOMAN_VERSION),
            (''compat_version'', VString WATCHMAN_COMPAT_VERSION),
            (''pid'', VInt (int (ce_pid E))),
            (''sockname'', VString (to_string_lossy (sock_path d))),
            (''uptime_seconds'', vnat (in_uptime I)),
            (''started_at_unix'', vnat (started_at_unix d)),
            (''rss_bytes'', vnat (us_rss_bytes usage)),
            (''footprint_bytes'', vnat (us_footprint_bytes usage)),
            (''user_cpu_ms'', vnat (us_user_cpu_ms usage)),
            (''system_cpu_ms'', vnat (us_system_cpu_ms usage)),
            (''total_tracked_files'', total (\<lambda>r. tree_len (rtree r))),
            (''total_live_files'', total (\<lambda>r. live_count (rtree r))),
            (''total_tombstones'', total (\<lambda>r. tombstone_count (rtree r))),
            (''total_subscriptions'', total subscription_count),
            (''total_triggers'', total trigger_count),
            (''memory'', status_memory I rs),
            (''roots'', VArray (map (status_root E I) rs)),
            (''reaped'', VArray (map reap_value (reap_log d)))]), w))"

section \<open>Properties\<close>

lemma as_i64_small [simp]: "n < 2 ^ 63 \<Longrightarrow> as_i64 (int n) = int n"
  by (simp add: as_i64_of_nat)

lemma stale_idle_secs_bound: "stale_idle_secs v < 2 ^ 64"
proof -
  have "n < 2 ^ 64" if "parse_uint u64_max s = Some n" for s n
    using parse_uint_le [OF that] by (simp add: u64_max_def)
  then show ?thesis
    by (auto simp: stale_idle_secs_def STALE_IDLE_SECS_DEFAULT_def bind_eq_Some_conv split: option.splits)
qed

text \<open>The cast to \<^verbatim>\<open>i64\<close> of a threshold no idle time can reach is negative, so both tests fail.\<close>

lemma threshold_cast:
  assumes "n < 2 ^ 64" and "idle < 2 ^ 63"
  shows "(0 < as_i64 (int n) \<and> as_i64 (int n) \<le> int idle) \<longleftrightarrow> (0 < n \<and> n \<le> idle)"
proof (cases "n < 2 ^ 63")
  case False
  then have "as_i64 (int n) = int n - 2 ^ 64" using assms(1) by (intro as_i64_wraps) auto
  then show ?thesis using False assms by auto
qed simp

text \<open>
  C32. The health in the status report foretells the collector: were a sweep to run at that moment, it
  would unwatch precisely the roots reported stale and those reported missing for the second time, and
  keep the ones reported active or idle.
\<close>

theorem health_predicts_sweep:
  assumes "daemon_reach S C (w_daemon w)" and "im_get (roots (w_daemon w)) p = Some r" and "missing_ticks r \<le> 1"
    and "gc_now (ce_gc E) = ce_now E" and "ce_now E < 2 ^ 63"
    and "length (subscriptions r) < 2 ^ 63" and "length (triggers r) < 2 ^ 63"
  shows "im_get (roots (sweep (ce_gc E) (w_daemon w))) p = None \<longleftrightarrow>
    root_health E p r = ''stale'' \<or> (root_health E p r = ''missing'' \<and> missing_ticks r = 1)"
proof -
  have wf: "im_wf (roots (w_daemon w))" using daemon_reach_inv [OF assms(1)] by (simp add: daemon_inv_def)
  have idle: "ce_now E - last_used r < 2 ^ 63" using assms(5) by simp
  have "(root_health E p r = ''stale'' \<or> (root_health E p r = ''missing'' \<and> missing_ticks r = 1)) \<longleftrightarrow>
      survivor (ce_gc E) p r = None"
    using assms(3,4,6,7) idle threshold_cast [OF stale_idle_secs_bound [of "gc_stale_var (ce_gc E)"] idle]
    by (auto simp: survivor_cases root_health_def classify_health_def Let_def idle_seconds_def
        subscription_count_def trigger_count_def)
  then show ?thesis using wf assms(2) by (simp add: sweep_get)
qed

theorem health_predicts_sweep_witness:
  "im_get (roots (sweep (ce_gc sample_cmd_env) (w_daemon sample_world))) [RootDir, Normal ''w''] = None \<longleftrightarrow>
    root_health sample_cmd_env [RootDir, Normal ''w''] sample_watch = ''stale'' \<or>
    (root_health sample_cmd_env [RootDir, Normal ''w''] sample_watch = ''missing'' \<and> missing_ticks sample_watch = 1)"
proof (rule health_predicts_sweep)
  show "daemon_reach tiny_serde no_codec (w_daemon sample_world)"
    by (simp add: sample_world_def sample_daemon_reach)
  show "im_get (roots (w_daemon sample_world)) [RootDir, Normal ''w''] = Some sample_watch"
    by (simp add: sample_world_def sample_daemon_get)
  have "subscriptions sample_watch = [] \<and> triggers sample_watch = []"
    by (simp add: sample_watch_def build_root_def sample_reg_def Let_def load_watchman_config_def
        load_persisted_triggers_def seed_def bump_clock_def bump_def root_new_def list_triggers_def split: option.splits)
  then show "length (subscriptions sample_watch) < 2 ^ 63" "length (triggers sample_watch) < 2 ^ 63" by simp_all
qed (simp_all add: sample_cmd_env_def)

end
