(* ===== verification/Dispatch.thy ===== *)
theory Dispatch
  imports Info
begin

text \<open>
  Command dispatch (\<^verbatim>\<open>commands.rs\<close>): from a PDU to its response. The environment of a command is
  \<open>cmd_env\<close> and \<open>info_env\<close>; \<open>session\<close> is the number of the connection's session.
\<close>

fun command_error_str :: "command_error \<Rightarrow> string" where
  "command_error_str (UnknownCommand s) = ''unknown command: '' @ s"
| "command_error_str (BadArgs s) = ''bad args: '' @ s"
| "command_error_str (UnknownRoot s) = ''no such root: '' @ s"
| "command_error_str (NotImplemented s) = ''not implemented: '' @ s"
| "command_error_str (Internal s) = ''internal: '' @ s"

definition em_dash :: string where
  "em_dash = map char_of [226 :: nat, 128, 148]"

definition simple :: "string \<Rightarrow> wire_value \<Rightarrow> wire_value handler" where
  "simple key v = hreturn (obj [(key, v)])"

definition gc_tick_cmd :: "('g, 'x, 'n) cmd_env \<Rightarrow> wire_value handler" where
  "gc_tick_cmd E = hbind (hdaemon (\<lambda>d. ((), sweep (ce_gc E) d))) (\<lambda>_. simple ''swept'' (VBool True))"

definition shutdown_cmd :: "wire_value handler" where
  "shutdown_cmd = hbind (hdaemon (\<lambda>d. ((), request_shutdown d))) (\<lambda>_. simple ''shutdown'' (VBool True))"

definition handlers ::
  "('g, 'x, 'n) cmd_env \<Rightarrow> info_env \<Rightarrow> nat \<Rightarrow> wire_value list \<Rightarrow> (string \<times> wire_value handler) list" where
  "handlers E I session args =
     [(''get-sockname'', get_sockname_cmd),
      (''get-pid'', get_pid_cmd E),
      (''version'', version_cmd args),
      (''list-capabilities'', list_capabilities_cmd),
      (''get-config'', get_config_cmd E I args),
      (''log-level'', log_level_cmd args),
      (''log'', log_cmd args),
      (''status'', status_cmd E I),
      (''watch'', watch_cmd E args),
      (''watch-project'', watch_project_cmd E args),
      (''watch-list'', watch_list_cmd),
      (''watch-del'', watch_del_cmd E args),
      (''watch-del-all'', watch_del_all_cmd),
      (''clock'', clock_cmd E args),
      (''query'', query_cmd E args),
      (''find'', find_cmd E args),
      (''since'', since_cmd E args),
      (''subscribe'', subscribe_cmd E session args),
      (''unsubscribe'', unsubscribe_cmd E args),
      (''flush-subscriptions'', flush_subscriptions_cmd E args),
      (''state-enter'', state_enter_cmd E args),
      (''state-leave'', state_leave_cmd E args),
      (''trigger'', trigger_cmd E args),
      (''trigger-list'', trigger_list_cmd E args),
      (''trigger-del'', trigger_del_cmd E args),
      (''debug-recrawl'', recrawl_cmd E args),
      (''debug-ageout'', ageout_cmd args),
      (''debug-show-cursors'', show_cursors_cmd E args),
      (''debug-poll-for-settle'', simple ''collected'' (VBool True)),
      (''debug-get-asserted-states'', get_asserted_states_cmd E args),
      (''debug-get-subscriptions'', get_subscriptions_cmd E args),
      (''debug-root-status'', root_status_cmd E args),
      (''debug-status'', debug_status_cmd E),
      (''debug-watcher-info'', watcher_info_cmd E args),
      (''debug-watcher-info-clear'', simple ''cleared'' (VBool True)),
      (''debug-set-parallel-crawl'', simple ''parallel_crawl_enabled'' (VBool True)),
      (''debug-set-subscriptions-paused'', simple ''paused'' (VBool False)),
      (''debug-contenthash'', contenthash_cmd E args),
      (''debug-symlink-target-cache'', simple ''entries'' (VArray [])),
      (''debug-fsevents-inject-drop'', inject_drop_cmd E args),
      (''debug-kqueue-and-fsevents-recrawl'', recrawl_cmd E args),
      (''debug-gc-tick'', gc_tick_cmd E),
      (''debug-drop-privs'',
        hfail (BadArgs (''debug-drop-privs is refused by design '' @ em_dash @ '' watchwoman doesn'' @ [CHR 0x27] @ ''t run as root''))),
      (''debug-poison'',
        hfail (BadArgs (''debug-poison is refused '' @ em_dash @ '' use `shutdown-server` instead''))),
      (''get-log'', get_log_cmd),
      (''global-log-level'', log_level_cmd args),
      (''shutdown-server'', shutdown_cmd)]"

definition dispatch_inner ::
  "('g, 'x, 'n) cmd_env \<Rightarrow> info_env \<Rightarrow> nat \<Rightarrow> wire_value \<Rightarrow> wire_value handler" where
  "dispatch_inner E I session pdu =
     hbind (hlift (ok_or (BadArgs ''PDU must be an array'') (as_array pdu))) (\<lambda>arr.
     hbind (str_arg 0 ''missing command name'' arr) (\<lambda>name.
     case map_of (handlers E I session (tl arr)) name of
       Some h \<Rightarrow> h
     | None \<Rightarrow> hfail (UnknownCommand name)))"

definition error_value :: "command_error \<Rightarrow> wire_value" where
  "error_value e = obj [(''error'', VString (command_error_str e))]"

text \<open>Every response object gets a version, at the front when the handler has not set one.\<close>

fun add_version :: "wire_value \<Rightarrow> wire_value" where
  "add_version (VObject m) =
     (if im_contains ''version'' m then VObject m
      else VObject (im_insert_front ''version'' (VString WATCHMAN_COMPAT_VERSION) m))"
| "add_version v = v"

definition dispatch ::
  "('g, 'x, 'n) cmd_env \<Rightarrow> info_env \<Rightarrow> nat \<Rightarrow> wire_value \<Rightarrow> world \<Rightarrow> wire_value \<times> world" where
  "dispatch E I session pdu w =
     (case dispatch_inner E I session pdu w of
        (Inl e, w') \<Rightarrow> (add_version (error_value e), w')
      | (Inr v, w') \<Rightarrow> (add_version v, w'))"

section \<open>Every announced command exists\<close>

definition command_names :: "string list" where
  "command_names = [
    ''get-sockname'', ''get-pid'', ''version'', ''list-capabilities'', ''get-config'', ''log-level'',
    ''log'', ''status'', ''watch'', ''watch-project'', ''watch-list'', ''watch-del'', ''watch-del-all'',
    ''clock'', ''query'', ''find'', ''since'', ''subscribe'', ''unsubscribe'', ''flush-subscriptions'',
    ''state-enter'', ''state-leave'', ''trigger'', ''trigger-list'', ''trigger-del'', ''debug-recrawl'',
    ''debug-ageout'', ''debug-show-cursors'', ''debug-poll-for-settle'', ''debug-get-asserted-states'',
    ''debug-get-subscriptions'', ''debug-root-status'', ''debug-status'', ''debug-watcher-info'',
    ''debug-watcher-info-clear'', ''debug-set-parallel-crawl'', ''debug-set-subscriptions-paused'',
    ''debug-contenthash'', ''debug-symlink-target-cache'', ''debug-fsevents-inject-drop'',
    ''debug-kqueue-and-fsevents-recrawl'', ''debug-gc-tick'', ''debug-drop-privs'', ''debug-poison'',
    ''get-log'', ''global-log-level'', ''shutdown-server'']"

lemma handlers_names: "map fst (handlers E I session args) = command_names"
  by (simp add: handlers_def command_names_def)

lemma handlers_contain: "im_contains name (handlers E I session args) \<longleftrightarrow> name \<in> set command_names"
  by (simp add: im_contains_def map_of_eq_None_iff flip: handlers_names [of E I session args] set_map)

lemma commands_announced:
  "list_all (\<lambda>c. case str_strip_prefix ''cmd-'' c of None \<Rightarrow> True | Some name \<Rightarrow> List.member command_names name) CAPABILITIES"
  by code_simp

lemma fields_announced:
  "list_all (\<lambda>c. case str_strip_prefix ''field-'' c of None \<Rightarrow> True | Some name \<Rightarrow> \<not> Option.is_none (field_parse name)) CAPABILITIES"
  by code_simp

text \<open>
  The daemon supports what it announces: for every capability \<^verbatim>\<open>cmd-NAME\<close> of the list it hands out,
  \<^verbatim>\<open>NAME\<close> is dispatched (whatever the arguments, the answer is not ``unknown command''), and for every
  capability \<^verbatim>\<open>field-NAME\<close>, \<^verbatim>\<open>NAME\<close> is a field a query may ask for.
\<close>

theorem announced_is_supported:
  "list_all (\<lambda>c. case str_strip_prefix ''cmd-'' c of
      None \<Rightarrow> True | Some name \<Rightarrow> im_contains name (handlers E I session args)) CAPABILITIES \<and>
   list_all (\<lambda>c. case str_strip_prefix ''field-'' c of
      None \<Rightarrow> True | Some name \<Rightarrow> field_parse name \<noteq> None) CAPABILITIES"
  using commands_announced fields_announced
  by (simp add: list_all_iff handlers_contain Option.is_none_def cong: option.case_cong)

end
