(* ===== verification/Command_Props.thy ===== *)
theory Command_Props
  imports Dispatch
begin

text \<open>
  What holds of every command: the state a command leaves is one the daemon's operations reach, and
  its answer is an object with a version. Both are proved once for the combinators handlers are made of.
\<close>

section \<open>Handlers as Hoare triples\<close>

text \<open>
  \<open>triple P h Q F\<close>: from a state with \<open>P\<close> the handler answers \<open>x\<close> in a state with \<open>Q x\<close>, or fails in one with \<open>F\<close>.
\<close>

definition triple ::
  "(world \<Rightarrow> bool) \<Rightarrow> 'a handler \<Rightarrow> ('a \<Rightarrow> world \<Rightarrow> bool) \<Rightarrow> (world \<Rightarrow> bool) \<Rightarrow> bool" where
  "triple P h Q F \<longleftrightarrow>
     (\<forall>w. P w \<longrightarrow> (case h w of (Inl _, w') \<Rightarrow> F w' | (Inr x, w') \<Rightarrow> Q x w'))"

named_theorems triples

lemma triple_bind:
  assumes "triple P m R F" and "\<And>x. triple (R x) (f x) Q F"
  shows "triple P (hbind m f) Q F"
  using assms unfolding triple_def hbind_def by (fastforce split: sum.splits prod.splits)

lemma triple_return: "(\<And>w. P w \<Longrightarrow> Q x w) \<Longrightarrow> triple P (hreturn x) Q F"
  by (simp add: triple_def hreturn_def)

lemma triple_fail: "(\<And>w. P w \<Longrightarrow> F w) \<Longrightarrow> triple P (hfail e) Q F"
  by (simp add: triple_def hfail_def)

lemma triple_lift: "(\<And>w. P w \<Longrightarrow> F w) \<Longrightarrow> triple P (hlift x) (\<lambda>_. P) F"
  by (auto simp: triple_def hlift_def split: sum.splits)

lemma triple_str_arg: "(\<And>w. P w \<Longrightarrow> F w) \<Longrightarrow> triple P (str_arg i msg args) (\<lambda>_. P) F"
  unfolding str_arg_def by (rule triple_lift)

lemma triple_pre: "triple P' h Q F \<Longrightarrow> (\<And>w. P w \<Longrightarrow> P' w) \<Longrightarrow> triple P h Q F"
  by (simp add: triple_def)

lemma triple_post: "triple P h Q' F \<Longrightarrow> (\<And>x w. Q' x w \<Longrightarrow> Q x w) \<Longrightarrow> triple P h Q F"
  unfolding triple_def by (fastforce split: sum.splits prod.splits)

lemma triple_split: "(\<And>a b. x = (a, b) \<Longrightarrow> triple P (f a b) Q F) \<Longrightarrow> triple P (case x of (a, b) \<Rightarrow> f a b) Q F"
  by (cases x) simp

section \<open>Commands take the daemon through its operations\<close>

text \<open>
  \<open>budget n d\<close>: every counter of the daemon has room for \<open>n\<close> more increments. \<open>from d0 n w\<close>: the daemon of \<open>w\<close>
  is reached from \<open>d0\<close> by operations of the daemon and of its roots, with room for \<open>n\<close> more.
\<close>

definition budget :: "nat \<Rightarrow> daemon \<Rightarrow> bool" where
  "budget n d \<longleftrightarrow> root_counter d + n < 2 ^ 64 \<and>
     (\<forall>p r. im_get (roots d) p = Some r \<longrightarrow> ticks (rclock r) + n < 2 ^ 64)"

definition from_daemon :: "'n serde \<Rightarrow> 'n trigger_codec \<Rightarrow> daemon \<Rightarrow> nat \<Rightarrow> world \<Rightarrow> bool" where
  "from_daemon S C d0 n w \<longleftrightarrow> (daemon_step S C)\<^sup>*\<^sup>* d0 (w_daemon w) \<and> budget n (w_daemon w)"

definition holding :: "'n serde \<Rightarrow> 'n trigger_codec \<Rightarrow> daemon \<Rightarrow> nat \<Rightarrow> path \<Rightarrow> root \<Rightarrow> world \<Rightarrow> bool" where
  "holding S C d0 n p r w \<longleftrightarrow> from_daemon S C d0 n w \<and> im_get (roots (w_daemon w)) p = Some r"

lemma budget_mono: "budget n d \<Longrightarrow> m \<le> n \<Longrightarrow> budget m d"
  unfolding budget_def by (meson add_le_mono le_less_trans order_refl)

lemma from_mono: "from_daemon S C d0 n w \<Longrightarrow> m \<le> n \<Longrightarrow> from_daemon S C d0 m w"
  by (auto simp: from_daemon_def intro: budget_mono)

lemma from_step:
  assumes "from_daemon S C d0 n w" and "daemon_step S C (w_daemon w) d'" and "budget m d'"
  shows "from_daemon S C d0 m (w\<lparr>w_daemon := d'\<rparr>)"
  using assms by (auto simp: from_daemon_def)

lemma budget_put: "budget n d \<Longrightarrow> ticks (rclock r) + n < 2 ^ 64 \<Longrightarrow> budget n (put_root p r d)"
  by (auto simp: budget_def put_root_def store_simps)

lemma budget_put_same:
  "budget n d \<Longrightarrow> im_get (roots d) p = Some r \<Longrightarrow> rclock r' = rclock r \<Longrightarrow> budget n (put_root p r' d)"
  by (rule budget_put) (auto simp: budget_def)

text \<open>An operation of a root that advances its clock by at most one.\<close>

definition root_op :: "'n serde \<Rightarrow> 'n trigger_codec \<Rightarrow> root \<Rightarrow> root \<Rightarrow> bool" where
  "root_op S C r r' \<longleftrightarrow> (clock_room r \<longrightarrow> r' = r \<or> root_step S C r r') \<and> ticks (rclock r') \<le> ticks (rclock r) + 1"

lemma put_root_same: "im_get (roots d) p = Some r \<Longrightarrow> put_root p r d = d"
proof -
  have "im_get m p = Some r \<Longrightarrow> im_insert p r m = m" for m :: "(path, root) imap"
    by (induction p r m rule: im_insert.induct) (auto split: if_splits)
  then show "im_get (roots d) p = Some r \<Longrightarrow> put_root p r d = d" by (simp add: put_root_def)
qed

lemma holding_op:
  assumes "holding S C d0 (Suc n) p r w" and "root_op S C r r'"
  shows "holding S C d0 n p r' (w\<lparr>w_daemon := put_root p r' (w_daemon w)\<rparr>)"
proof -
  have b: "budget (Suc n) (w_daemon w)" and get: "im_get (roots (w_daemon w)) p = Some r"
    using assms(1) by (auto simp: holding_def from_daemon_def)
  then have t: "ticks (rclock r) + Suc n < 2 ^ 64" by (auto simp: budget_def)
  then have "r' = r \<or> root_step S C r r'" using assms(2) by (simp add: root_op_def clock_room_def)
  then have "(daemon_step S C)\<^sup>*\<^sup>* (w_daemon w) (put_root p r' (w_daemon w))"
    using get put_root_same [OF get] daemon_step.ds_root [OF get] by auto
  moreover have "budget n (put_root p r' (w_daemon w))"
    using t assms(2) budget_mono [OF b, of n] by (intro budget_put) (auto simp: root_op_def)
  ultimately show ?thesis
    using assms(1) by (auto simp: holding_def im_get_update from_daemon_def intro: rtranclp_trans)
qed

lemma root_ops:
  "root_op S C r (snd (bump_clock r))"
  "root_op S C r (promote_to_full scan r)"
  "root_op S C r (snd (invalidate_jj_events r))"
  "\<not> jj_events r \<Longrightarrow> root_op S C r (snd (seed es r))"
  "root_op S C r (snd (prune_tombstones r))"
  "root_op S C r (add_subscription spec r)"
  "root_op S C r (snd (remove_subscription name r))"
  "root_op S C r (fst (install_trigger S C env t r disk))"
  "root_op S C r (fst (snd (remove_trigger S C env name r disk)))"
  "root_op S C r (r\<lparr>asserted_states := ss\<rparr>)"
  "root_op S C r (touch now r)"
  "root_op S C r (set_cursor name (current_tick (rclock r)) r)"
proof -
  have bump: "ticks (snd (bump c)) \<le> ticks c + 1" for c by (simp add: bump_def Let_def)
  note ops = root_step.intros and defs = bump_clock_def promote_to_full_def invalidate_jj_events_def seed_def
    prune_tombstones_def add_subscription_def remove_subscription_def install_trigger_def remove_trigger_def
    touch_def set_cursor_def send_tick_def Let_def
  show "root_op S C r (snd (bump_clock r))" "root_op S C r (promote_to_full scan r)"
    "root_op S C r (snd (invalidate_jj_events r))" "root_op S C r (snd (prune_tombstones r))"
    "root_op S C r (add_subscription spec r)" "root_op S C r (snd (remove_subscription name r))"
    "root_op S C r (fst (install_trigger S C env t r disk))"
    "root_op S C r (fst (snd (remove_trigger S C env name r disk)))"
    "root_op S C r (r\<lparr>asserted_states := ss\<rparr>)" "root_op S C r (touch now r)"
    "root_op S C r (set_cursor name (current_tick (rclock r)) r)"
    using bump [of "rclock r"]
    by (auto simp: root_op_def intro!: ops) (auto simp: defs split: prod.splits)
  show "root_op S C r (snd (seed es r))" if "\<not> jj_events r"
    using that bump [of "rclock r"]
    by (auto simp: root_op_def intro!: ops) (auto simp: defs split: prod.splits)
qed

lemma root_op_run: "root_op S C r (snd (run Q r spec))"
proof -
  have "snd (run Q r spec) = r \<or> (\<exists>name. snd (run Q r spec) = set_cursor name (current_tick (rclock r)) r)"
    by (auto simp: run_def Let_def split: option.splits)
  then show ?thesis by (auto simp: root_op_def intro: root_step.st_cursor)
qed

section \<open>Triples of the building blocks\<close>

lemma holding_from: "holding S C d0 n p r w \<Longrightarrow> m \<le> n \<Longrightarrow> from_daemon S C d0 m w"
  by (auto simp: holding_def intro: from_mono)

lemma triple_find_root:
  "triple (from_daemon S C d0 (Suc n)) (find_root E msg args) (\<lambda>(p, r). holding S C d0 n p r) (from_daemon S C d0 0)"
proof -
  have step: "triple (from_daemon S C d0 (Suc n)) (hdaemon (daemon_root (ce_now E) p))
      (\<lambda>found w. from_daemon S C d0 0 w \<and> (\<forall>r. found = Some r \<longrightarrow> holding S C d0 n p r w)) (from_daemon S C d0 0)" for p
  proof -
    have "holding S C d0 n p (touch now r) (w\<lparr>w_daemon := put_root p (touch now r) (w_daemon w)\<rparr>)"
      if "from_daemon S C d0 (Suc n) w" "im_get (roots (w_daemon w)) p = Some r" for w r now
      using that by (intro holding_op [where r = r]) (simp_all add: holding_def root_ops)
    then show ?thesis
      by (auto simp: triple_def hdaemon_def daemon_root_def put_root_def Let_def from_mono
          split: option.splits prod.splits intro: holding_from)
  qed
  show ?thesis
    unfolding find_root_def Let_def
  proof (rule triple_bind [OF triple_str_arg])
    fix s
    show "triple (from_daemon S C d0 (Suc n)) (hbind (hdaemon (daemon_root (ce_now E) (canonical E s)))
        (\<lambda>found. hlift (ok_or (UnknownRoot (to_string_lossy (canonical E s))) (map_option (\<lambda>r. (canonical E s, r)) found))))
        (\<lambda>(p, r). holding S C d0 n p r) (from_daemon S C d0 0)"
      by (rule triple_bind [OF step]) (auto simp: triple_def hlift_def ok_or_def split: option.splits)
  qed (simp add: from_mono)
qed

lemma triple_on_root:
  assumes "root_op S C r (snd (f r))"
  shows "triple (holding S C d0 (Suc n) p r) (on_root p f r) (\<lambda>(x, r') w. holding S C d0 n p r' w \<and> f r = (x, r'))
    (from_daemon S C d0 0)"
  using assms holding_op [of S C d0 n p r _ "snd (f r)"] by (auto simp: triple_def on_root_def split: prod.splits)

lemma triple_on_root_disk:
  assumes "\<And>disk. root_op S C r (fst (snd (f r disk)))"
  shows "triple (holding S C d0 (Suc n) p r) (on_root_disk p f r) (\<lambda>(x, r'). holding S C d0 n p r') (from_daemon S C d0 0)"
proof -
  have "holding S C d0 n p (fst (snd (f r disk))) (w\<lparr>w_daemon := put_root p (fst (snd (f r disk))) (w_daemon w), w_disk := files\<rparr>)"
    if "holding S C d0 (Suc n) p r w" for w disk files
    using holding_op [OF that assms, of disk] by (simp add: holding_def from_daemon_def)
  then show ?thesis
    by (auto simp: triple_def on_root_disk_def Let_def split: prod.splits) (metis fst_conv snd_conv)
qed

lemma triple_hdaemon:
  assumes "\<And>d. budget n d \<Longrightarrow> (daemon_step S C)\<^sup>*\<^sup>* d (snd (f d)) \<and> budget 0 (snd (f d))"
  shows "triple (from_daemon S C d0 n) (hdaemon f) (\<lambda>_. from_daemon S C d0 0) F"
  using assms by (fastforce simp: triple_def hdaemon_def from_daemon_def split: prod.splits intro: rtranclp_trans)

lemma reach_ticks: "root_reach S C r \<Longrightarrow> ticks (rclock r) < 2 ^ 64"
  using root_reach_inv by (auto simp: root_inv_def clock_wf_def)

definition env_ok :: "('g, 'x, 'n) cmd_env \<Rightarrow> bool" where
  "env_ok E \<longleftrightarrow> (\<forall>p. reg_now (ce_register E p) < 2 ^ 64 \<and> reg_pid (ce_register E p) < 2 ^ 32)"

lemma register_step:
  assumes "reg_now env < 2 ^ 64" "reg_pid env < 2 ^ 32" "budget 1 d"
  shows "daemon_step S C d (snd (register_root S C env p d)) \<and> budget 0 (snd (register_root S C env p d))"
proof -
  have room: "root_counter d < 2 ^ 64 - 1" using assms(3) by (simp add: budget_def)
  have b: "budget 0 d" using budget_mono [OF assms(3), of 0] by simp
  have "budget 0 (snd (register_root S C env p d))"
    using assms(1,2) room
  proof (cases rule: register_root_cases [where S = S and C = C and p = p])
    case (known r)
    then show ?thesis using budget_put_same [OF b known(1)] by (simp add: touch_def)
  next
    case (refused err k)
    then show ?thesis using b by (simp add: budget_def)
  next
    case (new r)
    then have "ticks (rclock r) < 2 ^ 64" using reach_ticks by (auto simp: watch_ok_def)
    moreover have "budget 0 (d\<lparr>root_counter := root_counter d + 1\<rparr>)" using b room by (simp add: budget_def)
    ultimately show ?thesis using new by (simp add: budget_put)
  qed
  then show ?thesis using daemon_step.ds_register assms(1,2) room by blast
qed

lemma triple_register:
  assumes "env_ok E"
  shows "triple (from_daemon (ce_serde E) (ce_codec E) d0 (Suc n)) (register E p)
    (\<lambda>_. from_daemon (ce_serde E) (ce_codec E) d0 0) (from_daemon (ce_serde E) (ce_codec E) d0 0)"
proof -
  have "from_daemon (ce_serde E) (ce_codec E) d0 0 (snd (register E p w))"
    if "from_daemon (ce_serde E) (ce_codec E) d0 (Suc n) w" for w
  proof -
    let ?env = "(ce_register E p)\<lparr>reg_triggers := saved_triggers w p\<rparr>"
    have "budget 1 (w_daemon w)" using that budget_mono [of "Suc n" _ 1] by (simp add: from_daemon_def)
    moreover have "reg_now ?env < 2 ^ 64" "reg_pid ?env < 2 ^ 32" using assms by (simp_all add: env_ok_def)
    ultimately have "daemon_step (ce_serde E) (ce_codec E) (w_daemon w)
        (snd (register_root (ce_serde E) (ce_codec E) ?env p (w_daemon w))) \<and>
      budget 0 (snd (register_root (ce_serde E) (ce_codec E) ?env p (w_daemon w)))"
      by (intro register_step)
    then show ?thesis
      using that by (auto simp: register_def from_daemon_def Let_def split: prod.splits sum.splits
          intro: rtranclp.rtrancl_into_rtrancl)
  qed
  then show ?thesis by (auto simp: triple_def split: prod.splits sum.splits) (metis snd_conv)+
qed

text \<open>The operations that only remove watches or prune them.\<close>

lemma budget_unregister: "budget n d \<Longrightarrow> budget n (snd (unregister_root p d))"
  by (auto simp: budget_def unregister_root_def store_simps split: if_splits)

lemma budget_drain: "budget n d \<Longrightarrow> budget n (snd (drain_loop ps d))"
  by (induction ps arbitrary: d) (simp_all add: case_prod_unfold Let_def budget_unregister)

lemma survivor_clock: "survivor env p r = Some r' \<Longrightarrow> rclock r' = rclock r"
  by (auto simp: survivor_def sweep_root_def mark_missing_def mark_present_def prune_tombstones_def Let_def
      split: if_splits prod.splits sum.splits)

lemma budget_sweep_path: "budget n d \<Longrightarrow> budget n (sweep_path env p d)"
proof -
  have "root_counter (sweep_path env p d) = root_counter d"
    using kept_sweep_path [of tiny_serde no_codec d env p] by (simp add: kept_def)
  then show "budget n d \<Longrightarrow> budget n (sweep_path env p d)"
    by (auto simp: budget_def sweep_path_get bind_eq_Some_conv split: if_splits dest: survivor_clock)
qed

lemma budget_sweep: "budget n d \<Longrightarrow> budget n (sweep env d)"
proof -
  have "budget n d \<Longrightarrow> budget n (fold (sweep_path env) ps d)" for ps
    by (induction ps arbitrary: d) (simp_all add: budget_sweep_path)
  then show "budget n d \<Longrightarrow> budget n (sweep env d)" by (simp add: sweep_def)
qed

lemma ageout_steps:
  "budget n d \<Longrightarrow> (daemon_step S C)\<^sup>*\<^sup>* d (snd (ageout_loop ps freed d)) \<and> budget n (snd (ageout_loop ps freed d))"
proof (induction ps arbitrary: freed d)
  case (Cons p ps)
  show ?case
  proof (cases "im_get (roots d) p")
    case (Some r)
    let ?r = "snd (prune_tombstones r)"
    have "rclock ?r = rclock r" by (simp add: prune_tombstones_def Let_def split: prod.splits)
    then have b: "budget n (put_root p ?r d)" using budget_put_same [OF Cons.prems Some] by simp
    have "daemon_step S C d (put_root p ?r d)" by (rule daemon_step.ds_root [OF Some root_step.st_prune])
    then show ?thesis
      using Some Cons.IH [OF b] by (auto simp: case_prod_unfold Let_def intro: converse_rtranclp_into_rtranclp)
  qed (use Cons in simp)
qed simp

section \<open>Every command\<close>

text \<open>\<open>safe E h\<close>: with room for four increments, \<open>h\<close> takes the daemon through operations of it.\<close>

definition ends :: "('g, 'x, 'n) cmd_env \<Rightarrow> daemon \<Rightarrow> (world \<Rightarrow> bool) \<Rightarrow> 'a handler \<Rightarrow> bool" where
  "ends E d0 P h \<longleftrightarrow> triple P h (\<lambda>_. from_daemon (ce_serde E) (ce_codec E) d0 0) (from_daemon (ce_serde E) (ce_codec E) d0 0)"

abbreviation begun :: "('g, 'x, 'n) cmd_env \<Rightarrow> daemon \<Rightarrow> nat \<Rightarrow> world \<Rightarrow> bool" where
  "begun E \<equiv> from_daemon (ce_serde E) (ce_codec E)"

abbreviation at_root :: "('g, 'x, 'n) cmd_env \<Rightarrow> daemon \<Rightarrow> nat \<Rightarrow> path \<Rightarrow> root \<Rightarrow> world \<Rightarrow> bool" where
  "at_root E \<equiv> holding (ce_serde E) (ce_codec E)"

definition safe :: "('g, 'x, 'n) cmd_env \<Rightarrow> 'a handler \<Rightarrow> bool" where
  "safe E h \<longleftrightarrow> (\<forall>d0. ends E d0 (begun E d0 4) h)"

lemma safeI: "(\<And>d0. ends E d0 (begun E d0 (Suc (Suc (Suc (Suc 0))))) h) \<Longrightarrow> safe E h"
  by (simp add: safe_def numeral_eq_Suc)

lemma ends_root [triples]:
  "(\<And>p r. ends E d0 (at_root E d0 n p r) (f (p, r))) \<Longrightarrow> ends E d0 (begun E d0 (Suc n)) (hbind (find_root E msg args) f)"
  unfolding ends_def by (rule triple_bind [OF triple_find_root]) auto

lemma ends_op [triples]:
  "root_op (ce_serde E) (ce_codec E) r (snd (f r)) \<Longrightarrow>
    (\<And>x r'. f r = (x, r') \<Longrightarrow> ends E d0 (at_root E d0 n p r') (g (x, r'))) \<Longrightarrow>
    ends E d0 (at_root E d0 (Suc n) p r) (hbind (on_root p f r) g)"
  unfolding ends_def by (rule triple_bind [OF triple_on_root]) (fastforce simp: triple_def)+

lemma ends_op_disk [triples]:
  "(\<And>disk. root_op (ce_serde E) (ce_codec E) r (fst (snd (f r disk)))) \<Longrightarrow>
    (\<And>x r'. ends E d0 (at_root E d0 n p r') (g (x, r'))) \<Longrightarrow>
    ends E d0 (at_root E d0 (Suc n) p r) (hbind (on_root_disk p f r) g)"
  unfolding ends_def by (rule triple_bind [OF triple_on_root_disk]) auto

lemma ends_lift [triples]:
  "(\<And>x. ends E d0 (at_root E d0 n p r) (f x)) \<Longrightarrow> ends E d0 (at_root E d0 n p r) (hbind (hlift y) f)"
  "(\<And>x. ends E d0 (begun E d0 n) (f x)) \<Longrightarrow> ends E d0 (begun E d0 n) (hbind (hlift y) f)"
  unfolding ends_def by (auto intro!: triple_bind [OF triple_lift] intro: holding_from from_mono)

lemma ends_str [triples]:
  "(\<And>x. ends E d0 (at_root E d0 n p r) (f x)) \<Longrightarrow> ends E d0 (at_root E d0 n p r) (hbind (str_arg i msg args) f)"
  "(\<And>x. ends E d0 (begun E d0 n) (f x)) \<Longrightarrow> ends E d0 (begun E d0 n) (hbind (str_arg i msg args) f)"
  unfolding str_arg_def by (rule ends_lift, assumption)+

lemma ends_return [triples]:
  "ends E d0 (at_root E d0 n p r) (hreturn x)" "ends E d0 (begun E d0 n) (hreturn x)"
  "ends E d0 (begun E d0 n) (hfail e)"
  unfolding ends_def by (auto intro!: triple_return triple_fail intro: holding_from from_mono)

lemma ends_return_then [triples]:
  "ends E d0 P (f x) \<Longrightarrow> ends E d0 P (hbind (hreturn x) f)"
  unfolding ends_def by (simp add: triple_def hbind_def hreturn_def)

lemma ends_daemon [triples]:
  "(\<And>d. budget n d \<Longrightarrow> (daemon_step (ce_serde E) (ce_codec E))\<^sup>*\<^sup>* d (snd (f d)) \<and> budget 0 (snd (f d))) \<Longrightarrow>
    ends E d0 (begun E d0 n) (hbind (hdaemon f) (\<lambda>x. hreturn (g x)))"
  unfolding ends_def by (rule triple_bind [OF triple_hdaemon]) (auto intro: triple_return)

lemma ends_weaken: "ends E d0 (at_root E d0 n p r) h \<Longrightarrow> ends E d0 (at_root E d0 (Suc n) p r) h"
  unfolding ends_def
  by (erule triple_pre) (auto simp: holding_def intro: from_mono)

lemma op_no_result: "snd (no_result f r) = f r"
  by (simp add: no_result_def)

lemmas cmd_ops = root_ops root_op_run op_no_result promote_def

lemma safe_clock: "safe E (clock_cmd E args)"
  unfolding clock_cmd_def by (rule safeI) (auto intro!: triples simp: cmd_ops)

lemma safe_query: "safe E (query_cmd E args)"
  unfolding query_cmd_def
  by (rule safeI) (auto intro!: triples ends_weaken [OF ends_return_then] simp: cmd_ops split: if_splits)

lemma ends_full_query:
  "ends E d0 (at_root E d0 (Suc (Suc n)) p r) (full_query E p r spec_obj)"
  unfolding full_query_def by (auto intro!: triples simp: cmd_ops)

lemma safe_find: "safe E (find_cmd E args)"
  unfolding find_cmd_def Let_def by (rule safeI) (auto intro!: triples ends_full_query)

lemma safe_since: "safe E (since_cmd E args)"
  unfolding since_cmd_def by (rule safeI) (auto intro!: triples ends_full_query)

lemma hbind_assoc: "hbind (hbind m f) g = hbind m (\<lambda>x. hbind (f x) g)"
  by (rule ext) (auto simp: hbind_def split: sum.splits prod.splits)

lemma hbind_return [simp]: "hbind (hreturn x) f = f x" "hbind (hfail e) g = hfail e"
  by (simp_all add: hbind_def hreturn_def hfail_def fun_eq_iff)

lemma safe_states: "safe E (state_enter_cmd E args)" "safe E (state_leave_cmd E args)"
  unfolding state_enter_cmd_def state_leave_cmd_def parse_state_def hbind_assoc
  by (rule safeI; auto intro!: triples simp: cmd_ops hbind_assoc)+

lemma safe_unsubscribe: "safe E (unsubscribe_cmd E args)" "safe E (flush_subscriptions_cmd E args)"
  unfolding unsubscribe_cmd_def flush_subscriptions_cmd_def by (rule safeI; auto intro!: triples simp: cmd_ops)+

text \<open>Starting a loop leaves the daemon alone.\<close>

lemma ends_spawn [triples]:
  "(\<And>x. ends E d0 (at_root E d0 n p r) (f x)) \<Longrightarrow> ends E d0 (at_root E d0 n p r) (hbind (spawn_trigger_loop q s t) f)"
  unfolding ends_def triple_def hbind_def spawn_trigger_loop_def by (simp add: holding_def from_daemon_def)

lemma safe_triggers: "safe E (trigger_cmd E args)" "safe E (trigger_list_cmd E args)" "safe E (trigger_del_cmd E args)"
  unfolding trigger_cmd_def trigger_list_cmd_def trigger_del_cmd_def trigger_resolve_root_def parse_trigger_spec_def hbind_assoc
  by (rule safeI; auto intro!: triples intro: ends_weaken simp: cmd_ops hbind_assoc split: if_splits)+

lemma safe_recrawl: "safe E (recrawl_cmd E args)"
proof -
  have "\<not> jj_events r'" if "invalidate_jj_events r = (False, r')" for r r'
    using that by (auto simp: invalidate_jj_events_def split: if_splits prod.splits)
  then show ?thesis
    unfolding recrawl_cmd_def debug_resolve_root_def Let_def
    by (intro safeI) (auto intro!: triples simp: cmd_ops split: if_splits)
qed

lemma safe_debug:
  "safe E (inject_drop_cmd E args)" "safe E (show_cursors_cmd E args)" "safe E (get_asserted_states_cmd E args)"
  "safe E (get_subscriptions_cmd E args)" "safe E (root_status_cmd E args)" "safe E (watcher_info_cmd E args)"
  "safe E (contenthash_cmd E args)"
  unfolding inject_drop_cmd_def show_cursors_cmd_def get_asserted_states_cmd_def get_subscriptions_cmd_def
    root_status_cmd_def watcher_info_cmd_def contenthash_cmd_def debug_resolve_root_def
  by (rule safeI; auto intro!: triples simp: cmd_ops)+

text \<open>The operations of the daemon that advance no counter.\<close>

definition quiet :: "'n serde \<Rightarrow> 'n trigger_codec \<Rightarrow> (daemon \<Rightarrow> 'a \<times> daemon) \<Rightarrow> bool" where
  "quiet S C f \<longleftrightarrow> (\<forall>n d. budget n d \<longrightarrow> (daemon_step S C)\<^sup>*\<^sup>* d (snd (f d)) \<and> budget n (snd (f d)))"

lemma quiet_ops:
  "quiet S C (\<lambda>d. (x d, d))" "quiet S C (unregister_root p)" "quiet S C drain_roots"
  "quiet S C (\<lambda>d. ageout_loop (list_roots d) freed d)" "quiet S C (\<lambda>d. (u, sweep G d))"
  "quiet S C (\<lambda>d. (u, request_shutdown d))"
proof -
  have "budget n d \<Longrightarrow> budget n (request_shutdown d)" for n d by (simp add: budget_def request_shutdown_def)
  then show "quiet S C (\<lambda>d. (u, request_shutdown d))" by (auto simp: quiet_def intro: daemon_step.ds_shutdown)
  show "quiet S C (\<lambda>d. (x d, d))" "quiet S C (unregister_root p)" "quiet S C (\<lambda>d. (u, sweep G d))"
    by (auto simp: quiet_def budget_unregister budget_sweep intro: daemon_step.ds_unregister daemon_step.ds_sweep)
  show "quiet S C drain_roots"
    using daemon_step.ds_drain [of S C] budget_drain by (auto simp: quiet_def drain_roots_def)
  show "quiet S C (\<lambda>d. ageout_loop (list_roots d) freed d)"
    unfolding quiet_def using ageout_steps [of _ _ S C] by blast
qed

lemma ends_quiet [triples]:
  "quiet (ce_serde E) (ce_codec E) f \<Longrightarrow> ends E d0 (begun E d0 n) (hbind (hdaemon f) (\<lambda>x. hreturn (g x)))"
  by (rule ends_daemon) (auto simp: quiet_def intro: budget_mono)

lemma safe_watches: "safe E watch_list_cmd" "safe E (watch_del_cmd E args)" "safe E watch_del_all_cmd" "safe E (ageout_cmd args)"
  "safe E (debug_status_cmd E)" "safe E (gc_tick_cmd E)" "safe E shutdown_cmd"
  unfolding watch_list_cmd_def watch_del_cmd_def watch_del_all_cmd_def ageout_cmd_def debug_status_cmd_def
    gc_tick_cmd_def shutdown_cmd_def simple_def arg_path_def Let_def
  by (rule safeI; auto intro!: triples quiet_ops)+

lemma ends_register:
  "env_ok E \<Longrightarrow> ends E d0 (begun E d0 (Suc n)) (hbind (register E p) (\<lambda>x. hreturn (g x)))"
  unfolding ends_def by (rule triple_bind [OF triple_register]) (auto intro: triple_return)

lemma safe_watch: "env_ok E \<Longrightarrow> safe E (watch_cmd E args)" "env_ok E \<Longrightarrow> safe E (watch_project_cmd E args)"
  unfolding watch_cmd_def watch_project_cmd_def canonical_arg_def arg_path_def hbind_assoc
  by (rule safeI; auto intro!: triples ends_register split: sum.splits prod.splits)+

lemma ends_arm:
  "ends E d0 (at_root E d0 (Suc n) p r) (subscribe_arm session (p, name, raw, initial))"
proof -
  let ?r = "add_subscription \<lparr> sub_name = name, sub_query = raw \<rparr> r"
  have "begun E d0 0 (w\<lparr>w_daemon := put_root p ?r (w_daemon w), w_pushes := ts\<rparr>)"
    if "at_root E d0 (Suc n) p r w" for w ts
  proof -
    have "begun E d0 0 (w\<lparr>w_daemon := put_root p ?r (w_daemon w)\<rparr>)"
      using holding_from [OF holding_op [OF that root_ops(6)], of 0] by simp
    then show ?thesis by (simp add: from_daemon_def)
  qed
  then show ?thesis
    unfolding ends_def triple_def subscribe_arm_def Let_def by (auto simp: holding_def split: option.splits)
qed

lemma safe_subscribe: "safe E (subscribe_cmd E session args)"
  unfolding subscribe_cmd_def subscribe_query_def parse_subscribe_args_def hbind_assoc
  by (rule safeI) (auto intro!: triples ends_arm simp: cmd_ops hbind_assoc)

lemma safe_pure:
  "safe E (hreturn v)" "safe E (hfail e)" "safe E (simple key v)" "safe E (log_cmd args)" "safe E get_sockname_cmd"
  "safe E (status_cmd E I)" "safe E (version_cmd args)"
proof -
  show "safe E (hreturn v)" "safe E (hfail e)" "safe E (simple key v)" "safe E (log_cmd args)" "safe E (version_cmd args)"
    by (rule safeI; auto simp: simple_def log_cmd_def version_cmd_def Let_def intro!: triples)+
  show "safe E get_sockname_cmd" "safe E (status_cmd E I)"
    unfolding safe_def ends_def triple_def get_sockname_cmd_def status_cmd_def Let_def by (auto intro: from_mono)
qed

lemmas safe_all = safe_clock safe_query safe_find safe_since safe_states safe_unsubscribe safe_triggers safe_recrawl
  safe_debug safe_watches safe_watch safe_subscribe safe_pure

lemma safe_handlers: "env_ok E \<Longrightarrow> list_all (safe E) (map snd (handlers E I session args))"
  by (simp add: handlers_def safe_all get_pid_cmd_def list_capabilities_cmd_def get_config_cmd_def
      log_level_cmd_def get_log_cmd_def)

lemma safe_dispatch_inner:
  assumes "env_ok E"
  shows "safe E (dispatch_inner E I session pdu)"
proof -
  have "safe E h" if "map_of (handlers E I session args) name = Some h" for args name h
    using safe_handlers [OF assms, of I session args] map_of_SomeD [OF that] by (force simp: list_all_iff)
  then show ?thesis
    unfolding dispatch_inner_def safe_def
    by (auto intro!: triples split: option.splits)
qed

section \<open>Every answer is an object with a version\<close>

definition answers :: "wire_value handler \<Rightarrow> bool" where
  "answers h \<longleftrightarrow> (\<forall>w v w'. h w = (Inr v, w') \<longrightarrow>
     (\<exists>m. v = VObject m \<and> (\<forall>x. im_get m ''version'' = Some x \<longrightarrow> (\<exists>s. x = VString s))))"

lemma answers_bind: "(\<And>x. answers (f x)) \<Longrightarrow> answers (hbind m f)"
  by (auto simp: answers_def hbind_def split: sum.splits prod.splits)

lemma answers_return:
  "(\<And>x. im_get (im_inserts kvs []) ''version'' = Some x \<Longrightarrow> \<exists>s. x = VString s) \<Longrightarrow> answers (hreturn (obj kvs))"
  by (auto simp: answers_def hreturn_def obj_def)

lemma answers_fail: "answers (hfail e)"
  by (simp add: answers_def hfail_def)

lemma answers_query: "answers (hreturn (result_to_pdu p res))"
  by (simp add: answers_def hreturn_def result_to_pdu_def)

lemma im_inserts_other: "k \<notin> fst ` set kvs \<Longrightarrow> im_get (im_inserts kvs m) k = im_get m k"
  by (induction kvs m rule: im_inserts.induct) (auto simp: store_simps)

lemma answers_plain: "''version'' \<notin> fst ` set kvs \<Longrightarrow> answers (hreturn (obj kvs))"
  by (rule answers_return) (simp add: im_inserts_other)

lemma answers_state:
  "answers get_sockname_cmd" "answers (status_cmd E I)" "answers (subscribe_arm session found)"
proof -
  show "answers get_sockname_cmd" "answers (subscribe_arm session found)"
    by (auto simp: answers_def get_sockname_cmd_def subscribe_arm_def obj_def Let_def split: option.splits prod.splits)
  show "answers (status_cmd E I)"
    by (auto simp: answers_def status_cmd_def obj_def Let_def)
qed

lemma answers_version: "answers (version_cmd args)"
  unfolding version_cmd_def Let_def by (rule answers_return) (auto split: option.splits if_splits)

lemma answers_if: "answers h \<Longrightarrow> answers g \<Longrightarrow> answers (if b then h else g)"
  by simp

lemma answers_pair: "(\<And>a b. answers (f a b)) \<Longrightarrow> answers (case x of (a, b) \<Rightarrow> f a b)"
  by (cases x) simp

lemma answers_let: "(\<And>x. answers (f x)) \<Longrightarrow> answers (Let y f)"
  by (simp add: Let_def)

lemmas answer_rules = answers_let answers_bind answers_fail answers_query answers_state answers_version answers_if answers_pair

lemma answers_handlers: "list_all answers (map snd (handlers E I session args))"
  unfolding handlers_def
  by (simp add: get_pid_cmd_def list_capabilities_cmd_def get_config_cmd_def log_level_cmd_def log_cmd_def
      watch_cmd_def watch_project_cmd_def watch_list_cmd_def watch_del_cmd_def watch_del_all_cmd_def
      clock_cmd_def query_cmd_def find_cmd_def since_cmd_def full_query_def subscribe_cmd_def unsubscribe_cmd_def
      flush_subscriptions_cmd_def state_enter_cmd_def state_leave_cmd_def trigger_cmd_def trigger_list_cmd_def
      trigger_del_cmd_def recrawl_cmd_def ageout_cmd_def show_cursors_cmd_def get_asserted_states_cmd_def
      get_subscriptions_cmd_def root_status_cmd_def debug_status_cmd_def watcher_info_cmd_def contenthash_cmd_def
      inject_drop_cmd_def gc_tick_cmd_def get_log_cmd_def shutdown_cmd_def simple_def Let_def)
    (auto intro!: answer_rules answers_plain simp: root_value_def split: option.splits)

section \<open>Properties\<close>

definition sample_info_env :: info_env where
  "sample_info_env = \<lparr> in_config = (\<lambda>_. None), in_uptime = 10, in_rusage = None, in_proc_status = None,
     in_proc_statm = None, in_page_size = 4096, in_allocator = ''system'', in_allocated = None, in_active = None,
     in_mapped = None, in_arena_bytes = (\<lambda>_. 0), in_entry_size = 0 \<rparr>"

lemma dispatch_world: "snd (dispatch E I session pdu w) = snd (dispatch_inner E I session pdu w)"
  by (simp add: dispatch_def split: prod.splits sum.splits)

lemma dispatch_from:
  assumes "env_ok E" and "begun E d0 4 w"
  shows "begun E d0 0 (snd (dispatch E I session pdu w))"
  using safe_dispatch_inner [OF assms(1), of I session pdu] assms(2)
  by (cases "dispatch_inner E I session pdu w")
    (auto simp: safe_def ends_def triple_def dispatch_world split: prod.splits sum.splits)

text \<open>A client's commands one after the other, as a layer over the daemon's operations.\<close>

definition command_step :: "('g, 'x, 'n) cmd_env \<Rightarrow> info_env \<Rightarrow> nat \<Rightarrow> world \<Rightarrow> world \<Rightarrow> bool" where
  "command_step E I session w w' \<longleftrightarrow> env_ok E \<and> budget 4 (w_daemon w) \<and> (\<exists>pdu. w' = snd (dispatch E I session pdu w))"

interpretation commands_reach: simulation_invariant
  "command_step E I session" "daemon_step (ce_serde E) (ce_codec E)" w_daemon "daemon_reach (ce_serde E) (ce_codec E)"
  for E :: "('g, 'x, 'n) cmd_env" and I session
proof unfold_locales
  fix w w' assume "command_step E I session w w'"
  then obtain pdu where c: "env_ok E" "budget 4 (w_daemon w)" "w' = snd (dispatch E I session pdu w)"
    by (auto simp: command_step_def)
  then have "begun E (w_daemon w) 4 w" by (simp add: from_daemon_def)
  then show "(daemon_step (ce_serde E) (ce_codec E))\<^sup>*\<^sup>* (w_daemon w) (w_daemon w')"
    using dispatch_from [OF c(1)] c(3) by (simp add: from_daemon_def)
qed (rule daemon_reach.run_step)

text \<open>
  C10. No command breaks the daemon: whatever PDU a client sends, the state after its dispatch is
  obtained from the one before by the daemon's and its roots' own operations, so it is reachable and
  every invariant of reachable states holds (provided no counter is within four of its end).
\<close>

theorem commands_preserve_reachability:
  assumes "env_ok E" and "daemon_reach (ce_serde E) (ce_codec E) (w_daemon w)" and "budget 4 (w_daemon w)"
  shows "(daemon_step (ce_serde E) (ce_codec E))\<^sup>*\<^sup>* (w_daemon w) (w_daemon (snd (dispatch E I session pdu w))) \<and>
    daemon_reach (ce_serde E) (ce_codec E) (w_daemon (snd (dispatch E I session pdu w)))"
proof -
  have "command_step E I session w (snd (dispatch E I session pdu w))" using assms by (auto simp: command_step_def)
  then show ?thesis using commands_reach.simulate commands_reach.step_keeps assms(2) by blast
qed

lemma sample_daemon_budget: "budget 4 sample_daemon"
proof -
  have "root_counter sample_daemon = 1" "roots sample_daemon = [([RootDir, Normal ''w''], sample_watch)]"
    by (simp_all add: sample_daemon_def register_root_def daemon_new_def sample_reg_def dir_md_def Let_def sample_watch_def)
  moreover have "ticks (rclock sample_watch) = 2"
    by (simp add: sample_watch_def build_root_def sample_reg_def Let_def load_watchman_config_def
      load_persisted_triggers_def seed_def bump_clock_def bump_def root_new_def clock_new_def
      list_triggers_def split: option.splits)
  ultimately show ?thesis by (simp add: budget_def)
qed

lemma sample_env_ok: "env_ok sample_cmd_env"
  by (simp add: env_ok_def sample_cmd_env_def sample_reg_def)

theorem commands_preserve_reachability_witness:
  "(daemon_step tiny_serde no_codec)\<^sup>*\<^sup>* sample_daemon (w_daemon (snd (dispatch sample_cmd_env sample_info_env 1
      (VArray [VString ''clock'', VString ''/w'']) sample_world))) \<and>
    daemon_reach tiny_serde no_codec (w_daemon (snd (dispatch sample_cmd_env sample_info_env 1
      (VArray [VString ''clock'', VString ''/w'']) sample_world)))"
  using commands_preserve_reachability [OF sample_env_ok, of sample_world sample_info_env 1 "VArray [VString ''clock'', VString ''/w'']"]
    sample_daemon_reach sample_daemon_budget
  by (simp add: sample_world_def) (simp add: sample_cmd_env_def)


end
