(* ===== verification/Command_Answers.thy ===== *)
theory Command_Answers
  imports Command_Props
begin

text \<open>
  What particular commands answer: unknown roots are refused by every command that takes one,
  \<^verbatim>\<open>watch-project\<close> finds the nearest project root, \<^verbatim>\<open>trigger-list\<close> shows a trigger as it can be installed again.
\<close>

section \<open>Unknown roots\<close>

definition root_commands :: "string list" where
  "root_commands = [''clock'', ''query'', ''find'', ''since'', ''subscribe'', ''unsubscribe'', ''flush-subscriptions'',
     ''state-enter'', ''state-leave'', ''trigger'', ''trigger-list'', ''trigger-del'', ''debug-recrawl'',
     ''debug-show-cursors'', ''debug-get-asserted-states'', ''debug-get-subscriptions'', ''debug-root-status'',
     ''debug-watcher-info'', ''debug-contenthash'', ''debug-fsevents-inject-drop'',
     ''debug-kqueue-and-fsevents-recrawl'']"

lemma find_root_unknown:
  assumes "im_get (roots (w_daemon w)) (canonical E s) = None"
  shows "hbind (find_root E msg (VString s # rest)) f w = (Inl (UnknownRoot (to_string_lossy (canonical E s))), w)"
  using assms by (simp add: find_root_def hbind_def str_arg_def nth_arg_def hlift_def hdaemon_def daemon_root_def Let_def)

definition refuses :: "('g, 'x, 'n) cmd_env \<Rightarrow> string \<Rightarrow> world \<Rightarrow> wire_value handler \<Rightarrow> bool" where
  "refuses E s w h \<longleftrightarrow> h w = (Inl (UnknownRoot (to_string_lossy (canonical E s))), w)"

text \<open>The places of these commands in the dispatch table.\<close>

definition root_slots :: "nat list" where
  "root_slots = [13, 14, 15, 16, 17, 18, 19, 20, 21, 22, 23, 24, 25, 27, 29, 30, 31, 33, 37, 39, 40]"

lemma root_commands_slots: "root_commands = map (\<lambda>i. command_names ! i) root_slots"
  by (simp add: root_commands_def root_slots_def command_names_def)

lemma command_names_distinct: "distinct command_names"
  by code_simp

lemma handlers_nth:
  assumes "i < length command_names"
  shows "map_of (handlers E I session args) (command_names ! i) = Some (snd (handlers E I session args ! i))"
proof -
  let ?h = "handlers E I session args"
  have n: "map fst ?h = command_names" by (rule handlers_names)
  then have len: "i < length ?h" using assms by (metis length_map)
  then have "command_names ! i = fst (?h ! i)" using n by (metis nth_map)
  then have "(command_names ! i, snd (?h ! i)) \<in> set ?h" using nth_mem [OF len] by simp
  then show ?thesis using command_names_distinct n by (simp add: map_of_is_SomeI)
qed

lemma slots_refuse:
  assumes "im_get (roots (w_daemon w)) (canonical E s) = None"
  shows "list_all (\<lambda>i. refuses E s w (snd (handlers E I session (VString s # rest) ! i))) root_slots"
  unfolding root_slots_def handlers_def refuses_def
  by (simp add: find_root_unknown [OF assms] hbind_assoc clock_cmd_def query_cmd_def find_cmd_def since_cmd_def
      subscribe_cmd_def subscribe_query_def parse_subscribe_args_def unsubscribe_cmd_def flush_subscriptions_cmd_def
      state_enter_cmd_def state_leave_cmd_def parse_state_def trigger_cmd_def parse_trigger_spec_def trigger_list_cmd_def
      trigger_del_cmd_def trigger_resolve_root_def recrawl_cmd_def debug_resolve_root_def show_cursors_cmd_def
      get_asserted_states_cmd_def get_subscriptions_cmd_def root_status_cmd_def watcher_info_cmd_def
      contenthash_cmd_def inject_drop_cmd_def)

lemma handler_unknown:
  assumes "im_get (roots (w_daemon w)) (canonical E s) = None" and "name \<in> set root_commands"
  obtains h where "map_of (handlers E I session (VString s # rest)) name = Some h" "refuses E s w h"
proof -
  obtain i where i: "i \<in> set root_slots" "name = command_names ! i"
    using assms(2) unfolding root_commands_slots by auto
  have "\<forall>i \<in> set root_slots. i < length command_names"
    unfolding root_slots_def command_names_def by simp
  then show thesis
    using i that handlers_nth [of i E I session "VString s # rest"] slots_refuse [OF assms(1), of I session rest]
    by (auto simp: list_all_iff)
qed



section \<open>Project roots\<close>

lemma resolve_from_spec:
  assumes "start = cur @ sub" and "start = RootDir # map Normal names"
    and "\<And>q s. start = q @ s \<Longrightarrow> length cur < length q \<Longrightarrow> \<not> has_root_marker E q"
    and "resolve_from E start cur = (rt, rel)"
  shows "(\<exists>s. start = rt @ s \<and> 2 \<le> length rt \<and> has_root_marker E rt \<and> rel = (if s = [] then None else Some s) \<and>
      (\<forall>q t. start = q @ t \<and> length rt < length q \<longrightarrow> \<not> has_root_marker E q)) \<or>
    (rt = start \<and> rel = None \<and> (\<forall>q t. start = q @ t \<and> 2 \<le> length q \<longrightarrow> \<not> has_root_marker E q))"
  using assms
proof (induction E start cur arbitrary: sub rule: resolve_from.induct)
  case (1 E start cur)
  have cur: "cur = [] \<or> (\<exists>ns. cur = RootDir # map Normal ns)"
    using "1.prems"(1,2) by (cases cur) (auto simp: map_eq_append_conv append_eq_map_conv)
  show ?case
  proof (cases "path_parent cur")
    case None
    then have "length cur \<le> 1" using cur by (auto simp: path_parent_def last_map split: if_splits)
    then show ?thesis using None "1.prems"(3,4) by (auto simp: resolve_from.simps [of E start cur])
  next
    case (Some parent)
    show ?thesis
    proof (cases "has_root_marker E cur")
      case True
      have "2 \<le> length cur" using Some cur by (auto simp: path_parent_def Suc_le_eq split: if_splits)
      moreover have "rt = cur" "rel = (if sub = [] then None else Some sub)"
        using True Some "1.prems"(1,4) resolve_from.simps [of E "cur @ sub" cur] by (auto split: if_splits)
      ultimately show ?thesis using True "1.prems"(1,3) by blast
    next
      case False
      have b: "parent = butlast cur" "cur \<noteq> []" using Some by (auto simp: path_parent_def split: if_splits)
      have same: "q = cur" if "start = q @ s" "length q = length cur" for q s
        using that "1.prems"(1) by simp
      have r: "resolve_from E start parent = (rt, rel)"
        using "1.prems"(4) Some False by (simp add: resolve_from.simps [of E start cur])
      have p: "start = parent @ (last cur # sub)" using b "1.prems"(1) by simp
      have none: "\<not> has_root_marker E q" if "start = q @ s" "length parent < length q" for q s
        using "1.prems"(3) [OF that(1)] same [OF that(1)] that(2) b False by (cases "length q = length cur") auto
      show ?thesis by (rule "1.IH" [OF Some False p "1.prems"(2) none r])
    qed
  qed
qed

text \<open>
  C34. \<^verbatim>\<open>watch-project\<close> finds the nearest project: from a canonical path it chooses the closest ancestor (the
  path itself included, the file system's root excluded) that holds one of the marker files, and
  reports the rest of the path as \<^verbatim>\<open>relative_path\<close>; if no ancestor has a marker it watches the path itself.
\<close>

theorem project_root_is_nearest:
  assumes "start = RootDir # map Normal names" and "resolve_project_root E start = (rt, rel)"
  shows "(\<exists>s. start = rt @ s \<and> 2 \<le> length rt \<and> has_root_marker E rt \<and> rel = (if s = [] then None else Some s) \<and>
      (\<forall>q t. start = q @ t \<and> length rt < length q \<longrightarrow> \<not> has_root_marker E q)) \<or>
    (rt = start \<and> rel = None \<and> (\<forall>q t. start = q @ t \<and> 2 \<le> length q \<longrightarrow> \<not> has_root_marker E q))"
  by (rule resolve_from_spec [where sub = "[]", OF _ assms(1) _ assms(2) [unfolded resolve_project_root_def]]) auto

theorem project_root_is_nearest_witness:
  "has_root_marker sample_cmd_env [RootDir, Normal ''w''] \<and>
    resolve_project_root sample_cmd_env [RootDir, Normal ''w'', Normal ''a'']
      = ([RootDir, Normal ''w''], Some [Normal ''a''])"
proof -
  let ?E = sample_cmd_env
  have m: "has_root_marker ?E p \<longleftrightarrow> p = [RootDir, Normal ''w'']" if "RootDir \<in> set p" for p
  proof -
    have "path_join p [Normal n] = p @ [Normal n]" for n by (simp add: path_join_def is_absolute_def)
    moreover have "path_of ''.git'' = [Normal ''.git'']" by (simp add: path_of_def SLASH_def inner_component_def DOT_def)
    ultimately show ?thesis
      by (simp add: has_root_marker_def ROOT_MARKERS_def sample_cmd_env_def path_of_def SLASH_def inner_component_def DOT_def)
  qed
  obtain rt rel where r: "resolve_project_root ?E [RootDir, Normal ''w'', Normal ''a''] = (rt, rel)" by fastforce
  have near: "(\<exists>s. [RootDir, Normal ''w'', Normal ''a''] = rt @ s \<and> 2 \<le> length rt \<and> has_root_marker ?E rt \<and>
        rel = (if s = [] then None else Some s) \<and>
        (\<forall>q t. [RootDir, Normal ''w'', Normal ''a''] = q @ t \<and> length rt < length q \<longrightarrow> \<not> has_root_marker ?E q)) \<or>
      (rt = [RootDir, Normal ''w'', Normal ''a''] \<and> rel = None \<and>
       (\<forall>q t. [RootDir, Normal ''w'', Normal ''a''] = q @ t \<and> 2 \<le> length q \<longrightarrow> \<not> has_root_marker ?E q))"
    by (rule project_root_is_nearest [OF _ r, where names = "[''w'', ''a'']"]) simp
  have here: "has_root_marker ?E [RootDir, Normal ''w'']" using m by simp
  show ?thesis
  proof (rule disjE [OF near])
    assume "\<exists>s. [RootDir, Normal ''w'', Normal ''a''] = rt @ s \<and> 2 \<le> length rt \<and> has_root_marker ?E rt \<and>
        rel = (if s = [] then None else Some s) \<and>
        (\<forall>q t. [RootDir, Normal ''w'', Normal ''a''] = q @ t \<and> length rt < length q \<longrightarrow> \<not> has_root_marker ?E q)"
    then obtain s where s: "[RootDir, Normal ''w'', Normal ''a''] = rt @ s" "2 \<le> length rt" "has_root_marker ?E rt"
      "rel = (if s = [] then None else Some s)" by blast
    then have "rt = [RootDir, Normal ''w'']" using m by (cases rt) auto
    then show ?thesis using s here r by auto
  next
    assume "rt = [RootDir, Normal ''w'', Normal ''a''] \<and> rel = None \<and>
       (\<forall>q t. [RootDir, Normal ''w'', Normal ''a''] = q @ t \<and> 2 \<le> length q \<longrightarrow> \<not> has_root_marker ?E q)"
    then have "\<not> has_root_marker ?E [RootDir, Normal ''w'']"
      by (metis append_Cons append_Nil length_Cons list.size(3) le_refl numeral_2_eq_2)
    then show ?thesis using here by blast
  qed
qed

section \<open>Triggers\<close>

text \<open>
  \<^verbatim>\<open>trigger-list\<close> shows a trigger the way \<^verbatim>\<open>trigger\<close> takes it: parsing the value listed for any trigger
  gives that trigger back, as long as its file limit fits a signed integer.
\<close>

theorem trigger_value_roundtrip:
  assumes "case tr_max_files_stdin t of None \<Rightarrow> True | Some n \<Rightarrow> n < 2 ^ 63"
  shows "parse_trigger (trigger_to_value t) = Inr t"
proof -
  have names: "List.map_filter as_str (map VString ns) = ns" for ns
    by (induction ns) (simp_all add: List.map_filter_simps)
  have n: "nat (max (as_i64 (int n)) 0) = n" if "tr_max_files_stdin t = Some n" for n
    using assms that by simp
  show ?thesis
  proof (cases "tr_stdin t")
    case None
    then show ?thesis
      using n by (cases "tr_max_files_stdin t")
        (simp_all add: parse_trigger_def trigger_to_value_def obj_def bool_option_def names)
  next
    case (Some k)
    then show ?thesis
      using n by (cases k; cases "tr_max_files_stdin t")
        (simp_all add: parse_trigger_def trigger_to_value_def obj_def bool_option_def names)
  qed
qed

theorem trigger_value_roundtrip_witness:
  "parse_trigger (trigger_to_value \<lparr> tr_name = ''build'', tr_command = [''make''], tr_expression = VString ''true'',
      tr_append_files = True, tr_stdin = Some JsonName, tr_max_files_stdin = Some 7 \<rparr>)
    = Inr \<lparr> tr_name = ''build'', tr_command = [''make''], tr_expression = VString ''true'',
      tr_append_files = True, tr_stdin = Some JsonName, tr_max_files_stdin = Some 7 \<rparr>"
  by (rule trigger_value_roundtrip) simp

end
