(* ===== verification/Cli_Pdu.thy ===== *)
theory Cli_Pdu
  imports Command_Props Rust_Text
begin

text \<open>
  The command line client (\<^verbatim>\<open>cli.rs\<close>), first half: the subcommands as clap parses them on Linux, the
  request each one becomes (\<^verbatim>\<open>build_pdu\<close>), and the socket path (\<^verbatim>\<open>sock.rs\<close>). What the client asks of the
  machine is the parameter \<open>cli_env\<close>: path canonicalisation, the working directory, the JSON library.
\<close>

section \<open>Subcommands\<close>

datatype cli_command =
    ForegroundDaemon
  | Completion string
  | GetSockname
  | GetPid
  | Version "string list" "string list"
  | ListCapabilities
  | WatchProject string
  | Watch string
  | WatchList
  | WatchDel string
  | WatchDelAll
  | ClockOf string
  | Query string string
  | Subscribe string string string
  | Unsubscribe string string
  | FlushSubscriptions string int
  | StateEnter string string
  | StateLeave string string
  | GetConfig string
  | LogLevel "string option"
  | Log string string
  | Status bool
  | ShutdownServer
  | Raw string
  | DebugRecrawl string
  | DebugAgeout string int
  | DebugShowCursors string
  | DebugPollForSettle string
  | Find string "string list"
  | Since string string
  | TriggerAdd string string
  | TriggerList string
  | TriggerDel string string
  | GetLog
  | GlobalLogLevel "string option"
  | DebugContenthash string
  | DebugStatus
  | DebugRootStatus string
  | DebugWatcherInfo string
  | DebugWatcherInfoClear
  | DebugGetAssertedStates string
  | DebugGetSubscriptions string
  | DebugKqueueAndFsEventsRecrawl string
  | DebugFsEventsInjectDrop string
  | DebugSetParallelCrawl
  | DebugSetSubscriptionsPaused
  | DebugSymlinkTargetCache

record 'n cli_env =
  cl_canonicalize :: "string \<Rightarrow> path option"
  cl_current_dir :: "string option"
  cl_serde :: "'n serde"
  cl_pretty :: "'n json \<Rightarrow> byte list"

datatype cli_error =
    ParsingJson string
  | EmptyStdin
  | StdinNotUtf8
  | ClosedEarly
  | ReadFailed protocol_error
  | EncodeFailed protocol_error
  | NoDaemon
  | ConnectFailed
  | SpawnFailed
  | SocketNeverAppeared
  | NotAccepting
  | NoPasswdEntry

section \<open>Requests\<close>

text \<open>\<^verbatim>\<open>PathBuf::push\<close> on the text of a path: the bytes are kept as they are.\<close>

definition os_join :: "string \<Rightarrow> string \<Rightarrow> string" where
  "os_join base p =
     (if is_absolute (path_of p) then p
      else if base \<noteq> [] \<and> last base \<noteq> SLASH then base @ SLASH # p
      else base @ p)"

definition absolutise :: "'n cli_env \<Rightarrow> string \<Rightarrow> string" where
  "absolutise E p =
     (case cl_canonicalize E p of
        Some c \<Rightarrow> to_string_lossy c
      | None \<Rightarrow>
          if is_absolute (path_of p) then p
          else (let cwd = (case cl_current_dir E of Some d \<Rightarrow> d | None \<Rightarrow> [])
                in from_utf8_lossy (os_join cwd p)))"

definition parse_json :: "'n cli_env \<Rightarrow> string \<Rightarrow> string \<Rightarrow> (cli_error, wire_value) outcome" where
  "parse_json E s ctx =
     (case from_text (cl_serde E) (as_bytes s) of
        None \<Rightarrow> Err (ParsingJson ctx)
      | Some j \<Rightarrow> Ok (cli_json_to_value (cl_serde E) j))"

definition version_options :: "string list \<Rightarrow> string list \<Rightarrow> wire_value list" where
  "version_options required optional =
     (if required \<noteq> [] \<or> optional \<noteq> [] then
        [VObject (im_inserts
          ((if required \<noteq> [] then [(''required'', VArray (map VString required))] else []) @
           (if optional \<noteq> [] then [(''optional'', VArray (map VString optional))] else [])) [])]
      else [])"

definition request :: "string \<Rightarrow> wire_value list \<Rightarrow> (cli_error, wire_value) outcome" where
  "request name args = Ok (VArray (VString name # args))"

fun build_pdu :: "'n cli_env \<Rightarrow> cli_command \<Rightarrow> (cli_error, wire_value) outcome" where
  "build_pdu E ForegroundDaemon = Panic"
| "build_pdu E (Completion shell) = Panic"
| "build_pdu E (Status json) = request ''status'' []"
| "build_pdu E GetSockname = request ''get-sockname'' []"
| "build_pdu E GetPid = request ''get-pid'' []"
| "build_pdu E (Version required optional) = request ''version'' (version_options required optional)"
| "build_pdu E ListCapabilities = request ''list-capabilities'' []"
| "build_pdu E (WatchProject p) = request ''watch-project'' [VString (absolutise E p)]"
| "build_pdu E (Watch p) = request ''watch'' [VString (absolutise E p)]"
| "build_pdu E WatchList = request ''watch-list'' []"
| "build_pdu E (WatchDel p) = request ''watch-del'' [VString (absolutise E p)]"
| "build_pdu E WatchDelAll = request ''watch-del-all'' []"
| "build_pdu E (ClockOf p) = request ''clock'' [VString (absolutise E p)]"
| "build_pdu E (Query p q) =
     obind (parse_json E q ''query'') (\<lambda>v. request ''query'' [VString (absolutise E p), v])"
| "build_pdu E (Subscribe p name q) =
     obind (parse_json E q ''subscribe'') (\<lambda>v. request ''subscribe'' [VString (absolutise E p), VString name, v])"
| "build_pdu E (Unsubscribe p name) = request ''unsubscribe'' [VString (absolutise E p), VString name]"
| "build_pdu E (FlushSubscriptions p timeout_ms) =
     request ''flush-subscriptions'' [VString (absolutise E p), VInt (as_i64 timeout_ms)]"
| "build_pdu E (StateEnter p name) = request ''state-enter'' [VString (absolutise E p), VString name]"
| "build_pdu E (StateLeave p name) = request ''state-leave'' [VString (absolutise E p), VString name]"
| "build_pdu E (GetConfig p) = request ''get-config'' [VString (absolutise E p)]"
| "build_pdu E (LogLevel level) = request ''log-level'' (case level of None \<Rightarrow> [] | Some l \<Rightarrow> [VString l])"
| "build_pdu E (Log level message) = request ''log'' [VString level, VString message]"
| "build_pdu E ShutdownServer = request ''shutdown-server'' []"
| "build_pdu E (DebugRecrawl p) = request ''debug-recrawl'' [VString (absolutise E p)]"
| "build_pdu E (DebugAgeout p age) = request ''debug-ageout'' [VString (absolutise E p), VInt age]"
| "build_pdu E (DebugShowCursors p) = request ''debug-show-cursors'' [VString (absolutise E p)]"
| "build_pdu E (DebugPollForSettle p) = request ''debug-poll-for-settle'' [VString (absolutise E p)]"
| "build_pdu E (Find p patterns) = request ''find'' (VString (absolutise E p) # map VString patterns)"
| "build_pdu E (Since p c) = request ''since'' [VString (absolutise E p), VString c]"
| "build_pdu E (TriggerAdd p spec) =
     obind (parse_json E spec ''trigger spec'') (\<lambda>v. request ''trigger'' [VString (absolutise E p), v])"
| "build_pdu E (TriggerList p) = request ''trigger-list'' [VString (absolutise E p)]"
| "build_pdu E (TriggerDel p name) = request ''trigger-del'' [VString (absolutise E p), VString name]"
| "build_pdu E GetLog = request ''get-log'' []"
| "build_pdu E (GlobalLogLevel level) =
     request ''global-log-level'' (case level of None \<Rightarrow> [] | Some l \<Rightarrow> [VString l])"
| "build_pdu E (DebugContenthash p) = request ''debug-contenthash'' [VString (absolutise E p)]"
| "build_pdu E DebugStatus = request ''debug-status'' []"
| "build_pdu E (DebugRootStatus p) = request ''debug-root-status'' [VString (absolutise E p)]"
| "build_pdu E (DebugWatcherInfo p) = request ''debug-watcher-info'' [VString (absolutise E p)]"
| "build_pdu E DebugWatcherInfoClear = request ''debug-watcher-info-clear'' []"
| "build_pdu E (DebugGetAssertedStates p) = request ''debug-get-asserted-states'' [VString (absolutise E p)]"
| "build_pdu E (DebugGetSubscriptions p) = request ''debug-get-subscriptions'' [VString (absolutise E p)]"
| "build_pdu E (DebugKqueueAndFsEventsRecrawl p) =
     request ''debug-kqueue-and-fsevents-recrawl'' [VString (absolutise E p)]"
| "build_pdu E (DebugFsEventsInjectDrop p) = request ''debug-fsevents-inject-drop'' [VString (absolutise E p)]"
| "build_pdu E DebugSetParallelCrawl = request ''debug-set-parallel-crawl'' []"
| "build_pdu E DebugSetSubscriptionsPaused = request ''debug-set-subscriptions-paused'' []"
| "build_pdu E DebugSymlinkTargetCache = request ''debug-symlink-target-cache'' []"
| "build_pdu E (Raw pdu) = parse_json E pdu ''raw PDU''"

section \<open>The socket path\<close>

text \<open>\<open>sk_var\<close>: an environment variable's bytes; \<^verbatim>\<open>std::env::var\<close> refuses one that is not UTF-8.\<close>

record sock_env =
  sk_var :: "string \<Rightarrow> string option"
  sk_passwd_name :: "string option"

definition env_var :: "sock_env \<Rightarrow> string \<Rightarrow> string option" where
  "env_var K name = (case sk_var K name of Some v \<Rightarrow> if utf8_valid v then Some v else None | None \<Rightarrow> None)"

definition whoami :: "sock_env \<Rightarrow> string option" where
  "whoami K =
     (case env_var K ''USER'' of
        Some u \<Rightarrow> if u \<noteq> [] then Some u else sk_passwd_name K
      | None \<Rightarrow> sk_passwd_name K)"

definition sock_resolve :: "sock_env \<Rightarrow> string option \<Rightarrow> cli_error + string" where
  "sock_resolve K explicit =
     (case explicit of
        Some p \<Rightarrow> Inr p
      | None \<Rightarrow>
          sbind (ok_or NoPasswdEntry (whoami K)) (\<lambda>user.
            case sk_var K ''XDG_STATE_HOME'' of
              Some state \<Rightarrow> Inr (os_join (os_join (os_join state ''watchman'') (user @ ''-state'')) ''sock'')
            | None \<Rightarrow>
                (case sk_var K ''HOME'' of
                   Some home \<Rightarrow> Inr (os_join (os_join (os_join home ''.local/state/watchman'') (user @ ''-state'')) ''sock'')
                 | None \<Rightarrow>
                     (let tmp = (case env_var K ''TMPDIR'' of Some t \<Rightarrow> t | None \<Rightarrow> ''/tmp'')
                      in Inr (os_join (os_join tmp (user @ ''-state'')) ''sock'')))))"

section \<open>Absolute paths\<close>

lemma is_absolute_path_of: "is_absolute (path_of s) \<longleftrightarrow> (\<exists>r. s = SLASH # r)"
proof (cases s)
  case (Cons c r)
  obtain p ps where "split_on SLASH r = p # ps" using split_on_ne [of SLASH r] by (cases "split_on SLASH r") auto
  then show ?thesis using Cons by (auto simp: path_of_def is_absolute_def inner_component_def)
qed (simp add: path_of_def is_absolute_def inner_component_def)

lemma lossy_absolute: "from_utf8_lossy (SLASH # r) = SLASH # from_utf8_lossy r"
  by (simp add: from_utf8_lossy_Cons_ascii SLASH_def)

lemma to_string_lossy_absolute: "is_absolute p \<Longrightarrow> \<exists>r. to_string_lossy p = SLASH # r"
proof -
  assume "is_absolute p"
  then obtain q where "p = RootDir # q" by (cases p) (auto simp: is_absolute_def)
  then have "\<exists>r. path_str p = SLASH # r" by (cases q) simp_all
  then show ?thesis using lossy_absolute by (auto simp: to_string_lossy_def)
qed

text \<open>What the client relies on: canonical paths and the working directory are absolute.\<close>

definition cli_env_ok :: "'n cli_env \<Rightarrow> bool" where
  "cli_env_ok E \<longleftrightarrow>
     (\<forall>p c. cl_canonicalize E p = Some c \<longrightarrow> is_absolute c) \<and>
     (\<exists>d. cl_current_dir E = Some d \<and> is_absolute (path_of d))"

lemma absolutise_absolute:
  assumes "cli_env_ok E"
  shows "is_absolute (path_of (absolutise E p))"
proof (cases "cl_canonicalize E p")
  case None
  obtain d where "cl_current_dir E = Some (SLASH # d)"
    using assms by (auto simp: cli_env_ok_def is_absolute_path_of)
  then show ?thesis
    using None by (auto simp: absolutise_def is_absolute_path_of os_join_def lossy_absolute Let_def)
next
  case (Some c)
  then show ?thesis
    using assms to_string_lossy_absolute [of c] by (auto simp: absolutise_def cli_env_ok_def is_absolute_path_of)
qed

section \<open>Properties\<close>

text \<open>The subcommands that name a path, and those the client sends as a request of its own making.\<close>

fun command_path :: "cli_command \<Rightarrow> string option" where
  "command_path (WatchProject p) = Some p"
| "command_path (Watch p) = Some p"
| "command_path (WatchDel p) = Some p"
| "command_path (ClockOf p) = Some p"
| "command_path (Query p q) = Some p"
| "command_path (Subscribe p n q) = Some p"
| "command_path (Unsubscribe p n) = Some p"
| "command_path (FlushSubscriptions p t) = Some p"
| "command_path (StateEnter p n) = Some p"
| "command_path (StateLeave p n) = Some p"
| "command_path (GetConfig p) = Some p"
| "command_path (DebugRecrawl p) = Some p"
| "command_path (DebugAgeout p a) = Some p"
| "command_path (DebugShowCursors p) = Some p"
| "command_path (DebugPollForSettle p) = Some p"
| "command_path (Find p ps) = Some p"
| "command_path (Since p c) = Some p"
| "command_path (TriggerAdd p s) = Some p"
| "command_path (TriggerList p) = Some p"
| "command_path (TriggerDel p n) = Some p"
| "command_path (DebugContenthash p) = Some p"
| "command_path (DebugRootStatus p) = Some p"
| "command_path (DebugWatcherInfo p) = Some p"
| "command_path (DebugGetAssertedStates p) = Some p"
| "command_path (DebugGetSubscriptions p) = Some p"
| "command_path (DebugKqueueAndFsEventsRecrawl p) = Some p"
| "command_path (DebugFsEventsInjectDrop p) = Some p"
| "command_path _ = None"

definition is_raw :: "cli_command \<Rightarrow> bool" where
  "is_raw cmd = (case cmd of Raw _ \<Rightarrow> True | _ \<Rightarrow> False)"

definition names_path :: "'n cli_env \<Rightarrow> cli_command \<Rightarrow> wire_value list \<Rightarrow> bool" where
  "names_path E cmd args =
     (case command_path cmd of None \<Rightarrow> True | Some p \<Rightarrow> nth_arg 0 args = Some (VString (absolutise E p)))"

lemma build_pdu_cases:
  assumes "build_pdu E cmd = Ok pdu" and "\<not> is_raw cmd"
  obtains name args where "pdu = VArray (VString name # args)" "name \<in> set command_names" "names_path E cmd args"
  using assms
  by (cases cmd)
    (force simp: request_def is_raw_def names_path_def nth_arg_def obind_Ok_iff command_names_def)+

text \<open>
  C27. Every subcommand reaches a handler of the daemon: unless it fails to parse the user's JSON, the client
  turns each subcommand except \<^verbatim>\<open>raw\<close> into an array whose first element is the name of a command the daemon
  has, so the daemon runs that handler on the remaining elements and never answers that the command is
  unknown; and when the subcommand names a path, the first argument is an absolute path, whatever the
  user typed.
\<close>

theorem cli_reaches_handler:
  assumes "cli_env_ok L" and "build_pdu L cmd = Ok pdu" and "\<not> is_raw cmd"
  shows "\<exists>name args h. pdu = VArray (VString name # args) \<and> map_of (handlers E I session args) name = Some h \<and>
    dispatch_inner E I session pdu = h \<and>
    (case command_path cmd of None \<Rightarrow> True | Some p \<Rightarrow> \<exists>s. nth_arg 0 args = Some (VString s) \<and> is_absolute (path_of s))"
proof -
  obtain name args where p: "pdu = VArray (VString name # args)" "name \<in> set command_names" "names_path L cmd args"
    using assms(2,3) by (rule build_pdu_cases)
  then obtain h where h: "map_of (handlers E I session args) name = Some h"
    using handlers_contain [of name E I session args] by (auto simp: im_contains_def)
  then have "dispatch_inner E I session pdu = h"
    by (simp add: p(1) dispatch_inner_def fun_eq_iff hbind_def hlift_def ok_or_def str_arg_def nth_arg_def)
  then show ?thesis
    using p h absolutise_absolute [OF assms(1)] by (auto simp: names_path_def split: option.splits)
qed

definition sample_cli_env :: "(int + f64) cli_env" where
  "sample_cli_env =
     \<lparr> cl_canonicalize = (\<lambda>_. None), cl_current_dir = Some ''/w'', cl_serde = tiny_serde,
       cl_pretty = tiny_text \<rparr>"

lemma sample_cli_env_ok: "cli_env_ok sample_cli_env"
  by (simp add: cli_env_ok_def sample_cli_env_def is_absolute_path_of SLASH_def)

theorem cli_reaches_handler_witness:
  "\<exists>name args h. VArray [VString ''clock'', VString ''/w/src''] = VArray (VString name # args) \<and>
    map_of (handlers sample_cmd_env sample_info_env 1 args) name = Some h \<and>
    dispatch_inner sample_cmd_env sample_info_env 1 (VArray [VString ''clock'', VString ''/w/src'']) = h \<and>
    (\<exists>s. nth_arg 0 args = Some (VString s) \<and> is_absolute (path_of s))"
proof -
  have lossy: "from_utf8_lossy ''/w/src'' = ''/w/src''" by (rule from_utf8_lossy_valid) simp
  have "build_pdu sample_cli_env (ClockOf ''src'') = Ok (VArray [VString ''clock'', VString ''/w/src''])"
    using lossy by (simp add: request_def absolutise_def sample_cli_env_def os_join_def is_absolute_path_of SLASH_def)
  from cli_reaches_handler [OF sample_cli_env_ok this, of sample_cmd_env sample_info_env 1] show ?thesis
    by (simp add: is_raw_def)
qed

end
