(* ===== verification/Cli_Report.thy ===== *)
theory Cli_Report
  imports Wire_Value Query_Field Rust_Text
begin

text \<open>
  The command line client (\<^verbatim>\<open>cli.rs\<close>), the human readable status report: the formatting helpers and
  \<^verbatim>\<open>print_status_report\<close> as the text it writes.
\<close>

section \<open>Formatting\<close>

text \<open>\<^verbatim>\<open>str::chars\<close>: the scalar values of a string, each as its UTF-8 bytes.\<close>

function str_chars :: "string \<Rightarrow> string list" where
  "str_chars s =
     (if s = [] then [] else take (snd (utf8_chunk s)) s # str_chars (drop (snd (utf8_chunk s)) s))"
  by pat_completeness auto
termination
  by (relation "measure length") (auto simp: utf8_chunk_pos)

declare str_chars.simps [simp del]

definition spaces :: "nat \<Rightarrow> string" where
  "spaces n = replicate n (CHR '' '')"

text \<open>The width specifications of \<^verbatim>\<open>format!\<close> count scalar values.\<close>

definition pad_right :: "nat \<Rightarrow> string \<Rightarrow> string" where
  "pad_right w s = s @ spaces (w - length (str_chars s))"

definition pad_left :: "nat \<Rightarrow> string \<Rightarrow> string" where
  "pad_left w s = spaces (w - length (str_chars s)) @ s"

definition int_str :: "int \<Rightarrow> string" where
  "int_str i = (if i < 0 then CHR ''-'' # nat_str (nat (- i)) else nat_str (nat i))"

definition two_digits :: "nat \<Rightarrow> string" where
  "two_digits n = (if n < 10 then CHR ''0'' # nat_str n else nat_str n)"

text \<open>
  \<^verbatim>\<open>n as f64\<close> for an unsigned 64-bit integer, as the integer the float denotes; and a float given as
  a fraction printed with \<open>k\<close> decimals, rounded to nearest with ties to even.
\<close>

definition u64_as_f64 :: "nat \<Rightarrow> nat" where
  "u64_as_f64 n = (if n < 2 ^ 53 then n
     else (let e = floorlog 2 n - 53 in round_half_even n (2 ^ e) * 2 ^ e))"

definition whole_str :: "nat \<Rightarrow> nat \<Rightarrow> string" where
  "whole_str n d = nat_str (round_half_even n d)"

definition tenths_str :: "nat \<Rightarrow> nat \<Rightarrow> string" where
  "tenths_str n d =
     (let t = round_half_even (10 * n) d in nat_str (t div 10) @ CHR ''.'' # nat_str (t mod 10))"

definition KB :: nat where "KB = 1024"
definition MB :: nat where "MB = KB * 1024"
definition GB :: nat where "GB = MB * 1024"

definition format_bytes :: "nat \<Rightarrow> string" where
  "format_bytes n =
     (if GB \<le> n then tenths_str (u64_as_f64 n) GB @ '' GB''
      else if MB \<le> n then whole_str (u64_as_f64 n) MB @ '' MB''
      else if KB \<le> n then whole_str (u64_as_f64 n) KB @ '' KB''
      else nat_str n @ '' B'')"

fun separate :: "string \<Rightarrow> nat \<Rightarrow> nat \<Rightarrow> string" where
  "separate [] len i = []"
| "separate (b # bs) len i =
     (if 0 < i \<and> (len - i) mod 3 = 0 then CHR '','' # b # separate bs len (i + 1)
      else b # separate bs len (i + 1))"

definition format_count :: "nat \<Rightarrow> string" where
  "format_count n = (let s = nat_str n in separate s (length s) 0)"

definition format_duration :: "nat \<Rightarrow> string" where
  "format_duration secs =
     (if secs < 60 then nat_str secs @ ''s''
      else if secs < 3600 then nat_str (secs div 60) @ ''m''
      else if secs < 86400 then nat_str (secs div 3600) @ ''h'' @ two_digits ((secs mod 3600) div 60) @ ''m''
      else nat_str (secs div 86400) @ ''d'' @ two_digits ((secs mod 86400) div 3600) @ ''h'')"

definition format_duration_ms :: "nat \<Rightarrow> string" where
  "format_duration_ms ms = (if ms < 1000 then nat_str ms @ ''ms'' else format_duration (ms div 1000))"

definition ELLIPSIS :: string where "ELLIPSIS = utf8_chars [226, 128, 166]"
definition MIDDLE_DOT :: string where "MIDDLE_DOT = utf8_chars [194, 183]"

text \<open>Both callers pass a positive \<open>limit\<close>.\<close>

definition truncate_left :: "string \<Rightarrow> nat \<Rightarrow> string" where
  "truncate_left s limit =
     (let chars = str_chars s in
      if length chars \<le> limit then s
      else ELLIPSIS @ concat (drop (length chars - (limit - 1)) chars))"

section \<open>The report\<close>

definition get_i :: "(string, wire_value) imap \<Rightarrow> string \<Rightarrow> int" where
  "get_i m k = (case Option.bind (im_get m k) as_i64_value of Some i \<Rightarrow> i | None \<Rightarrow> 0)"

definition get_s :: "string \<Rightarrow> (string, wire_value) imap \<Rightarrow> string \<Rightarrow> string" where
  "get_s fallback m k = (case Option.bind (im_get m k) as_str of Some s \<Rightarrow> s | None \<Rightarrow> fallback)"

definition get_a :: "(string, wire_value) imap \<Rightarrow> string \<Rightarrow> wire_value list" where
  "get_a m k = (case Option.bind (im_get m k) as_array of Some a \<Rightarrow> a | None \<Rightarrow> [])"

definition cast_u64 :: "int \<Rightarrow> nat" where
  "cast_u64 i = nat (as_u64 i)"

definition clamp_u64 :: "int \<Rightarrow> nat" where
  "clamp_u64 i = nat (max i 0)"

definition report_header :: "(string, wire_value) imap \<Rightarrow> string list" where
  "report_header obj =
     (let rss = get_i obj ''rss_bytes'';
          footprint = (case Option.bind (im_get obj ''footprint_bytes'') as_i64_value of
                         Some v \<Rightarrow> if 0 < v then v else rss
                       | None \<Rightarrow> rss)
      in [''watchwoman '' @ get_s [] obj ''version'' @ ''  (pid '' @ int_str (get_i obj ''pid'') @ '', up ''
            @ format_duration (cast_u64 (get_i obj ''uptime_seconds'')) @ '')'',
          ''socket:  '' @ get_s [] obj ''sockname'',
          ''memory:  '' @ format_bytes (cast_u64 footprint) @ '' footprint ('' @ format_bytes (cast_u64 rss)
            @ '' resident)   cpu: '' @ format_duration_ms (cast_u64 (get_i obj ''user_cpu_ms'')) @ '' user / ''
            @ format_duration_ms (cast_u64 (get_i obj ''system_cpu_ms'')) @ '' system''])"

definition report_memory :: "(string, wire_value) imap \<Rightarrow> string list" where
  "report_memory obj =
     (let mem = (case Option.bind (im_get obj ''memory'') as_object of Some m \<Rightarrow> m | None \<Rightarrow> []);
          tree_bytes = get_i mem ''tree_bytes_est''
      in (if 0 < tree_bytes \<or> 0 < get_i obj ''total_tracked_files'' then
            [spaces 9 @ format_bytes (cast_u64 tree_bytes) @ '' tracked data (est) '' @ MIDDLE_DOT @ '' ''
              @ format_bytes (clamp_u64 (get_i mem ''unaccounted_bytes'')) @ '' unaccounted (allocator / OS-held)'']
          else []) @
         (case (Option.bind (im_get mem ''allocator_allocated_bytes'') as_i64_value,
                Option.bind (im_get mem ''allocator_mapped_bytes'') as_i64_value) of
            (Some allocated, Some mapped) \<Rightarrow>
              [spaces 9 @ format_bytes (clamp_u64 allocated) @ '' live in '' @ format_bytes (clamp_u64 mapped)
                @ '' mapped by '' @ get_s [] mem ''allocator'']
          | _ \<Rightarrow> []))"

definition report_totals :: "(string, wire_value) imap \<Rightarrow> string" where
  "report_totals obj =
     (let total_files = get_i obj ''total_tracked_files''; total_tombstones = get_i obj ''total_tombstones''
      in ''roots:   '' @ nat_str (length (get_a obj ''roots'')) @ '' watched '' @ MIDDLE_DOT @ '' ''
         @ format_count (cast_u64 total_files) @ '' files ('' @ format_count (clamp_u64 (as_i64 (total_files - total_tombstones)))
         @ '' live, '' @ format_count (clamp_u64 total_tombstones) @ '' tombstones) '' @ MIDDLE_DOT @ '' ''
         @ int_str (get_i obj ''total_subscriptions'') @ '' subs '' @ MIDDLE_DOT @ '' ''
         @ int_str (get_i obj ''total_triggers'') @ '' triggers'')"

definition table_row :: "string list \<Rightarrow> string \<Rightarrow> string" where
  "table_row cells health =
     pad_right 54 (cells ! 0) @ '' '' @ pad_left 10 (cells ! 1) @ '' '' @ pad_left 8 (cells ! 2) @ '' ''
     @ pad_left 8 (cells ! 3) @ '' '' @ pad_left 4 (cells ! 4) @ '' '' @ pad_left 4 (cells ! 5) @ ''  ''
     @ pad_right 9 (cells ! 6) @ '' '' @ health"

definition table_header :: string where
  "table_header = table_row [''ROOT'', ''FILES'', ''GHOSTS'', ''MEM~'', ''SUB'', ''TRG'', ''MODE''] ''HEALTH''"

definition report_root :: "wire_value \<Rightarrow> string list" where
  "report_root r =
     (case as_object r of
        None \<Rightarrow> []
      | Some ro \<Rightarrow>
          [table_row
            [truncate_left (get_s ''?'' ro ''path'') 54,
             format_count (cast_u64 (get_i ro ''num_files'')),
             format_count (clamp_u64 (get_i ro ''tombstones'')),
             format_bytes (clamp_u64 (get_i ro ''tree_bytes_est'')),
             int_str (get_i ro ''subscriptions''), int_str (get_i ro ''triggers''),
             get_s ''full'' ro ''index_mode''] (get_s ''?'' ro ''health'')])"

definition report_reap :: "nat \<Rightarrow> wire_value \<Rightarrow> string list" where
  "report_reap now_unix r =
     (case as_object r of
        None \<Rightarrow> []
      | Some ro \<Rightarrow>
          [''  ['' @ get_s ''?'' ro ''reason'' @ ''] '' @ truncate_left (get_s ''?'' ro ''path'') 70 @ ''  (''
            @ format_duration (now_unix - cast_u64 (get_i ro ''at_unix'')) @ '' ago)''])"

definition report_lines :: "nat \<Rightarrow> (string, wire_value) imap \<Rightarrow> string list" where
  "report_lines now_unix obj =
     (let roots = get_a obj ''roots''; reaped = get_a obj ''reaped''
      in report_header obj @ report_memory obj @ [report_totals obj, []] @
         (if roots = [] then [''(no roots watched)''] else table_header # concat (map report_root roots)) @
         (if reaped \<noteq> [] then
            [[], ''garbage-collected ('' @ nat_str (length reaped) @ '' recent, newest first):''] @
            concat (map (report_reap now_unix) (take 10 (rev reaped)))
          else []))"

text \<open>\<open>fallback\<close> is what \<^verbatim>\<open>print_response\<close> writes for a response that is not an object.\<close>

definition print_status_report :: "nat \<Rightarrow> (wire_value \<Rightarrow> byte list) \<Rightarrow> wire_value \<Rightarrow> byte list" where
  "print_status_report now_unix fallback v =
     (case as_object v of
        None \<Rightarrow> fallback v
      | Some obj \<Rightarrow> as_bytes (concat (map (\<lambda>l. l @ [NEWLINE_CHAR]) (report_lines now_unix obj))))"

section \<open>Widths\<close>

lemma str_chars_Nil [simp]: "str_chars [] = []"
  by (simp add: str_chars.simps)

lemma str_chars_append: "utf8_valid s \<Longrightarrow> str_chars (s @ t) = str_chars s @ str_chars t"
proof (induction s rule: utf8_valid.induct)
  case (1 s)
  show ?case
  proof (cases "s = []")
    case False
    let ?n = "snd (utf8_chunk s)"
    have v: "fst (utf8_chunk s)" "utf8_valid (drop ?n s)" using "1.prems" False by (auto simp: utf8_valid.simps [of s])
    have n: "?n \<le> length s" "utf8_chunk (take ?n s @ drop ?n s @ t) = utf8_chunk s"
      using utf8_chunk_take [OF v(1) False, of "drop ?n s @ t"] by auto
    then have "utf8_chunk (s @ t) = utf8_chunk s" by (metis append_assoc append_take_drop_id)
    then show ?thesis
      using "1.IH" [OF False v(2)] False n(1) by (simp add: str_chars.simps [of "s @ t"] str_chars.simps [of s])
  qed simp
qed

lemma str_chars_ascii: "list_all (\<lambda>c. of_char c < (128 :: nat)) s \<Longrightarrow> length (str_chars s) = length s"
  by (induction s) (simp_all add: str_chars.simps [of "_ # _"] utf8_chunk_def utf8_class_def code_at_def)

text \<open>The scalar values of a valid string, and those of any tail of them.\<close>

lemma str_chars_tail:
  "utf8_valid s \<Longrightarrow> utf8_valid (concat (drop k (str_chars s))) \<and> str_chars (concat (drop k (str_chars s))) = drop k (str_chars s)"
proof (induction s arbitrary: k rule: utf8_valid.induct)
  case (1 s)
  show ?case
  proof (cases "s = []")
    case False
    let ?n = "snd (utf8_chunk s)"
    have v: "fst (utf8_chunk s)" "utf8_valid (drop ?n s)" using "1.prems" False by (auto simp: utf8_valid.simps [of s])
    note IH = "1.IH" [OF False v(2)]
    have all: "concat (str_chars s) = s" if "utf8_valid s" for s
      using that
    proof (induction s rule: utf8_valid.induct)
      case (1 s)
      then show ?case
        by (cases "s = []") (simp_all add: str_chars.simps [of s] utf8_valid.simps [of s])
    qed
    show ?thesis
    proof (cases k)
      case 0
      then show ?thesis using all [OF "1.prems"] "1.prems" by simp
    next
      case (Suc j)
      then show ?thesis using IH [of j] False by (simp add: str_chars.simps [of s])
    qed
  qed simp
qed

lemma str_chars_ellipsis: "str_chars (ELLIPSIS @ s) = ELLIPSIS # str_chars s"
  by (simp add: ELLIPSIS_def utf8_chars_def str_chars.simps [of "_ # _"] utf8_chunk_def utf8_class_def utf8_second3_def
      utf8_cont_def code_at_def)

lemma truncate_left_width:
  assumes "utf8_valid s" and "0 < w"
  shows "length (str_chars (truncate_left s w)) \<le> w"
  using assms str_chars_tail [OF assms(1), of "length (str_chars s) - (w - 1)"]
  by (auto simp: truncate_left_def Let_def str_chars_ellipsis)

lemma spaces_width: "length (str_chars (spaces n)) = n"
  using str_chars_ascii [of "spaces n"] by (simp add: spaces_def list_all_iff)

lemma pad_right_width:
  "utf8_valid s \<Longrightarrow> length (str_chars s) \<le> w \<Longrightarrow> length (str_chars (pad_right w s)) = w"
  by (simp add: pad_right_def str_chars_append spaces_width)

section \<open>Counts\<close>

lemma separate_digits: "CHR '','' \<notin> set s \<Longrightarrow> filter (\<lambda>c. c \<noteq> CHR '','') (separate s len i) = s"
  by (induction s arbitrary: i) auto

lemma separate_length:
  "i + length s = len \<Longrightarrow> 0 < i \<Longrightarrow> length (separate s len i) = length s + length s div 3"
proof (induction s arbitrary: i)
  case (Cons b s)
  have "len - i = Suc (length s)" using Cons.prems by simp
  then show ?case using Cons.IH [of "Suc i"] Cons.prems by (simp add: div_Suc)
qed simp

lemma comma_notin_nat_str: "CHR '','' \<notin> set (nat_str n)"
  using nat_str_digits [of n] by (auto simp: list_all_iff is_digit_char_def)

text \<open>Thousands separators only add a comma before each further group of three digits.\<close>

lemma format_count_digits:
  "filter (\<lambda>c. c \<noteq> CHR '','') (format_count n) = nat_str n"
  "length (format_count n) = length (nat_str n) + (length (nat_str n) - 1) div 3"
proof -
  show "filter (\<lambda>c. c \<noteq> CHR '','') (format_count n) = nat_str n"
    by (simp add: format_count_def Let_def separate_digits comma_notin_nat_str)
  obtain d ds where "nat_str n = d # ds" using nat_str_digits [of n] by (cases "nat_str n") auto
  then show "length (format_count n) = length (nat_str n) + (length (nat_str n) - 1) div 3"
    by (simp add: format_count_def Let_def separate_length)
qed

section \<open>Properties\<close>

text \<open>
  The status table keeps its columns: whatever path a watched root has, its cell is exactly 54 characters
  wide, counted in characters and not bytes; a longer path keeps its last 53 characters behind an ellipsis,
  and a shorter one is printed whole.
\<close>

theorem status_path_cell:
  assumes "utf8_valid p"
  shows "length (str_chars (pad_right 54 (truncate_left p 54))) = 54 \<and>
    (if length (str_chars p) \<le> 54 then truncate_left p 54 = p
     else str_chars (truncate_left p 54) = ELLIPSIS # drop (length (str_chars p) - 53) (str_chars p))"
proof -
  have v: "utf8_valid (truncate_left p 54)"
    using assms str_chars_tail [OF assms] utf8_valid_append
    by (auto simp: truncate_left_def Let_def ELLIPSIS_def utf8_chars_def utf8_valid.simps [of "_ # _"] utf8_chunk_def
        utf8_class_def utf8_second3_def utf8_cont_def code_at_def)
  show ?thesis
    using pad_right_width [OF v truncate_left_width] assms str_chars_tail [OF assms]
    by (auto simp: truncate_left_def Let_def str_chars_ellipsis)
qed

theorem status_path_cell_witness:
  "length (str_chars (pad_right 54 (truncate_left (replicate 60 (CHR ''a'')) 54))) = 54"
  using status_path_cell [of "replicate 60 (CHR ''a'')"] utf8_valid_ascii [of "replicate 60 (CHR ''a'')"] by simp

end
