(* ===== verification/Server.thy ===== *)
theory Server
  imports Command_Props
begin

text \<open>
  The socket side of the daemon (\<^verbatim>\<open>daemon/server.rs\<close>): sniffing the encoding of a connection, reading PDUs,
  and the loop that answers them. A connection is the bytes the client sends before it closes its side;
  the bytes written back are the responses in the order they are queued.
\<close>

section \<open>Reading\<close>

datatype conn_error =
    ConnEof
  | EofAfterMagic
  | UnknownVersion byte
  | EmptyJson
  | BadJson
  | ExpectedMagic byte
  | SwitchedVersion
  | EofIntTag
  | ExpectedInt byte
  | ConnBser protocol_error

definition read_u8 :: "byte list \<Rightarrow> byte option \<times> byte list" where
  "read_u8 r = (case r of [] \<Rightarrow> (None, []) | b # bs \<Rightarrow> (Some b, bs))"

definition conn_exact :: "nat \<Rightarrow> byte list \<Rightarrow> (conn_error, byte list \<times> byte list) outcome" where
  "conn_exact n r = (if length r < n then Err ConnEof else Ok (take n r, drop n r))"

definition read_bser_int :: "byte list \<Rightarrow> (conn_error, int \<times> byte list) outcome" where
  "read_bser_int r =
     (case read_u8 r of
        (None, _) \<Rightarrow> Err EofIntTag
      | (Some tag, r1) \<Rightarrow>
          obind (if tag = TAG_INT8 then Ok 1 else if tag = TAG_INT16 then Ok 2
                 else if tag = TAG_INT32 then Ok 4 else if tag = TAG_INT64 then Ok 8
                 else Err (ExpectedInt tag)) (\<lambda>len.
            obind (conn_exact len r1) (\<lambda>(raw, r2). Ok (from_le_signed raw, r2))))"

text \<open>The payload is decoded behind a header made for it.\<close>

definition length_header :: "int \<Rightarrow> byte list" where
  "length_header n =
     (if - (2 ^ 7) \<le> n \<and> n \<le> 2 ^ 7 - 1 then TAG_INT8 # to_le_bytes 1 n
      else if - (2 ^ 15) \<le> n \<and> n \<le> 2 ^ 15 - 1 then TAG_INT16 # to_le_bytes 2 n
      else if - (2 ^ 31) \<le> n \<and> n \<le> 2 ^ 31 - 1 then TAG_INT32 # to_le_bytes 4 n
      else TAG_INT64 # to_le_bytes 8 n)"

fun lift_protocol :: "(protocol_error, 'a) outcome \<Rightarrow> (conn_error, 'a) outcome" where
  "lift_protocol (Ok x) = Ok x"
| "lift_protocol (Err e) = Err (ConnBser e)"
| "lift_protocol Panic = Panic"

definition bser_decode_value :: "allocator \<Rightarrow> byte list \<Rightarrow> (conn_error, wire_value \<times> nat) outcome" where
  "bser_decode_value A payload =
     lift_protocol (bser_decode_pdu A (MAGIC_V1 @ length_header (as_i64 (int (length payload))) @ payload))"

definition read_payload :: "allocator \<Rightarrow> byte list \<Rightarrow> (conn_error, wire_value \<times> byte list) outcome" where
  "read_payload A r =
     obind (read_bser_int r) (\<lambda>(len, r1).
       if \<not> A KByte (as_u64 len) then Panic
       else obind (conn_exact (nat (as_u64 len)) r1) (\<lambda>(payload, r2).
         obind (bser_decode_value A payload) (\<lambda>(v, _). Ok (v, r2))))"

definition read_version :: "byte \<Rightarrow> byte list \<Rightarrow> (conn_error, encoding \<times> byte list) outcome" where
  "read_version b r =
     (if b = 1 then Ok (BserV1, r)
      else if b = 2 then obind (conn_exact 4 r) (\<lambda>(caps, r1). Ok (BserV2, r1))
      else Err (UnknownVersion b))"

definition read_first_pdu ::
  "allocator \<Rightarrow> 'n serde \<Rightarrow> byte list \<Rightarrow> (conn_error, (wire_value \<times> encoding) option \<times> byte list) outcome" where
  "read_first_pdu A S r =
     (case read_u8 r of
        (None, _) \<Rightarrow> Ok (None, [])
      | (Some first, r1) \<Rightarrow>
          if first = 0 then
            (case read_u8 r1 of
               (None, _) \<Rightarrow> Err EofAfterMagic
             | (Some version, r2) \<Rightarrow>
                 obind (read_version version r2) (\<lambda>(enc, r3).
                   obind (read_payload A r3) (\<lambda>(v, r4). Ok (Some (v, enc), r4))))
          else
            (let (l, rest) = read_until NEWLINE r1; buf = pop_newline (first # l) in
             if buf = [] then Err EmptyJson
             else (case from_text S buf of
                     None \<Rightarrow> Err BadJson
                   | Some j \<Rightarrow> Ok (Some (json_to_value S j, Json), rest))))"

definition server_read_pdu ::
  "allocator \<Rightarrow> 'n serde \<Rightarrow> encoding \<Rightarrow> byte list \<Rightarrow> (conn_error, wire_value option \<times> byte list) outcome" where
  "server_read_pdu A S enc r =
     (if enc = Json then
        (let (raw, rest) = read_until NEWLINE r; line = pop_newline raw in
         if raw = [] then Ok (None, rest)
         else if line = [] then Ok (None, rest)
         else (case from_text S line of
                 None \<Rightarrow> Err BadJson
               | Some j \<Rightarrow> Ok (Some (json_to_value S j), rest)))
      else
        (case read_u8 r of
           (None, _) \<Rightarrow> Ok (None, [])
         | (Some first, r1) \<Rightarrow>
             if first \<noteq> 0 then Err (ExpectedMagic first)
             else (case read_u8 r1 of
                     (None, _) \<Rightarrow> Err EofAfterMagic
                   | (Some version, r2) \<Rightarrow>
                       obind (read_version version r2) (\<lambda>(actual, r3).
                         if actual \<noteq> enc then Err SwitchedVersion
                         else obind (read_payload A r3) (\<lambda>(v, r4). Ok (Some v, r4))))))"

section \<open>A PDU consumes input\<close>

lemma conn_exact_length: "conn_exact n r = Ok (x, r') \<Longrightarrow> length r' \<le> length r"
  by (auto simp: conn_exact_def split: if_splits)

lemma read_bser_int_length: "read_bser_int r = Ok (n, r') \<Longrightarrow> length r' < length r"
  by (auto simp: read_bser_int_def read_u8_def obind_Ok_iff split: list.splits prod.splits if_splits dest!: conn_exact_length)

lemma read_payload_length: "read_payload A r = Ok (v, r') \<Longrightarrow> length r' < length r"
  by (fastforce simp: read_payload_def obind_Ok_iff split: prod.splits if_splits dest: conn_exact_length read_bser_int_length)

lemma read_version_length: "read_version b r = Ok (e, r') \<Longrightarrow> length r' \<le> length r"
  by (auto simp: read_version_def obind_Ok_iff split: prod.splits if_splits dest: conn_exact_length)

lemma read_until_length: "read_until d r = (l, rest) \<Longrightarrow> l \<noteq> [] \<Longrightarrow> length rest < length r"
proof -
  assume a: "read_until d r = (l, rest)" "l \<noteq> []"
  have "r = takeWhile (\<lambda>b. b \<noteq> d) r @ dropWhile (\<lambda>b. b \<noteq> d) r" by simp
  then have "length r = length (takeWhile (\<lambda>b. b \<noteq> d) r) + length (dropWhile (\<lambda>b. b \<noteq> d) r)" by (metis length_append)
  then have "length r = length l + length rest"
    using a(1) by (cases "dropWhile (\<lambda>b. b \<noteq> d) r") (auto simp: read_until_def Let_def)
  then show ?thesis using a(2) by simp
qed

lemma server_read_pdu_length: "server_read_pdu A S enc r = Ok (Some v, r') \<Longrightarrow> length r' < length r"
  by (cases r; cases "tl r")
    (auto simp: server_read_pdu_def read_u8_def obind_Ok_iff Let_def split: if_splits prod.splits option.splits
      dest!: read_payload_length read_version_length read_until_length)

section \<open>The connection\<close>

text \<open>
  \<open>disp\<close> dispatches a PDU, \<open>closing\<close> tells whether the session has closed or the daemon is shutting down, and
  \<open>msg\<close> is the text of an error. A panic of the reader aborts the process.
\<close>

datatype conn_end = Finished | Failed conn_error | Aborted

definition error_response :: "string \<Rightarrow> wire_value" where
  "error_response m = VObject (im_insert ''error'' (VString m) [])"

function conn_loop ::
  "allocator \<Rightarrow> 'n serde \<Rightarrow> (conn_error \<Rightarrow> string) \<Rightarrow> (wire_value \<Rightarrow> 's \<Rightarrow> wire_value \<times> 's) \<Rightarrow> ('s \<Rightarrow> bool) \<Rightarrow> encoding
    \<Rightarrow> byte list \<Rightarrow> 's \<Rightarrow> wire_value list \<times> 's \<times> conn_end" where
  "conn_loop A S msg disp closing enc r st =
     (if closing st then ([], st, Finished)
      else (case server_read_pdu A S enc r of
              Ok (None, _) \<Rightarrow> ([], st, Finished)
            | Err e \<Rightarrow> ([error_response (''parse error: '' @ msg e)], st, Failed e)
            | Panic \<Rightarrow> ([], st, Aborted)
            | Ok (Some pdu, r') \<Rightarrow>
                (let (resp, st1) = disp pdu st; (resps, st2, e) = conn_loop A S msg disp closing enc r' st1
                 in (resp # resps, st2, e))))"
  by pat_completeness auto
termination
  by (relation "measure (\<lambda>(A, S, msg, disp, closing, enc, r, st). length r)") (auto dest: server_read_pdu_length)

declare conn_loop.simps [simp del]

definition handle_connection ::
  "allocator \<Rightarrow> 'n serde \<Rightarrow> (conn_error \<Rightarrow> string) \<Rightarrow> (wire_value \<Rightarrow> 's \<Rightarrow> wire_value \<times> 's) \<Rightarrow> ('s \<Rightarrow> bool)
    \<Rightarrow> byte list \<Rightarrow> 's \<Rightarrow> (wire_value list \<times> encoding) option \<times> 's \<times> conn_end" where
  "handle_connection A S msg disp closing r st =
     (case read_first_pdu A S r of
        Ok (None, _) \<Rightarrow> (None, st, Finished)
      | Err e \<Rightarrow> (None, st, Failed e)
      | Panic \<Rightarrow> (None, st, Aborted)
      | Ok (Some (pdu, enc), r') \<Rightarrow>
          (let (resp, st1) = disp pdu st; (resps, st2, e) = conn_loop A S msg disp closing enc r' st1
           in (Some (resp # resps, enc), st2, e)))"

text \<open>The writer encodes the queued values one after the other and stops at the first it cannot encode.\<close>

definition server_write_value :: "'n serde \<Rightarrow> encoding \<Rightarrow> wire_value \<Rightarrow> (protocol_error, byte list) outcome" where
  "server_write_value S enc v =
     (case enc of Json \<Rightarrow> Ok (json_encode_pdu S [] v) | _ \<Rightarrow> bser_encode_pdu v enc)"

fun writer_loop :: "'n serde \<Rightarrow> encoding \<Rightarrow> wire_value list \<Rightarrow> byte list" where
  "writer_loop S enc [] = []"
| "writer_loop S enc (v # vs) =
     (case server_write_value S enc v of Ok bytes \<Rightarrow> bytes @ writer_loop S enc vs | _ \<Rightarrow> [])"

section \<open>The reader inverts a client's writer\<close>

lemma length_header_write_int: "length_header n = write_int n"
  by (simp add: length_header_def write_int_def)

lemma read_bser_int_write_int:
  assumes "i64_range n"
  shows "read_bser_int (write_int n @ rest) = Ok (n, rest)"
proof -
  have rt: "0 < k \<Longrightarrow> - (256 ^ k) \<le> 2 * n \<Longrightarrow> 2 * n < 256 ^ k \<Longrightarrow> from_le_signed (to_le_bytes k n) = n" for k
    by (simp add: from_to_le_signed)
  note rts = rt [of 1] rt [of 2] rt [of 4] rt [of 8]
  from assms show ?thesis
    unfolding write_int_def i64_range_def
    using rts by (auto simp: read_bser_int_def read_u8_def conn_exact_def tag_defs)
qed

definition conn_ok :: "allocator \<Rightarrow> wire_value \<Rightarrow> bool" where
  "conn_ok A v \<longleftrightarrow> pdu_ok A v \<and> A KByte (int (length (write_value v)))"

lemma read_payload_put:
  assumes "conn_ok A v"
  shows "read_payload A (write_int (int (length (write_value v))) @ write_value v @ rest) = Ok (wire_norm v, rest)"
proof -
  let ?p = "write_value v"
  have len: "i64_range (int (length ?p))" "as_i64 (int (length ?p)) = int (length ?p)" "len_ok ?p"
    using assms len_ok_i64 by (auto simp: conn_ok_def pdu_ok_def)
  have u: "as_u64 (int (length ?p)) = int (length ?p)" using len by (simp add: as_u64_def len_ok_def)
  have int: "read_bser_int (write_int (int (length ?p)) @ ?p @ rest) = Ok (int (length ?p), ?p @ rest)"
    using len(1) by (rule read_bser_int_write_int)
  have "bser_decode_value A ?p = Ok (wire_norm v, length (bser_put BserV1 v))"
    using bser_decode_put [of BserV1 A v "[]"] assms len
    by (simp add: bser_decode_value_def length_header_write_int bser_put_def magic_of_def conn_ok_def)
  then show ?thesis using int u assms by (simp add: read_payload_def conn_exact_def conn_ok_def)
qed

lemma server_read_bser:
  assumes "enc \<noteq> Json" and "conn_ok A v"
  shows "server_read_pdu A S enc (bser_put enc v @ rest) = Ok (Some (wire_norm v), rest)"
    "read_first_pdu A S (bser_put enc v @ rest) = Ok (Some (wire_norm v, enc), rest)"
  using assms read_payload_put [OF assms(2), of rest]
  by (cases enc; simp add: server_read_pdu_def read_first_pdu_def bser_put_def magic_of_def MAGIC_V1_def MAGIC_V2_def
      read_u8_def read_version_def conn_exact_def numeral_eq_Suc)+

lemma server_json_norm: "number_laws S \<Longrightarrow> value_wf v \<Longrightarrow> json_to_value S (to_serde S v) = json_norm v"
  by (simp add: json_to_value_from_serde to_serde_small_ints from_to_serde)

definition json_ok :: "'n serde \<Rightarrow> wire_value \<Rightarrow> bool" where
  "json_ok S v \<longleftrightarrow> value_wf v \<and> text_laws S (to_serde S v) \<and> hd (to_text S (to_serde S v)) \<noteq> 0"

lemma server_read_json:
  assumes "number_laws S" and "json_ok S v"
  shows "server_read_pdu A S Json (json_put S v @ rest) = Ok (Some (json_norm v), rest)"
    "read_first_pdu A S (json_put S v @ rest) = Ok (Some (json_norm v, Json), rest)"
proof -
  let ?t = "to_text S (to_serde S v)"
  have t: "NEWLINE \<notin> set ?t" "?t \<noteq> []" "from_text S ?t = Some (to_serde S v)" "hd ?t \<noteq> 0" "value_wf v"
    using assms(2) by (auto simp: json_ok_def text_laws_def)
  then obtain b bs where b: "?t = b # bs" by (cases ?t) auto
  have "NEWLINE \<notin> set bs" using t b by simp
  then show "server_read_pdu A S Json (json_put S v @ rest) = Ok (Some (json_norm v), rest)"
    "read_first_pdu A S (json_put S v @ rest) = Ok (Some (json_norm v, Json), rest)"
    using t b assms(1) read_until_line [of NEWLINE ?t rest] read_until_line [of NEWLINE bs rest]
    by (simp_all add: server_read_pdu_def read_first_pdu_def json_put_def json_encode_pdu_def pop_newline_def
        read_u8_def server_json_norm)
qed

text \<open>A client of either kind, and the contract of the stream it writes.\<close>

definition client_put :: "'n serde \<Rightarrow> encoding \<Rightarrow> wire_value \<Rightarrow> byte list" where
  "client_put S enc v = (if enc = Json then json_put S v else bser_put enc v)"

definition carried :: "encoding \<Rightarrow> wire_value \<Rightarrow> wire_value" where
  "carried enc v = (if enc = Json then json_norm v else wire_norm v)"

definition client_ok :: "allocator \<Rightarrow> 'n serde \<Rightarrow> encoding \<Rightarrow> wire_value \<Rightarrow> bool" where
  "client_ok A S enc v \<longleftrightarrow> (if enc = Json then number_laws S \<and> json_ok S v else conn_ok A v)"

interpretation server_stream: pdu_stream "client_put S enc" "server_read_pdu A S enc" "carried enc" "client_ok A S enc"
  for S :: "'n serde" and enc A
proof unfold_locales
  show "server_read_pdu A S enc [] = Ok (None, [])"
    by (simp add: server_read_pdu_def read_u8_def read_until_def)
  show "server_read_pdu A S enc (client_put S enc v @ rest) = Ok (Some (carried enc v), rest)"
    if "client_ok A S enc v" for v rest
    using that by (auto simp: client_put_def carried_def client_ok_def server_read_json server_read_bser split: if_splits)
qed

lemma read_first_put:
  "client_ok A S enc v \<Longrightarrow> read_first_pdu A S (client_put S enc v @ rest) = Ok (Some (carried enc v, enc), rest)"
  by (auto simp: client_put_def carried_def client_ok_def server_read_json server_read_bser split: if_splits)

section \<open>Properties\<close>

text \<open>The requests answered one after the other, until the daemon shuts down.\<close>

fun answer_all ::
  "(wire_value \<Rightarrow> 's \<Rightarrow> wire_value \<times> 's) \<Rightarrow> ('s \<Rightarrow> bool) \<Rightarrow> wire_value list \<Rightarrow> 's \<Rightarrow> wire_value list \<times> 's" where
  "answer_all disp closing [] st = ([], st)"
| "answer_all disp closing (v # vs) st =
     (if closing st then ([], st)
      else (let (resp, st1) = disp v st; (resps, st2) = answer_all disp closing vs st1 in (resp # resps, st2)))"

lemma conn_loop_puts:
  "list_all (client_ok A S enc) vs \<Longrightarrow>
    conn_loop A S msg disp closing enc (concat (map (client_put S enc) vs)) st
      = (case answer_all disp closing (map (carried enc) vs) st of (resps, st') \<Rightarrow> (resps, st', Finished))"
proof (induction vs arbitrary: st)
  case Nil
  then show ?case by (subst conn_loop.simps) (simp add: server_stream.rd_end)
next
  case (Cons v vs)
  then show ?case
    by (subst conn_loop.simps) (simp add: server_stream.rd_put Let_def split: prod.splits)
qed

lemma connection_puts:
  "list_all (client_ok A S enc) (v # vs) \<Longrightarrow>
    handle_connection A S msg disp closing (concat (map (client_put S enc) (v # vs))) st =
    (let (resp, st1) = disp (carried enc v) st; (resps, st2) = answer_all disp closing (map (carried enc) vs) st1
     in (Some (resp # resps, enc), st2, Finished))"
  using read_first_put [of A S enc v "concat (map (client_put S enc) vs)"]
  by (simp add: handle_connection_def conn_loop_puts Let_def split: prod.splits)

text \<open>
  C26. A connection answers every request, in order, in the encoding of the first: whatever requests a
  client writes in JSON or in either BSER version, the daemon recognises the encoding, dispatches each
  request as the encoding carries it, queues one answer per request in the same order and closes cleanly
  when the client is done; only a shutdown ends it earlier.
\<close>

theorem connection_answers_in_order:
  assumes "list_all (client_ok A S enc) (v # vs)"
  shows "handle_connection A S msg disp closing (concat (map (client_put S enc) (v # vs))) st =
    (let (resp, st1) = disp (carried enc v) st; (resps, st2) = answer_all disp closing (map (carried enc) vs) st1
     in (Some (resp # resps, enc), st2, Finished))"
  using assms by (rule connection_puts)

lemma conn_ok_null: "conn_ok (\<lambda>_ n. n < 100) VNull"
  by (simp add: conn_ok_def pdu_ok_def sendable_def len_ok_def)

theorem connection_answers_in_order_witness:
  "handle_connection (\<lambda>_ n. n < 100) tiny_serde (\<lambda>_. []) (\<lambda>v k. (VInt k, k + 1)) (\<lambda>_. False)
      (concat (map (client_put tiny_serde BserV2) [VNull, VNull])) (0 :: int)
    = (Some ([VInt 0, VInt 1], BserV2), 2, Finished)"
  using connection_answers_in_order [of "\<lambda>_ n. n < 100" tiny_serde BserV2 VNull "[VNull]" "\<lambda>_. []"
      "\<lambda>v k. (VInt k, k + 1)" "\<lambda>_. False" "0 :: int"]
  by (simp add: client_ok_def conn_ok_null)


end
