(* ===== verification/Cli_Run.thy ===== *)
theory Cli_Run
  imports Cli_Pdu Cli_Report Server
begin

text \<open>
  The command line client (\<^verbatim>\<open>cli.rs\<close>), second half: choosing what to do, connecting to the daemon or
  starting it, the exchange of one request and the printing of what comes back. The machine the client
  runs on is the parameter \<open>host\<close>, whose state \<open>'w\<close> every operation may change (another process may act
  whenever the client sleeps); a connection \<open>'c\<close> answers the bytes written to it with bytes.
\<close>

section \<open>Connecting\<close>

datatype io_kind = ConnectionRefused | OtherIo

record ('w, 'c) host =
  ho_exists :: "path \<Rightarrow> 'w \<Rightarrow> bool"
  ho_connect :: "path \<Rightarrow> 'w \<Rightarrow> (io_kind + 'c) \<times> 'w"
  ho_remove :: "path \<Rightarrow> 'w \<Rightarrow> 'w"
  ho_current_exe :: "'w \<Rightarrow> path option"
  ho_create_dir_all :: "path \<Rightarrow> 'w \<Rightarrow> 'w"
  ho_open_log :: "path \<Rightarrow> 'w \<Rightarrow> bool \<times> 'w"
  ho_spawn :: "path \<Rightarrow> string list \<Rightarrow> 'w \<Rightarrow> bool \<times> 'w"
  ho_now_ms :: "'w \<Rightarrow> nat"
  ho_sleep_ms :: "nat \<Rightarrow> 'w \<Rightarrow> 'w"

text \<open>\<^verbatim>\<open>Path::with_extension\<close> of a path that ends in a name.\<close>

definition file_stem :: "string \<Rightarrow> string" where
  "file_stem n = (case name_extension n of None \<Rightarrow> n | Some e \<Rightarrow> take (length n - length e - 1) n)"

definition with_extension :: "path \<Rightarrow> string \<Rightarrow> path" where
  "with_extension p e =
     (case path_file_name p of None \<Rightarrow> p | Some n \<Rightarrow> butlast p @ [Normal (file_stem n @ DOT # e)])"

partial_function (option) wait_socket :: "('w, 'c) host \<Rightarrow> path \<Rightarrow> nat \<Rightarrow> 'w \<Rightarrow> (bool \<times> 'w) option" where
  "wait_socket H sock deadline w =
     (if ho_now_ms H w < deadline then
        if ho_exists H sock w then Some (True, w)
        else wait_socket H sock deadline (ho_sleep_ms H 25 w)
      else Some (False, w))"

definition spawn_daemon :: "('w, 'c) host \<Rightarrow> path \<Rightarrow> 'w \<Rightarrow> ((cli_error + unit) \<times> 'w) option" where
  "spawn_daemon H sock w =
     (case ho_current_exe H w of
        None \<Rightarrow> Some (Inl SpawnFailed, w)
      | Some exe \<Rightarrow>
          (let w1 = (case path_parent sock of None \<Rightarrow> w | Some d \<Rightarrow> ho_create_dir_all H d w);
               (opened, w2) = ho_open_log H (with_extension sock ''log'') w1
           in if \<not> opened then Some (Inl SpawnFailed, w2)
              else (let (spawned, w3) = ho_spawn H exe [''--sockname'', path_str sock, ''--foreground-daemon''] w2
                    in if \<not> spawned then Some (Inl SpawnFailed, w3)
                       else map_option (\<lambda>(found, w4). (if found then Inr () else Inl SocketNeverAppeared, w4))
                              (wait_socket H sock (ho_now_ms H w3 + 5000) w3))))"

definition spawn_and_connect :: "('w, 'c) host \<Rightarrow> path \<Rightarrow> bool \<Rightarrow> 'w \<Rightarrow> ((cli_error + 'c) \<times> 'w) option" where
  "spawn_and_connect H sock no_spawn w =
     (if no_spawn then Some (Inl NoDaemon, w)
      else Option.bind (spawn_daemon H sock w) (\<lambda>(res, w1).
        case res of
          Inl e \<Rightarrow> Some (Inl e, w1)
        | Inr _ \<Rightarrow>
            Some (case ho_connect H sock w1 of
                    (Inl _, w2) \<Rightarrow> (Inl NotAccepting, w2)
                  | (Inr c, w2) \<Rightarrow> (Inr c, w2))))"

definition connect_or_spawn :: "('w, 'c) host \<Rightarrow> path \<Rightarrow> bool \<Rightarrow> 'w \<Rightarrow> ((cli_error + 'c) \<times> 'w) option" where
  "connect_or_spawn H sock no_spawn w =
     (if ho_exists H sock w then
        (case ho_connect H sock w of
           (Inr c, w1) \<Rightarrow> Some (Inr c, w1)
         | (Inl ConnectionRefused, w1) \<Rightarrow> spawn_and_connect H sock no_spawn (ho_remove H sock w1)
         | (Inl OtherIo, w1) \<Rightarrow> Some (Inl ConnectFailed, w1))
      else spawn_and_connect H sock no_spawn w)"

section \<open>The exchange\<close>

datatype cli_encoding = CliJson | CliBser | CliBser2

definition print_response :: "'n cli_env \<Rightarrow> bool \<Rightarrow> wire_value \<Rightarrow> byte list" where
  "print_response L no_pretty v =
     (let j = value_to_serde (cl_serde L) v
      in (if no_pretty then to_text (cl_serde L) j else cl_pretty L j) @ [NEWLINE])"

definition print_encoded_response ::
  "'n cli_env \<Rightarrow> bool \<Rightarrow> cli_encoding \<Rightarrow> wire_value \<Rightarrow> (protocol_error, byte list) outcome" where
  "print_encoded_response L no_pretty enc v =
     (case enc of
        CliJson \<Rightarrow> Ok (print_response L no_pretty v)
      | CliBser \<Rightarrow> bser_write_pdu [] v BserV1
      | CliBser2 \<Rightarrow> bser_write_pdu [] v BserV2)"

definition has_error :: "wire_value \<Rightarrow> bool" where
  "has_error v = (case as_object v of None \<Rightarrow> False | Some m \<Rightarrow> im_contains ''error'' m)"

definition exit_code :: "wire_value \<Rightarrow> nat" where
  "exit_code v = (if has_error v then 1 else 0)"

text \<open>What the client has written to its standard output, and how it ended.\<close>

type_synonym cli_result = "byte list \<times> (cli_error, nat) outcome"

definition printing ::
  "(protocol_error, byte list) outcome \<Rightarrow> cli_result \<Rightarrow> cli_result" where
  "printing p k =
     (case p of
        Ok out \<Rightarrow> (out @ fst k, snd k)
      | Err e \<Rightarrow> ([], Err (EncodeFailed e))
      | Panic \<Rightarrow> ([], Panic))"

lemma json_read_pdu_length: "json_read_pdu S r = Ok (Some v, r') \<Longrightarrow> length r' < length r"
  by (auto simp: json_read_pdu_def Let_def split: if_splits prod.splits option.splits dest: read_until_length)

function drain_pdus ::
  "'n cli_env \<Rightarrow> bool \<Rightarrow> cli_encoding \<Rightarrow> nat \<Rightarrow> byte list \<Rightarrow> cli_result" where
  "drain_pdus L no_pretty enc code r =
     (case json_read_pdu (cl_serde L) r of
        Err e \<Rightarrow> ([], Err (ReadFailed e))
      | Panic \<Rightarrow> ([], Panic)
      | Ok (None, _) \<Rightarrow> ([], Ok code)
      | Ok (Some v, r') \<Rightarrow>
          printing (print_encoded_response L no_pretty enc v) (drain_pdus L no_pretty enc code r'))"
  by pat_completeness auto
termination
  by (relation "measure (\<lambda>(L, no_pretty, enc, code, r). length r)") (auto dest: json_read_pdu_length)

declare drain_pdus.simps [simp del]

definition exchange_pdu ::
  "'n cli_env \<Rightarrow> bool \<Rightarrow> bool \<Rightarrow> cli_encoding \<Rightarrow> (byte list \<Rightarrow> byte list) \<Rightarrow> wire_value \<Rightarrow> cli_result" where
  "exchange_pdu L no_pretty persistent enc reply pdu =
     (case json_read_pdu (cl_serde L) (reply (json_encode_pdu (cl_serde L) [] pdu)) of
        Err e \<Rightarrow> ([], Err (ReadFailed e))
      | Panic \<Rightarrow> ([], Panic)
      | Ok (None, _) \<Rightarrow> ([], Err ClosedEarly)
      | Ok (Some response, rest) \<Rightarrow>
          printing (print_encoded_response L no_pretty enc response)
            (if persistent then drain_pdus L no_pretty enc (exit_code response) rest
             else ([], Ok (exit_code response))))"

definition send_and_print ::
  "('w, 'c) host \<Rightarrow> 'n cli_env \<Rightarrow> ('c \<Rightarrow> byte list \<Rightarrow> byte list) \<Rightarrow> path \<Rightarrow> bool \<Rightarrow> bool \<Rightarrow> bool \<Rightarrow> cli_encoding
    \<Rightarrow> wire_value \<Rightarrow> 'w \<Rightarrow> (cli_result \<times> 'w) option" where
  "send_and_print H L reply sock no_pretty no_spawn persistent enc pdu w =
     map_option (\<lambda>(conn, w'). case conn of
         Inl e \<Rightarrow> (([], Err e), w')
       | Inr c \<Rightarrow> (exchange_pdu L no_pretty persistent enc (reply c) pdu, w'))
       (connect_or_spawn H sock no_spawn w)"

definition run_client ::
  "('w, 'c) host \<Rightarrow> 'n cli_env \<Rightarrow> ('c \<Rightarrow> byte list \<Rightarrow> byte list) \<Rightarrow> path \<Rightarrow> bool \<Rightarrow> bool \<Rightarrow> bool \<Rightarrow> cli_encoding
    \<Rightarrow> cli_command \<Rightarrow> 'w \<Rightarrow> (cli_result \<times> 'w) option" where
  "run_client H L reply sock no_pretty no_spawn persistent enc cmd w =
     (case build_pdu L cmd of
        Err e \<Rightarrow> Some (([], Err e), w)
      | Panic \<Rightarrow> Some (([], Panic), w)
      | Ok pdu \<Rightarrow> send_and_print H L reply sock no_pretty no_spawn persistent enc pdu w)"

definition run_stdin_json ::
  "('w, 'c) host \<Rightarrow> 'n cli_env \<Rightarrow> ('c \<Rightarrow> byte list \<Rightarrow> byte list) \<Rightarrow> path \<Rightarrow> bool \<Rightarrow> bool \<Rightarrow> bool \<Rightarrow> cli_encoding
    \<Rightarrow> string \<Rightarrow> 'w \<Rightarrow> (cli_result \<times> 'w) option" where
  "run_stdin_json H L reply sock no_pretty no_spawn persistent enc stdin w =
     (if \<not> utf8_valid stdin then Some (([], Err StdinNotUtf8), w)
      else if trim stdin = [] then Some (([], Err EmptyStdin), w)
      else (case parse_json L (trim stdin) ''stdin PDU'' of
              Err e \<Rightarrow> Some (([], Err e), w)
            | Panic \<Rightarrow> Some (([], Panic), w)
            | Ok pdu \<Rightarrow> send_and_print H L reply sock no_pretty no_spawn persistent enc pdu w))"

definition status_exchange ::
  "'n cli_env \<Rightarrow> nat \<Rightarrow> bool \<Rightarrow> (byte list \<Rightarrow> byte list) \<Rightarrow> cli_result" where
  "status_exchange L now_unix want_json reply =
     (case json_read_pdu (cl_serde L) (reply (json_encode_pdu (cl_serde L) [] (VArray [VString ''status'']))) of
        Err e \<Rightarrow> ([], Err (ReadFailed e))
      | Panic \<Rightarrow> ([], Panic)
      | Ok (None, _) \<Rightarrow> ([], Err ClosedEarly)
      | Ok (Some response, _) \<Rightarrow>
          (if want_json \<or> has_error response then print_response L False response
           else print_status_report now_unix (print_response L False) response,
           Ok (exit_code response)))"

definition run_status ::
  "('w, 'c) host \<Rightarrow> 'n cli_env \<Rightarrow> ('c \<Rightarrow> byte list \<Rightarrow> byte list) \<Rightarrow> path \<Rightarrow> bool \<Rightarrow> bool \<Rightarrow> nat \<Rightarrow> 'w
    \<Rightarrow> (cli_result \<times> 'w) option" where
  "run_status H L reply sock no_spawn want_json now_unix w =
     map_option (\<lambda>(conn, w'). case conn of
         Inl e \<Rightarrow> (([], Err e), w')
       | Inr c \<Rightarrow> (status_exchange L now_unix want_json (reply c), w'))
       (connect_or_spawn H sock no_spawn w)"

section \<open>Choosing what to do\<close>

record cli =
  cli_sockname :: "string option"
  cli_output_encoding :: cli_encoding
  cli_no_pretty :: bool
  cli_no_spawn :: bool
  cli_pidfile :: "string option"
  cli_json_command :: bool
  cli_persistent :: bool
  cli_command :: "cli_command option"

datatype cli_route = RouteStdin | RouteHelp | RouteDaemon | RouteCompletion string | RouteStatus bool | RouteClient cli_command

definition writes_pidfile :: "cli \<Rightarrow> string option" where
  "writes_pidfile c = (if cli_command c = Some ForegroundDaemon then cli_pidfile c else None)"

definition cli_route_of :: "cli \<Rightarrow> cli_route" where
  "cli_route_of c =
     (if cli_json_command c then RouteStdin
      else (case cli_command c of
              None \<Rightarrow> RouteHelp
            | Some ForegroundDaemon \<Rightarrow> RouteDaemon
            | Some (Completion shell) \<Rightarrow> RouteCompletion shell
            | Some (Status json) \<Rightarrow> if cli_output_encoding c = CliJson then RouteStatus json else RouteClient (Status json)
            | Some other \<Rightarrow> RouteClient other))"

section \<open>Lemmas\<close>

lemma client_route_builds: "cli_route_of c = RouteClient cmd \<Longrightarrow> build_pdu L cmd \<noteq> Panic"
  by (cases cmd)
    (auto simp: cli_route_of_def request_def parse_json_def obind_def split: if_splits option.splits cli_command.splits)

lemma wait_socket_finds:
  assumes "\<forall>k<n. \<not> ho_exists H sock ((ho_sleep_ms H 25 ^^ k) w)" and "ho_exists H sock ((ho_sleep_ms H 25 ^^ n) w)"
    and "\<forall>k\<le>n. ho_now_ms H ((ho_sleep_ms H 25 ^^ k) w) < deadline"
  shows "wait_socket H sock deadline w = Some (True, (ho_sleep_ms H 25 ^^ n) w)"
  using assms
proof (induction n arbitrary: w)
  case 0
  then show ?case by (subst wait_socket.simps) simp
next
  case (Suc n)
  let ?w = "ho_sleep_ms H 25 w"
  have now: "ho_now_ms H w < deadline" and no: "\<not> ho_exists H sock w" using Suc.prems(1,3) by fastforce+
  have "wait_socket H sock deadline ?w = Some (True, (ho_sleep_ms H 25 ^^ n) ?w)"
  proof (rule Suc.IH)
    show "\<forall>k<n. \<not> ho_exists H sock ((ho_sleep_ms H 25 ^^ k) ?w)"
      using Suc.prems(1) by (metis Suc_less_eq funpow_swap1 funpow_Suc_right comp_apply)
    show "ho_exists H sock ((ho_sleep_ms H 25 ^^ n) ?w)" using Suc.prems(2) by (simp add: funpow_swap1)
    show "\<forall>k\<le>n. ho_now_ms H ((ho_sleep_ms H 25 ^^ k) ?w) < deadline"
      using Suc.prems(3) by (metis Suc_le_mono funpow_Suc_right comp_apply)
  qed
  then show ?case using now no by (subst wait_socket.simps) (simp add: funpow_swap1)
qed

text \<open>The wait ends on every machine whose clock advances while the client sleeps.\<close>

lemma wait_socket_total:
  assumes "\<And>w. ho_now_ms H w < ho_now_ms H (ho_sleep_ms H 25 w)"
  shows "\<exists>r. wait_socket H sock deadline w = Some r"
proof (induction "deadline - ho_now_ms H w" arbitrary: w rule: less_induct)
  case less
  show ?case
  proof (cases "ho_now_ms H w < deadline \<and> \<not> ho_exists H sock w")
    case True
    then have "deadline - ho_now_ms H (ho_sleep_ms H 25 w) < deadline - ho_now_ms H w"
      using assms [of w] by (simp add: diff_less_mono2)
    from less [OF this] show ?thesis using True by (subst wait_socket.simps) simp
  qed (subst wait_socket.simps; auto)
qed

lemma spawn_and_connect_total:
  assumes "\<And>w. ho_now_ms H w < ho_now_ms H (ho_sleep_ms H 25 w)"
  shows "\<exists>r. spawn_and_connect H sock b w = Some r"
proof -
  have "\<exists>r. spawn_daemon H sock w = Some r"
    using wait_socket_total [OF assms, where sock = sock]
    by (fastforce simp: spawn_daemon_def Let_def split: option.splits prod.splits)
  then show ?thesis by (auto simp: spawn_and_connect_def split: sum.splits)
qed

lemma has_error_json_norm: "has_error (json_norm v) = has_error v"
  by (cases v) (auto simp: has_error_def im_contains_def map_of_map)

section \<open>Properties\<close>

text \<open>
  C28. Connecting never hangs and recovers from an orphan socket: on a machine whose clock advances while
  the client sleeps, \<^verbatim>\<open>connect_or_spawn\<close> always returns; and when the socket file of a dead daemon refuses the
  connection, a client allowed to spawn removes it and starts a daemon, so that it is connected as soon as
  the daemon has bound its socket within five seconds and accepts.
\<close>

theorem orphan_socket_respawned:
  assumes "\<And>w. ho_now_ms H w < ho_now_ms H (ho_sleep_ms H 25 w)"
    and "ho_exists H sock w" and "ho_connect H sock w = (Inl ConnectionRefused, w1)"
    and "path_parent sock = Some dir" and "ho_current_exe H (ho_remove H sock w1) = Some exe"
    and "ho_open_log H (with_extension sock ''log'') (ho_create_dir_all H dir (ho_remove H sock w1)) = (True, w2)"
    and "ho_spawn H exe [''--sockname'', path_str sock, ''--foreground-daemon''] w2 = (True, w3)"
    and "\<forall>k<n. \<not> ho_exists H sock ((ho_sleep_ms H 25 ^^ k) w3)" and "ho_exists H sock ((ho_sleep_ms H 25 ^^ n) w3)"
    and "\<forall>k\<le>n. ho_now_ms H ((ho_sleep_ms H 25 ^^ k) w3) < ho_now_ms H w3 + 5000"
    and "ho_connect H sock ((ho_sleep_ms H 25 ^^ n) w3) = (Inr c, w4)"
  shows "connect_or_spawn H sock False w = Some (Inr c, w4) \<and> (\<forall>b v. \<exists>r. connect_or_spawn H sock b v = Some r)"
proof -
  have "wait_socket H sock (ho_now_ms H w3 + 5000) w3 = Some (True, (ho_sleep_ms H 25 ^^ n) w3)"
    using assms(8-10) by (rule wait_socket_finds)
  then have "connect_or_spawn H sock False w = Some (Inr c, w4)"
    using assms(2-7,11) by (simp add: connect_or_spawn_def spawn_and_connect_def spawn_daemon_def Let_def)
  moreover have "\<exists>r. connect_or_spawn H sock b v = Some r" for b v
    using spawn_and_connect_total [OF assms(1), where sock = sock and b = b]
    by (auto simp: connect_or_spawn_def split: prod.splits sum.splits io_kind.splits)
  ultimately show ?thesis by blast
qed

text \<open>
  A machine for the witness: its state is the time, whether the socket file is there, and whether a daemon
  has been started; a started daemon binds its socket at the next full second.
\<close>

definition tick_host :: "(nat \<times> bool \<times> bool, unit) host" where
  "tick_host =
     \<lparr> ho_exists = (\<lambda>_ (t, s, d). s), ho_connect = (\<lambda>_ (t, s, d). (if d \<and> s then Inr () else Inl ConnectionRefused, (t, s, d))),
       ho_remove = (\<lambda>_ (t, s, d). (t, False, d)), ho_current_exe = (\<lambda>_. Some [RootDir, Normal ''ww'']),
       ho_create_dir_all = (\<lambda>_ w. w), ho_open_log = (\<lambda>_ w. (True, w)), ho_spawn = (\<lambda>_ _ (t, s, d). (True, (t, s, True))),
       ho_now_ms = fst, ho_sleep_ms = (\<lambda>n (t, s, d). (t + n, s \<or> d, d)) \<rparr>"

theorem orphan_socket_respawned_witness:
  "connect_or_spawn tick_host [RootDir, Normal ''s''] False (0, True, False) = Some (Inr (), (25, True, True)) \<and>
    (\<forall>b v. \<exists>r. connect_or_spawn tick_host [RootDir, Normal ''s''] b v = Some r)"
  by (rule orphan_socket_respawned [where n = 1 and ?w1.0 = "(0, True, False)" and ?w2.0 = "(0, False, False)" and
        ?w3.0 = "(0, False, True)" and dir = "[RootDir]" and exe = "[RootDir, Normal ''ww'']"])
    (auto simp: tick_host_def path_parent_def less_Suc_eq le_Suc_eq)

end
