(* ===== verification/Companions.thy ===== *)
theory Companions
  imports Cli_Run
begin

text \<open>
  The companion programs (\<^verbatim>\<open>bin/\<close>): \<^verbatim>\<open>watchman-wait\<close>, \<^verbatim>\<open>watchman-make\<close>, \<^verbatim>\<open>watchmanctl\<close> and \<^verbatim>\<open>watchman-diag\<close>. The first
  two read a stream of PDUs from the daemon; the stream is the list of results of the \<^verbatim>\<open>read\<close> system calls
  on the socket, so that what a buffered reader throws away is visible. Loops run over the results of the
  first calls of \<^verbatim>\<open>read_pdu\<close>, as many as given.
\<close>

section \<open>Errors and streams\<close>

datatype stream_kind = WouldBlock | TimedOut | InvalidInput | OtherKind

text \<open>\<^verbatim>\<open>ProtocolError\<close> with the I/O errors a socket has, and the errors \<^verbatim>\<open>anyhow\<close> wraps.\<close>

datatype pdu_fault = IoFault stream_kind | CodecFault protocol_error

datatype anyhow_error = AnyProtocol pdu_fault | AnyIo stream_kind | AnyMessage string

text \<open>
  \<^verbatim>\<open>anyhow::Error::downcast_ref::<io::Error>\<close> is a parameter \<open>D\<close>; it is documented to succeed exactly when the
  wrapped error is of the type asked for.
\<close>

definition downcast_laws :: "(anyhow_error \<Rightarrow> stream_kind option) \<Rightarrow> bool" where
  "downcast_laws D \<longleftrightarrow>
     (\<forall>k. D (AnyIo k) = Some k) \<and> (\<forall>f. D (AnyProtocol f) = None) \<and> (\<forall>s. D (AnyMessage s) = None)"

definition timed_out :: "(anyhow_error \<Rightarrow> stream_kind option) \<Rightarrow> anyhow_error \<Rightarrow> bool" where
  "timed_out D e = (case D e of Some k \<Rightarrow> k = WouldBlock \<or> k = TimedOut | None \<Rightarrow> False)"

text \<open>One \<^verbatim>\<open>read\<close>: at most a buffer of bytes (none at the end of the stream), or an error.\<close>

datatype read_result = Bytes "byte list" | Fails stream_kind

text \<open>
  \<^verbatim>\<open>read_until\<close> on a fresh \<^verbatim>\<open>BufReader\<close>: what the last \<^verbatim>\<open>read\<close> brought after the newline is dropped with the
  reader, and so is what was collected before an error.
\<close>

fun line_from :: "byte list \<Rightarrow> read_result list \<Rightarrow> (stream_kind + byte list) \<times> read_result list" where
  "line_from acc [] = (Inr acc, [])"
| "line_from acc (Fails k # s) = (Inl k, s)"
| "line_from acc (Bytes b # s) =
     (if b = [] then (Inr acc, s)
      else if NEWLINE \<in> set b then (Inr (acc @ fst (read_until NEWLINE b)), s)
      else line_from (acc @ b) s)"

definition tool_read_pdu :: "'n serde \<Rightarrow> read_result list \<Rightarrow> (anyhow_error + wire_value) \<times> read_result list" where
  "tool_read_pdu S s =
     (case line_from [] s of
        (Inl k, s') \<Rightarrow> (Inl (AnyProtocol (IoFault k)), s')
      | (Inr line, s') \<Rightarrow>
          (let buf = pop_newline line in
           if line = [] then (Inl (AnyMessage ''daemon closed connection''), s')
           else if buf = [] then (Inl (AnyProtocol (CodecFault Truncated)), s')
           else (case from_text S buf of
                   None \<Rightarrow> (Inl (AnyProtocol (CodecFault JsonError)), s')
                 | Some j \<Rightarrow> (Inr (from_serde S j), s'))))"

fun read_calls :: "'n serde \<Rightarrow> nat \<Rightarrow> read_result list \<Rightarrow> (anyhow_error + wire_value) list" where
  "read_calls S 0 s = []"
| "read_calls S (Suc n) s = (let (r, s') = tool_read_pdu S s in r # read_calls S n s')"

text \<open>Requests sent one after the other, each followed by one PDU read and dropped.\<close>

fun handshake :: "'n serde \<Rightarrow> wire_value list \<Rightarrow> read_result list \<Rightarrow> wire_value list \<times> (anyhow_error + read_result list)" where
  "handshake S [] s = ([], Inr s)"
| "handshake S (pdu # pdus) s =
     (case tool_read_pdu S s of
        (Inl e, _) \<Rightarrow> ([pdu], Inl e)
      | (Inr _, s') \<Rightarrow> (let (sent, r) = handshake S pdus s' in (pdu # sent, r)))"

section \<open>The subscription\<close>

definition pattern_expr :: "string \<Rightarrow> wire_value" where
  "pattern_expr pat = VArray [VString ''match'', VString pat, VString ''basename'']"

definition tool_query :: "string list \<Rightarrow> wire_value" where
  "tool_query patterns =
     VObject (im_inserts
       ([(''fields'', VArray [VString ''name'']), (''empty_on_fresh_instance'', VBool True)] @
        (case patterns of
           [] \<Rightarrow> []
         | [pat] \<Rightarrow> [(''expression'', pattern_expr pat)]
         | _ \<Rightarrow> [(''expression'', VArray (VString ''anyof'' # map pattern_expr patterns))])) [])"

definition watch_request :: "string \<Rightarrow> wire_value" where
  "watch_request p = VArray [VString ''watch-project'', VString p]"

definition subscribe_request :: "string \<Rightarrow> string \<Rightarrow> string list \<Rightarrow> wire_value" where
  "subscribe_request p name patterns = VArray [VString ''subscribe'', VString p, VString name, tool_query patterns]"

section \<open>watchman-wait\<close>

record wait_cli =
  wc_patterns :: "string list"
  wc_timeout_secs :: nat
  wc_max_events :: nat
  wc_null :: bool
  wc_paths :: "string list"

definition wait_name :: "wire_value \<Rightarrow> string option" where
  "wait_name f =
     (let name = (case f of
                    VString s \<Rightarrow> Some s
                  | VObject m \<Rightarrow> Some (case Option.bind (im_get m ''name'') as_str of Some s \<Rightarrow> s | None \<Rightarrow> [])
                  | _ \<Rightarrow> None)
      in case name of Some s \<Rightarrow> if s = [] then None else Some s | None \<Rightarrow> None)"

text \<open>The names of one PDU: those printed, how many have been printed, and whether the limit is reached.\<close>

fun emit :: "nat \<Rightarrow> nat \<Rightarrow> wire_value list \<Rightarrow> string list \<times> nat \<times> bool" where
  "emit limit emitted [] = ([], emitted, False)"
| "emit limit emitted (f # fs) =
     (case wait_name f of
        None \<Rightarrow> emit limit emitted fs
      | Some name \<Rightarrow>
          if 0 < limit \<and> limit \<le> emitted + 1 then ([name], emitted + 1, True)
          else (let (names, n, stop) = emit limit (emitted + 1) fs in (name # names, n, stop)))"

definition pdu_files :: "wire_value \<Rightarrow> wire_value list" where
  "pdu_files pdu =
     (case Option.bind (Option.bind (as_object pdu) (\<lambda>m. im_get m ''files'')) as_array of Some fs \<Rightarrow> fs | None \<Rightarrow> [])"

text \<open>\<open>clock i\<close> is the time at the start of turn \<open>i\<close>; no end means that the program is still waiting.\<close>

fun wait_loop ::
  "(anyhow_error \<Rightarrow> stream_kind option) \<Rightarrow> nat option \<Rightarrow> nat \<Rightarrow> (nat \<Rightarrow> nat) \<Rightarrow> nat \<Rightarrow> nat
    \<Rightarrow> (anyhow_error + wire_value) list \<Rightarrow> string list \<times> (anyhow_error + unit) option" where
  "wait_loop D deadline limit clock i emitted [] =
     (if (case deadline of Some d \<Rightarrow> d \<le> clock i | None \<Rightarrow> False) then ([], Some (Inr ())) else ([], None))"
| "wait_loop D deadline limit clock i emitted (r # rs) =
     (if (case deadline of Some d \<Rightarrow> d \<le> clock i | None \<Rightarrow> False) then ([], Some (Inr ()))
      else (case r of
              Inr pdu \<Rightarrow>
                (let (names, n, stop) = emit limit emitted (pdu_files pdu) in
                 if stop then (names, Some (Inr ()))
                 else (let (more, e) = wait_loop D deadline limit clock (i + 1) n rs in (names @ more, e)))
            | Inl e \<Rightarrow> if timed_out D e then ([], Some (Inr ())) else ([], Some (Inl e))))"

definition wait_output :: "wait_cli \<Rightarrow> string list \<Rightarrow> byte list" where
  "wait_output c names = concat (map (\<lambda>n. as_bytes n @ [if wc_null c then 0 else NEWLINE]) names)"

text \<open>
  \<open>canon\<close> is canonicalisation that keeps the path when it fails; the first \<open>n\<close> PDUs after the subscription
  are read.
\<close>

definition wait_run ::
  "'n serde \<Rightarrow> (anyhow_error \<Rightarrow> stream_kind option) \<Rightarrow> (string \<Rightarrow> string) \<Rightarrow> string option \<Rightarrow> nat \<Rightarrow> wait_cli
    \<Rightarrow> (nat \<Rightarrow> nat) \<Rightarrow> nat \<Rightarrow> read_result list \<Rightarrow> wire_value list \<times> byte list \<times> (anyhow_error + unit) option" where
  "wait_run S D canon cwd process_id c clock n s =
     (case (if wc_paths c = [] then map_option (\<lambda>d. [d]) cwd else Some (wc_paths c)) of
        None \<Rightarrow> ([], [], Some (Inl (AnyIo OtherKind)))
      | Some paths \<Rightarrow>
          (case handshake S (map (\<lambda>p. watch_request (from_utf8_lossy (canon p))) paths @
               [subscribe_request (from_utf8_lossy (canon (hd paths))) (''wait-'' @ nat_str process_id) (wc_patterns c)]) s of
             (sent, Inl e) \<Rightarrow> (sent, [], Some (Inl e))
           | (sent, Inr s') \<Rightarrow>
               (let deadline = (if 0 < wc_timeout_secs c then Some (clock 0 + 1000 * wc_timeout_secs c) else None);
                    (names, e) = wait_loop D deadline (wc_max_events c) clock 1 0 (read_calls S n s')
                in (sent, wait_output c names, e))))"

section \<open>watchman-make\<close>

record make_cli =
  mk_patterns :: "string list"
  mk_settle :: nat
  mk_command :: "string list"
  mk_root :: string

text \<open>
  Turn \<open>i\<close> reads the clock at \<open>event i\<close> when a PDU has arrived and at \<open>check i\<close> when it decides whether to run
  the command; the result lists the turns that ran it.
\<close>

definition settled :: "nat \<Rightarrow> nat option \<Rightarrow> nat \<Rightarrow> bool" where
  "settled settle last_event now = (case last_event of Some t \<Rightarrow> settle \<le> now - t | None \<Rightarrow> False)"

fun make_loop ::
  "(anyhow_error \<Rightarrow> stream_kind option) \<Rightarrow> nat \<Rightarrow> (nat \<Rightarrow> nat) \<Rightarrow> (nat \<Rightarrow> nat) \<Rightarrow> nat \<Rightarrow> nat option
    \<Rightarrow> (anyhow_error + wire_value) list \<Rightarrow> nat list \<times> anyhow_error option" where
  "make_loop D settle event check i last_event [] = ([], None)"
| "make_loop D settle event check i last_event (r # rs) =
     (case (case r of Inr pdu \<Rightarrow> Inr (Some (event i)) | Inl e \<Rightarrow> if timed_out D e then Inr last_event else Inl e) of
        Inl e \<Rightarrow> ([], Some e)
      | Inr last_event1 \<Rightarrow>
          if settled settle last_event1 (check i)
          then (let (fired, e) = make_loop D settle event check (i + 1) None rs in (i # fired, e))
          else make_loop D settle event check (i + 1) last_event1 rs)"

text \<open>The runs of the command, as working directory and arguments; a zero read timeout is refused.\<close>

definition make_run ::
  "'n serde \<Rightarrow> (anyhow_error \<Rightarrow> stream_kind option) \<Rightarrow> nat \<Rightarrow> make_cli \<Rightarrow> (nat \<Rightarrow> nat) \<Rightarrow> (nat \<Rightarrow> nat) \<Rightarrow> nat
    \<Rightarrow> read_result list \<Rightarrow> wire_value list \<times> (string \<times> string list) list \<times> anyhow_error option" where
  "make_run S D process_id c event check n s =
     (if mk_command c = [] then ([], [], Some (AnyMessage ''missing command''))
      else (case handshake S [watch_request (from_utf8_lossy (mk_root c)),
               subscribe_request (from_utf8_lossy (mk_root c)) (''make-'' @ nat_str process_id) (mk_patterns c)] s of
              (sent, Inl e) \<Rightarrow> (sent, [], Some e)
            | (sent, Inr s') \<Rightarrow>
                if mk_settle c = 0 then (sent, [], Some (AnyIo InvalidInput))
                else (let (fired, e) = make_loop D (mk_settle c) event check 0 None (read_calls S n s')
                      in (sent, map (\<lambda>_. (mk_root c, mk_command c)) fired, e))))"

section \<open>watchmanctl and watchman-diag\<close>

text \<open>
  A call opens a connection of its own, sends one request and reads one PDU; \<open>net\<close> gives for the bytes of a
  request what comes back, or no connection.
\<close>

definition tool_call ::
  "'n serde \<Rightarrow> (byte list \<Rightarrow> 'w \<Rightarrow> read_result list option \<times> 'w) \<Rightarrow> wire_value list \<Rightarrow> 'w \<Rightarrow> (anyhow_error + wire_value) \<times> 'w" where
  "tool_call S net argv w =
     (case net (json_encode_pdu S [] (VArray argv)) w of
        (None, w') \<Rightarrow> (Inl (AnyIo OtherKind), w')
      | (Some s, w') \<Rightarrow> (fst (tool_read_pdu S s), w'))"

datatype ctl_cmd = CtlStatus | CtlShutdown | CtlLogLevel "string option" | CtlRecrawl

definition listed_roots :: "wire_value \<Rightarrow> wire_value list option" where
  "listed_roots v = Option.bind (Option.bind (as_object v) (\<lambda>m. im_get m ''roots'')) as_array"

definition tool_print :: "'n cli_env \<Rightarrow> wire_value \<Rightarrow> byte list" where
  "tool_print L v = cl_pretty L (ctl_value_to_serde (cl_serde L) v) @ [NEWLINE]"

definition diag_output :: "'n cli_env \<Rightarrow> wire_value \<Rightarrow> byte list" where
  "diag_output L v = cl_pretty L (diag_value_to_serde (cl_serde L) v) @ [NEWLINE]"

fun recrawl_all ::
  "'n cli_env \<Rightarrow> (wire_value list \<Rightarrow> 'w \<Rightarrow> (anyhow_error + wire_value) \<times> 'w) \<Rightarrow> wire_value list \<Rightarrow> 'w \<Rightarrow> byte list \<times> 'w" where
  "recrawl_all L call [] w = ([], w)"
| "recrawl_all L call (rt # rts) w =
     (let (r, w1) = call [VString ''debug-recrawl'', rt] w; (out, w2) = recrawl_all L call rts w1
      in ((case r of Inr v \<Rightarrow> tool_print L v | Inl _ \<Rightarrow> []) @ out, w2))"

definition print_call ::
  "'n cli_env \<Rightarrow> (anyhow_error + wire_value) \<times> 'w \<Rightarrow> byte list \<times> (anyhow_error + unit) \<times> 'w" where
  "print_call L rw = (case rw of (Inl e, w) \<Rightarrow> ([], Inl e, w) | (Inr v, w) \<Rightarrow> (tool_print L v, Inr (), w))"

fun ctl_run ::
  "'n cli_env \<Rightarrow> (wire_value list \<Rightarrow> 'w \<Rightarrow> (anyhow_error + wire_value) \<times> 'w) \<Rightarrow> ctl_cmd \<Rightarrow> 'w
    \<Rightarrow> byte list \<times> (anyhow_error + unit) \<times> 'w" where
  "ctl_run L call CtlStatus w = print_call L (call [VString ''watch-list''] w)"
| "ctl_run L call CtlShutdown w = print_call L (call [VString ''shutdown-server''] w)"
| "ctl_run L call (CtlLogLevel level) w =
     print_call L (call (VString ''log-level'' # (case level of None \<Rightarrow> [] | Some l \<Rightarrow> [VString l])) w)"
| "ctl_run L call CtlRecrawl w =
     (case call [VString ''watch-list''] w of
        (Inl e, w1) \<Rightarrow> ([], Inl e, w1)
      | (Inr list, w1) \<Rightarrow>
          (let (out, w2) = recrawl_all L call (case listed_roots list of Some rs \<Rightarrow> rs | None \<Rightarrow> []) w1
           in (out, Inr (), w2)))"

text \<open>\<open>diag_optional\<close>: one command per root, left out of the report when it fails.\<close>

fun diag_optional ::
  "(wire_value list \<Rightarrow> 'w \<Rightarrow> (anyhow_error + wire_value) \<times> 'w) \<Rightarrow> string \<Rightarrow> (string \<times> string) list \<Rightarrow> 'w
    \<Rightarrow> (string \<times> wire_value) list \<times> 'w" where
  "diag_optional call p [] w = ([], w)"
| "diag_optional call p ((key, name) # rest) w =
     (let (r, w1) = call [VString name, VString p] w; (kvs, w2) = diag_optional call p rest w1
      in ((case r of Inr v \<Rightarrow> [(key, v)] | Inl _ \<Rightarrow> []) @ kvs, w2))"

fun diag_roots ::
  "(wire_value list \<Rightarrow> 'w \<Rightarrow> (anyhow_error + wire_value) \<times> 'w) \<Rightarrow> wire_value list \<Rightarrow> 'w \<Rightarrow> (string \<times> wire_value) list \<times> 'w" where
  "diag_roots call [] w = ([], w)"
| "diag_roots call (v # vs) w =
     (case as_str v of
        None \<Rightarrow> diag_roots call vs w
      | Some p \<Rightarrow>
          (let (kvs, w1) = diag_optional call p
                 [(''cursors'', ''debug-show-cursors''), (''config'', ''get-config''), (''triggers'', ''trigger-list'')] w;
               (more, w2) = diag_roots call vs w1
           in ((p, VObject (im_inserts kvs [])) # more, w2)))"

text \<open>\<open>diag_required\<close>: the commands whose failure ends the program.\<close>

fun diag_required ::
  "(wire_value list \<Rightarrow> 'w \<Rightarrow> (anyhow_error + wire_value) \<times> 'w) \<Rightarrow> (string \<times> string) list \<Rightarrow> 'w
    \<Rightarrow> (anyhow_error + (string \<times> wire_value) list) \<times> 'w" where
  "diag_required call [] w = (Inr [], w)"
| "diag_required call ((key, name) # rest) w =
     (case call [VString name] w of
        (Inl e, w1) \<Rightarrow> (Inl e, w1)
      | (Inr v, w1) \<Rightarrow>
          (case diag_required call rest w1 of
             (Inl e, w2) \<Rightarrow> (Inl e, w2)
           | (Inr kvs, w2) \<Rightarrow> (Inr ((key, v) # kvs), w2)))"

definition diag_run ::
  "'n cli_env \<Rightarrow> (wire_value list \<Rightarrow> 'w \<Rightarrow> (anyhow_error + wire_value) \<times> 'w) \<Rightarrow> 'w \<Rightarrow> byte list \<times> (anyhow_error + unit) \<times> 'w" where
  "diag_run L call w =
     (case diag_required call
         [(''sockname'', ''get-sockname''), (''version'', ''version''), (''capabilities'', ''list-capabilities''),
          (''pid'', ''get-pid''), (''roots'', ''watch-list'')] w of
        (Inl e, w1) \<Rightarrow> ([], Inl e, w1)
      | (Inr kvs, w1) \<Rightarrow>
          (case Option.bind (map_of kvs ''roots'') listed_roots of
             None \<Rightarrow> (diag_output L (VObject (im_inserts kvs [])), Inr (), w1)
           | Some vs \<Rightarrow>
               (let (per_root, w2) = diag_roots call vs w1
                in (diag_output L (VObject (im_inserts (kvs @ [(''per_root'', VObject (im_inserts per_root []))]) [])),
                    Inr (), w2))))"

section \<open>What the readers do\<close>

text \<open>A PDU that arrives in the same \<^verbatim>\<open>read\<close> as the one before it is lost with the reader's buffer.\<close>

lemma batched_pdu_lost:
  assumes "number_laws S" and "value_wf v" and "text_laws S (to_serde S v)"
  shows "tool_read_pdu S (Bytes (json_put S v @ json_put S v') # s) = (Inr (json_norm v), s)"
  using assms
  by (simp add: tool_read_pdu_def json_put_def json_encode_pdu_def text_laws_def read_until_line pop_newline_def Let_def from_to_serde)

lemma read_calls_errors:
  "Inl e \<in> set (read_calls S n s) \<Longrightarrow> (\<exists>f. e = AnyProtocol f) \<or> (\<exists>m. e = AnyMessage m)"
  by (induction n arbitrary: s)
    (auto simp: tool_read_pdu_def Let_def split: prod.splits sum.splits if_splits option.splits)

lemma never_timed_out: "downcast_laws D \<Longrightarrow> Inl e \<in> set (read_calls S n s) \<Longrightarrow> \<not> timed_out D e"
  using read_calls_errors [of e S n s] by (auto simp: timed_out_def downcast_laws_def)

lemma emit_names:
  assumes "emit limit emitted fs = (names, n, stop)"
  shows "n = emitted + length names \<and> set names \<subseteq> {x. \<exists>f \<in> set fs. wait_name f = Some x} \<and>
    (stop \<longrightarrow> 0 < limit \<and> limit \<le> n) \<and> (0 < limit \<longrightarrow> emitted < limit \<longrightarrow> n \<le> limit) \<and>
    (0 < limit \<longrightarrow> emitted < limit \<longrightarrow> \<not> stop \<longrightarrow> n < limit) \<and>
    (\<not> stop \<longrightarrow> names = List.map_filter wait_name fs)"
  using assms
proof (induction fs arbitrary: emitted names n stop)
  case (Cons f fs)
  show ?case
  proof (cases "wait_name f")
    case None
    then show ?thesis using Cons.IH [of emitted] Cons.prems by (auto simp: map_filter_simps)
  next
    case (Some name)
    obtain ns m st where r: "emit limit (emitted + 1) fs = (ns, m, st)" by (metis prod_cases3)
    show ?thesis using Cons.IH [OF r] Cons.prems Some r by (auto simp: map_filter_simps split: if_splits)
  qed
qed (auto simp: map_filter_simps)

lemma wait_loop_limit:
  assumes "wait_loop D deadline limit clock i emitted rs = (names, e)" and "0 < limit" and "emitted < limit"
  shows "emitted + length names \<le> limit"
  using assms
proof (induction rs arbitrary: i emitted names e)
  case (Cons r rs)
  show ?case
  proof (cases r)
    case (Inr pdu)
    obtain ns n stop where r: "emit limit emitted (pdu_files pdu) = (ns, n, stop)" by (metis prod_cases3)
    note facts = emit_names [OF r]
    obtain more e' where m: "wait_loop D deadline limit clock (i + 1) n rs = (more, e')" by force
    show ?thesis
      using Cons.IH [OF m] Cons.prems facts Inr r m by (cases stop) (auto split: if_splits)
  qed (use Cons.prems in \<open>auto split: if_splits\<close>)
qed (auto split: if_splits)

lemma wait_loop_end:
  assumes "wait_loop D deadline limit clock i emitted rs = (names, Some (Inr ()))"
    and "\<forall>e. Inl e \<in> set rs \<longrightarrow> \<not> timed_out D e"
  shows "(\<exists>d j. deadline = Some d \<and> d \<le> clock j) \<or> 0 < limit \<and> limit \<le> emitted + length names"
  using assms
proof (induction rs arbitrary: i emitted names)
  case (Cons r rs)
  show ?case
  proof (cases r)
    case (Inr pdu)
    obtain ns n stop where r: "emit limit emitted (pdu_files pdu) = (ns, n, stop)" by (metis prod_cases3)
    note facts = emit_names [OF r]
    obtain more e' where m: "wait_loop D deadline limit clock (i + 1) n rs = (more, e')" by force
    show ?thesis
    proof (cases "case deadline of Some d \<Rightarrow> d \<le> clock i | None \<Rightarrow> False")
      case True
      then show ?thesis by (auto split: option.splits)
    next
      case False
      show ?thesis
      proof (cases stop)
        case True
        then show ?thesis using False Cons.prems(1) facts Inr r by auto
      next
        case s: False
        then have "names = ns @ more" "e' = Some (Inr ())" using False Cons.prems(1) Inr r m by auto
        then show ?thesis using Cons.IH [of "i + 1" n more] Cons.prems(2) m facts by auto
      qed
    qed
  qed (use Cons.prems in \<open>auto split: if_splits option.splits\<close>)
qed (auto split: if_splits option.splits)

lemma make_loop_idle:
  assumes "\<forall>e. Inl e \<in> set rs \<longrightarrow> \<not> timed_out D e" and "\<forall>j. check j - event j < settle"
  shows "fst (make_loop D settle event check i last_event rs) = []"
  using assms
proof (induction rs arbitrary: i last_event)
  case (Cons r rs)
  have IH: "fst (make_loop D settle event check (i + 1) l rs) = []" for l
    using Cons.prems by (intro Cons.IH) auto
  have ns: "\<not> settled settle (Some (event i)) (check i)"
    using Cons.prems(2) by (simp add: settled_def not_le)
  show ?case
  proof (cases r)
    case (Inl e)
    then show ?thesis using Cons.prems(1) by simp
  next
    case (Inr v)
    then show ?thesis using IH ns by simp
  qed
qed simp

section \<open>Properties\<close>

text \<open>
  C37. \<^verbatim>\<open>watchman-make\<close> never runs its command: a read timeout reaches the loop as an I/O error inside a
  protocol error, which \<^verbatim>\<open>downcast_ref::<io::Error>\<close> does not see, so the first quiet period ends the program
  with an error instead of running the command; and a turn that has just received a PDU does not run it
  either, unless the settle time passes between two consecutive readings of the clock. Whatever arrives on
  the socket, in whatever pieces, no run happens.
\<close>

theorem make_never_fires:
  assumes "downcast_laws D" and "\<forall>j. check j - event j < mk_settle c"
  shows "fst (snd (make_run S D process_id c event check n s)) = []"
proof -
  have idle: "fst (make_loop D (mk_settle c) event check 0 None (read_calls S n t)) = []" for t
    by (rule make_loop_idle) (use never_timed_out [OF assms(1)] assms(2) in auto)
  show ?thesis
    by (simp add: make_run_def case_prod_beta Let_def idle split: sum.split)
qed

text \<open>A downcast that obeys its documentation.\<close>

fun typed_downcast :: "anyhow_error \<Rightarrow> stream_kind option" where
  "typed_downcast (AnyIo k) = Some k"
| "typed_downcast _ = None"

lemma typed_downcast_laws: "downcast_laws typed_downcast"
  by (simp add: downcast_laws_def)

definition null_line :: read_result where
  "null_line = Bytes (as_bytes ''null'' @ [NEWLINE])"

definition sample_make :: make_cli where
  "sample_make = \<lparr> mk_patterns = [], mk_settle = 1000, mk_command = [''make''], mk_root = ''/w'' \<rparr>"

theorem make_never_fires_witness:
  "fst (snd (make_run tiny_serde typed_downcast 7 sample_make (\<lambda>i. 2000 * i) (\<lambda>i. 2000 * i + 1) 5
    [null_line, null_line, null_line, Fails TimedOut, null_line, Fails TimedOut])) = []"
  by (rule make_never_fires [OF typed_downcast_laws]) (simp add: sample_make_def)



end
