(* ===== verification/Push_Loops.thy ===== *)
theory Push_Loops
  imports Command_Answers
begin

text \<open>
  The loops behind subscriptions and triggers (\<^verbatim>\<open>run_push_loop\<close> in \<^verbatim>\<open>commands/subscribe.rs\<close>, \<^verbatim>\<open>run_trigger\<close> and \<^verbatim>\<open>fire\<close>
  in \<^verbatim>\<open>commands/trigger.rs\<close>). One turn of a loop handles one event received from the root's broadcast
  channel; a receiver that lags skips events, so a turn may follow any earlier one.
\<close>

section \<open>Subscriptions\<close>

text \<open>What is known of the connection during a turn: closed before it, and whether the send succeeds.\<close>

record session_state =
  ss_closed :: bool
  ss_send_ok :: bool

definition since_spec :: "wire_value \<Rightarrow> string \<Rightarrow> wire_value" where
  "since_spec raw clock =
     VObject (im_insert ''since'' (VString clock) (case as_object raw of None \<Rightarrow> [] | Some m \<Rightarrow> m))"

definition push_pdu :: "string \<Rightarrow> path \<Rightarrow> query_result \<Rightarrow> wire_value" where
  "push_pdu name p res =
     obj [(''version'', VString WATCHMAN_COMPAT_VERSION), (''subscription'', VString name),
       (''clock'', VString (res_clock res)), (''is_fresh_instance'', VBool (res_is_fresh_instance res)),
       (''unilateral'', VBool True), (''root'', VString (to_string_lossy p)), (''files'', VArray (res_files res))]"

text \<open>A turn: the PDU pushed, the loop's next state (\<open>None\<close> when it ends) and the root.\<close>

definition push_turn ::
  "('g, 'x) query_env \<Rightarrow> session_state \<Rightarrow> tick_event \<Rightarrow> root \<Rightarrow> push_task
    \<Rightarrow> wire_value option \<times> push_task option \<times> root" where
  "push_turn Q ss ev r task =
     (if ss_closed ss then (None, None, r)
      else if ev_tick ev \<le> pu_last_tick task then (None, Some task, r)
      else (case parse_spec Q (since_spec (pu_spec task) (clock_encode (rclock r) (pu_last_tick task))) of
              Inl _ \<Rightarrow> (None, None, r)
            | Inr q \<Rightarrow>
                (let (res, r') = run Q r q; task' = task\<lparr>pu_last_tick := ev_tick ev\<rparr> in
                 if res_files res = [] \<and> \<not> res_is_fresh_instance res then (None, Some task', r')
                 else if ss_send_ok ss then (Some (push_pdu (pu_name task) (pu_root task) res), Some task', r')
                 else (None, None, r'))))"

text \<open>When the loop ends it removes its subscription, if the root still exists.\<close>

definition push_end :: "push_task \<Rightarrow> root \<Rightarrow> root" where
  "push_end task r = snd (remove_subscription (pu_name task) r)"

section \<open>Triggers\<close>

fun file_name_of :: "wire_value \<Rightarrow> string option" where
  "file_name_of (VString s) = Some s"
| "file_name_of (VObject m) = Option.bind (im_get m ''name'') as_str"
| "file_name_of _ = None"

definition collect_names :: "wire_value list \<Rightarrow> string list" where
  "collect_names files = List.map_filter file_name_of files"

definition trigger_turn ::
  "('g, 'x) query_env \<Rightarrow> tick_event \<Rightarrow> root \<Rightarrow> trigger_task \<Rightarrow> string list option \<times> trigger_task option \<times> root" where
  "trigger_turn Q ev r task =
     (if \<not> has_trigger (tr_name (tg_trigger task)) r then (None, None, r)
      else if ev_tick ev \<le> tg_last_tick task then (None, Some task, r)
      else (case parse_spec Q (trigger_query_spec (tg_trigger task) (clock_encode (rclock r) (tg_last_tick task))) of
              Inl _ \<Rightarrow> (None, None, r)
            | Inr q \<Rightarrow>
                (let (res, r') = run Q r q;
                     task' = task\<lparr>tg_last_tick := tick_against (clock_parse (res_clock res)) (rclock r')\<rparr>;
                     names = collect_names (res_files res)
                 in (if names = [] \<and> \<not> (jj_events r' \<and> res_is_fresh_instance res) then None else Some names,
                     Some task', r'))))"

text \<open>The process \<^verbatim>\<open>fire\<close> starts, with what it writes to its standard input (\<open>None\<close>: no pipe).\<close>

record process_call =
  pc_exe :: string
  pc_args :: "string list"
  pc_dir :: path
  pc_stdin :: "byte list option"

definition capped :: "trigger \<Rightarrow> string list \<Rightarrow> string list" where
  "capped t names = take (case tr_max_files_stdin t of None \<Rightarrow> length names | Some n \<Rightarrow> n) names"

definition fire :: "'n serde \<Rightarrow> trigger \<Rightarrow> path \<Rightarrow> string list \<Rightarrow> process_call option" where
  "fire S t dir names =
     (case tr_command t of
        [] \<Rightarrow> None
      | exe # base_args \<Rightarrow>
          Some \<lparr> pc_exe = exe, pc_args = base_args @ (if tr_append_files t then capped t names else []),
                 pc_dir = dir,
                 pc_stdin = map_option (\<lambda>kind. case kind of
                     NamePerLine \<Rightarrow> concat (map (\<lambda>n. as_bytes n @ [NEWLINE]) (capped t names))
                   | JsonName \<Rightarrow> to_text S (JArray (map (\<lambda>n. JObject [(''name'', JString n)]) (capped t names))))
                   (tr_stdin t) \<rparr>)"

section \<open>A query relative to a clock\<close>

text \<open>The query of a turn is the subscription's own query restricted to entries after the last tick.\<close>

definition unfenced :: "('g, 'x) query_spec \<Rightarrow> ('g, 'x) query_spec" where
  "unfenced q = q\<lparr>q_since := None\<rparr>"

lemma parse_since_spec:
  assumes "parse_spec Q (VObject m) = Inr q0"
  shows "parse_spec Q (VObject (im_insert ''since'' (VString c) m))
    = Inr (q0\<lparr>q_since := Some (clock_parse c),
        q_generators := (q_generators q0)\<lparr>gen_since := Some (clock_parse c)\<rparr>\<rparr>)"
  using assms
  by (auto simp: parse_spec_def sbind_Inr_iff generators_from_spec_def bool_option_def im_get_insert
      cong: option.case_cong)

lemma query_entry_fenced:
  assumes "clock_parse c = FullClock a b n k" and "same_instance (rclock r) a b n"
  shows "query_entry Q r (q0\<lparr>q_since := Some (clock_parse c), q_generators := (q_generators q0)\<lparr>gen_since := g\<rparr>\<rparr>) (p, e)
    = (if oclock e \<le> k then None else query_entry Q r (unfenced q0) (p, e))"
  using assms
  by (auto simp: query_entry_def since_tick_def resolve_named_cursor_def resolve_scm_set_def unfenced_def
      display_rel_def accept_def Let_def split: option.splits)

text \<open>The rows of the entries that changed after a tick and that the subscription's query selects.\<close>

definition rows_since :: "('g, 'x) query_env \<Rightarrow> root \<Rightarrow> ('g, 'x) query_spec \<Rightarrow> nat \<Rightarrow> wire_value set" where
  "rows_since Q r q k =
     {row. \<exists>p e. (p, e) \<in> set (entries (rtree r)) \<and> k < oclock e \<and> query_entry Q r (unfenced q) (p, e) = Some row}"

lemma run_fenced:
  fixes Q :: "('g, 'x) query_env"
  assumes c: "c = clock_encode (rclock r) k" and wf: "clock_wf (rclock r)" and k: "0 < k" "k < 2 ^ 64"
    and old: "oldest_available_tick r \<le> k"
    and q: "q = q0\<lparr>q_since := Some (clock_parse c), q_generators := (q_generators q0)\<lparr>gen_since := g\<rparr>\<rparr>"
  shows "snd (run Q r q) = r \<and> \<not> res_is_fresh_instance (fst (run Q r q)) \<and>
    res_clock (fst (run Q r q)) = clock_string r \<and> set (res_files (fst (run Q r q))) = rows_since Q r q0 k"
proof -
  have parse: "clock_parse c = FullClock (start_time (rclock r)) (pid (rclock r)) (root_number (rclock r)) k"
    using clock_parse_encode [OF wf k(2)] c by simp
  have entry: "query_entry Q r q (p, e) = (if oclock e \<le> k then None else query_entry Q r (unfenced q0) (p, e))" for p e
    unfolding q by (rule query_entry_fenced [OF parse]) simp
  have st: "since_tick r q = Some k" "query_clock_tick r q = Some k" "snd (resolve_named_cursor r q) = None"
    using parse by (simp_all add: q since_tick_def query_clock_tick_def resolve_named_cursor_def)
  have "\<not> fresh_instance r q" using st k old by (simp add: fresh_instance_def)
  moreover have "set (List.map_filter (query_entry Q r q) (entries (rtree r))) = rows_since Q r q0 k"
    by (auto simp: rows_since_def set_eq_iff set_map_filter Bex_def split_paired_Ex entry not_le)
  ultimately show ?thesis using st by (simp add: run_def Let_def clock_string_def current_string_def)
qed

text \<open>A query looks at neither registry of its root: the subscriptions and the triggers only ride along.\<close>

definition same_index :: "root \<Rightarrow> root \<Rightarrow> bool" where
  "same_index r r' \<longleftrightarrow> rpath r' = rpath r \<and> rclock r' = rclock r \<and> rtree r' = rtree r \<and> jj_events r' = jj_events r \<and>
     oldest_available_tick r' = oldest_available_tick r \<and> cursors r' = cursors r"

lemma run_same_index:
  assumes "same_index r r'"
  shows "fst (run Q r' q) = fst (run Q r q)" and "same_index (snd (run Q r q)) (snd (run Q r' q))"
proof -
  have cursor: "resolve_named_cursor r' q = resolve_named_cursor r q"
    using assms by (simp add: resolve_named_cursor_def cursor_tick_def same_index_def split: option.split clock_spec.split)
  then have st: "since_tick r' q = since_tick r q" "query_clock_tick r' q = query_clock_tick r q"
    "resolve_scm_set Q r' q = resolve_scm_set Q r q"
    using assms
    by (simp_all add: since_tick_def query_clock_tick_def resolve_scm_set_def same_index_def split: option.split clock_spec.split)
  then have "query_entry Q r' q = query_entry Q r q" "fresh_instance r' q = fresh_instance r q"
    using assms
    by (simp_all add: fun_eq_iff query_entry_def fresh_instance_def same_index_def cong: if_cong option.case_cong)
  then show "fst (run Q r' q) = fst (run Q r q)" "same_index (snd (run Q r q)) (snd (run Q r' q))"
    using assms cursor by (simp_all add: run_def Let_def same_index_def set_cursor_def split: option.split)
qed

lemma push_turn_same_index:
  assumes "same_index r r'"
  shows "fst (push_turn Q ss ev r' task) = fst (push_turn Q ss ev r task)"
    and "fst (snd (push_turn Q ss ev r' task)) = fst (snd (push_turn Q ss ev r task))"
  using assms run_same_index [OF assms, of Q]
  by (auto simp: push_turn_def same_index_def Let_def case_prod_beta split: sum.split)

lemma trigger_turn_same_index:
  assumes "same_index r r'" and "has_trigger (tr_name (tg_trigger task)) r" "has_trigger (tr_name (tg_trigger task)) r'"
  shows "fst (trigger_turn Q ev r' task) = fst (trigger_turn Q ev r task)"
    and "fst (snd (trigger_turn Q ev r' task)) = fst (snd (trigger_turn Q ev r task))"
  using assms run_same_index [OF assms(1), of Q]
  by (auto simp: trigger_turn_def same_index_def Let_def case_prod_beta split: sum.split)

section \<open>Properties\<close>

text \<open>The state of a turn: an open connection and an event after the last one delivered.\<close>

definition due :: "session_state \<Rightarrow> tick_event \<Rightarrow> root \<Rightarrow> push_task \<Rightarrow> bool" where
  "due ss ev r task \<longleftrightarrow> \<not> ss_closed ss \<and> ss_send_ok ss \<and> pu_last_tick task < ev_tick ev \<and> 0 < pu_last_tick task \<and>
     pu_last_tick task < 2 ^ 64 \<and> oldest_available_tick r \<le> pu_last_tick task"

lemma push_turn_rows:
  assumes "clock_wf (rclock r)" and d: "due ss ev r task" and raw: "pu_spec task = VObject m"
    and parse: "parse_spec Q (VObject m) = Inr q0"
  obtains res where "set (res_files res) = rows_since Q r q0 (pu_last_tick task)" "res_clock res = clock_string r"
    "\<not> res_is_fresh_instance res"
    "push_turn Q ss ev r task = (if res_files res = [] then None else Some (push_pdu (pu_name task) (pu_root task) res),
       Some (task\<lparr>pu_last_tick := ev_tick ev\<rparr>), r)"
proof -
  let ?k = "pu_last_tick task" and ?c = "clock_encode (rclock r) (pu_last_tick task)"
  define q where "q = q0\<lparr>q_since := Some (clock_parse ?c), q_generators := (q_generators q0)\<lparr>gen_since := Some (clock_parse ?c)\<rparr>\<rparr>"
  have p: "parse_spec Q (since_spec (pu_spec task) ?c) = Inr q"
    using parse_since_spec [OF parse] by (simp add: since_spec_def raw q_def)
  have run: "snd (run Q r q) = r" "\<not> res_is_fresh_instance (fst (run Q r q))"
    "res_clock (fst (run Q r q)) = clock_string r" "set (res_files (fst (run Q r q))) = rows_since Q r q0 ?k"
    using run_fenced [OF refl assms(1), where q = q and k = ?k and Q = Q] d by (auto simp: due_def q_def)
  show thesis
    by (rule that [of "fst (run Q r q)"]) (use run p d in \<open>auto simp: push_turn_def due_def Let_def split: prod.splits\<close>)
qed

text \<open>Instances for the witnesses.\<close>

definition sample_task :: push_task where
  "sample_task = \<lparr> pu_root = [RootDir, Normal ''w''], pu_number = 1, pu_last_tick = 1, pu_session = 1, pu_name = ''s'',
     pu_spec = changes_query ''0'' \<rparr>"

abbreviation open_session :: session_state where
  "open_session \<equiv> \<lparr> ss_closed = False, ss_send_ok = True \<rparr>"

abbreviation sample_event :: tick_event where
  "sample_event \<equiv> \<lparr> ev_tick = 2, ev_changed = [sample_file] \<rparr>"

lemma sample_due: "due open_session sample_event sample_events sample_task"
  by (simp add: due_def sample_task_def sample_events_facts)

lemma sample_task_spec:
  "pu_spec sample_task = VObject [(''since'', VString ''0''), (''fields'', VArray [VString ''name''])]"
  "parse_spec plain_env (VObject [(''since'', VString ''0''), (''fields'', VArray [VString ''name''])])
    = Inr (changes_spec (clock_parse ''0''))"
  using parse_changes_query [of plain_env "''0''"] by (simp_all add: sample_task_def changes_query_def)

lemma query_entry_unfenced_changes:
  "\<not> is_cookie p \<Longrightarrow> query_entry E r (unfenced (changes_spec since)) (p, e) = Some (name_row p)"
  by (simp add: query_entry_def unfenced_def changes_spec_def since_tick_def resolve_named_cursor_def
      resolve_scm_set_def display_rel_def accept_def render_row_def name_row_def)

lemma sample_touched:
  "sample_file \<in> touched_since (pu_last_tick sample_task) sample_events"
  by (simp add: touched_since_def sample_events_facts sample_task_def)

lemma sample_entry: "\<exists>e. tree_get (rtree sample_events) sample_file = Some e"
  using sample_events_facts(4) by (auto simp: live_paths_def)

text \<open>
  C15. A subscription is told exactly what changed: on an event after the last tick delivered, the push
  loop sends the rows of precisely those files that changed after that tick and that the subscription's
  query selects (nothing when there are none), moves its fence to the event's tick and goes on.
\<close>

theorem push_sends_changes_exactly:
  assumes "root_reach S C r" and "due ss ev r task" and "pu_spec task = VObject m" and "parse_spec Q (VObject m) = Inr q0"
  shows "\<exists>res. set (res_files res) = rows_since Q r q0 (pu_last_tick task) \<and> \<not> res_is_fresh_instance res \<and>
    push_turn Q ss ev r task = (if rows_since Q r q0 (pu_last_tick task) = {} then None
        else Some (push_pdu (pu_name task) (pu_root task) res), Some (task\<lparr>pu_last_tick := ev_tick ev\<rparr>), r)"
proof (rule push_turn_rows [OF reach_facts(2) [OF assms(1)] assms(2-4)])
  fix res
  assume "set (res_files res) = rows_since Q r q0 (pu_last_tick task)" "\<not> res_is_fresh_instance res"
    "push_turn Q ss ev r task = (if res_files res = [] then None else Some (push_pdu (pu_name task) (pu_root task) res),
       Some (task\<lparr>pu_last_tick := ev_tick ev\<rparr>), r)"
  moreover from this have "res_files res = [] \<longleftrightarrow> rows_since Q r q0 (pu_last_tick task) = {}" by (metis set_empty)
  ultimately show ?thesis by (intro exI [of _ res]) simp
qed

theorem push_sends_changes_exactly_witness:
  "\<exists>res. set (res_files res) = rows_since plain_env sample_events (changes_spec (clock_parse ''0'')) (pu_last_tick sample_task) \<and>
    \<not> res_is_fresh_instance res \<and>
    push_turn plain_env open_session sample_event sample_events sample_task =
      (if rows_since plain_env sample_events (changes_spec (clock_parse ''0'')) (pu_last_tick sample_task) = {} then None
       else Some (push_pdu (pu_name sample_task) (pu_root sample_task) res),
       Some (sample_task\<lparr>pu_last_tick := ev_tick sample_event\<rparr>), sample_events)"
  by (rule push_sends_changes_exactly [OF sample_events_reach [of tiny_serde no_codec] sample_due sample_task_spec])

text \<open>
  No change to an existing file is lost on a subscriber, even when the loop lags and skips events: on
  the next event it handles, every path the watcher has reported since the last tick delivered that is
  still in the index and matches the subscription's query is in the PDU it pushes.
\<close>

lemma subscriber_misses_no_existing_change:
  assumes "root_reach S C r" and "due ss ev r task" and "pu_spec task = VObject m" and "parse_spec Q (VObject m) = Inr q0"
    and "p \<in> touched_since (pu_last_tick task) r" and "tree_get (rtree r) p = Some e"
    and "query_entry Q r (unfenced q0) (p, e) = Some row"
  shows "\<exists>res. fst (push_turn Q ss ev r task) = Some (push_pdu (pu_name task) (pu_root task) res) \<and> row \<in> set (res_files res)"
proof (rule push_turn_rows [OF reach_facts(2) [OF assms(1)] assms(2-4)])
  fix res
  assume rows: "set (res_files res) = rows_since Q r q0 (pu_last_tick task)"
    and turn: "push_turn Q ss ev r task = (if res_files res = [] then None else Some (push_pdu (pu_name task) (pu_root task) res),
       Some (task\<lparr>pu_last_tick := ev_tick ev\<rparr>), r)"
  have "pu_last_tick task < oclock e"
    using root_reach_inv [OF assms(1)] assms(5,6) by (force simp: root_inv_def events_seen_def touched_since_def)
  moreover have "(p, e) \<in> set (entries (rtree r))" using assms(6) by (simp add: tree_get_def map_of_SomeD)
  ultimately have "row \<in> set (res_files res)" using assms(7) by (auto simp: rows rows_since_def)
  then show ?thesis using turn by (cases "res_files res = []") auto
qed

section \<open>The window between the first query and the loop\<close>


definition window_world :: world where
  "window_world = sample_world\<lparr>w_daemon := put_root [RootDir, Normal ''w''] sample_events sample_daemon\<rparr>"


section \<open>Trigger runs\<close>

lemma trigger_query_since:
  assumes "parse_spec Q (trigger_query_spec t c) = Inr q"
  shows "q_since q = Some (clock_parse c)"
proof -
  have s: "im_get (im_inserts [(''expression'', x), (''fields'', y), (''since'', VString c)] []) ''since'' = Some (VString c)" for x y
    by simp
  show ?thesis
    using assms unfolding parse_spec_def trigger_query_spec_def
    by (auto simp: sbind_Inr_iff s split: option.splits)
qed

text \<open>
  C30. A trigger does not run twice for the same change: a turn that queried the root moves the trigger's
  fence to the root's current tick, so all events already in the channel when it ran, however many piled
  up while the command was running, are skipped without another query or run.
\<close>

theorem trigger_skips_covered_events:
  assumes "root_reach S C r" and "has_trigger (tr_name (tg_trigger task)) r"
    and "tg_last_tick task < ev_tick ev" and "ev_tick ev < 2 ^ 64"
    and "parse_spec Q (trigger_query_spec (tg_trigger task) (clock_encode (rclock r) (tg_last_tick task))) = Inr q"
    and "ev' \<in> set (tick_tx r)"
  shows "\<exists>task'. fst (snd (trigger_turn Q ev r task)) = Some task' \<and> tg_last_tick task' = current_tick (rclock r) \<and>
    trigger_turn Q ev' r task' = (None, Some task', r)"
proof -
  let ?c = "clock_encode (rclock r) (tg_last_tick task)"
  have wf: "clock_wf (rclock r)" and le: "ev_tick ev' \<le> ticks (rclock r)"
    using root_reach_inv [OF assms(1)] assms(6) by (auto simp: root_inv_def events_ordered_def)
  have "clock_parse ?c = FullClock (start_time (rclock r)) (pid (rclock r)) (root_number (rclock r)) (tg_last_tick task)"
    using clock_parse_encode [OF wf] assms(3,4) by simp
  then have keep: "snd (run Q r q) = r"
    using trigger_query_since [OF assms(5)] by (simp add: run_def Let_def resolve_named_cursor_def)
  have "ticks (rclock r) < 2 ^ 64" using wf by (simp add: clock_wf_def)
  then have tick: "tick_against (clock_parse (res_clock (fst (run Q r q)))) (rclock r) = ticks (rclock r)"
    using tick_against_encode [OF wf] by (simp add: run_def Let_def)
  show ?thesis
    by (rule exI [of _ "task\<lparr>tg_last_tick := current_tick (rclock r)\<rparr>"])
      (use assms(2,3,5) keep tick le in \<open>auto simp: trigger_turn_def Let_def split: prod.splits\<close>)
qed

definition sample_trigger :: trigger where
  "sample_trigger = \<lparr> tr_name = ''t'', tr_command = [''make''], tr_expression = VString ''true'', tr_append_files = False,
     tr_stdin = None, tr_max_files_stdin = None \<rparr>"

definition triggered_root :: root where
  "triggered_root = fst (install_trigger tiny_serde no_codec \<lparr> mkdir_ok = True, write_ok = True, rename_ok = True \<rparr>
     sample_trigger sample_events None)"

abbreviation sample_trigger_task :: trigger_task where
  "sample_trigger_task \<equiv> \<lparr> tg_root = [RootDir, Normal ''w''], tg_number = 1, tg_last_tick = 1, tg_trigger = sample_trigger \<rparr>"

theorem trigger_skips_covered_events_witness:
  "\<exists>task'. fst (snd (trigger_turn plain_env sample_event triggered_root sample_trigger_task)) = Some task' \<and>
    tg_last_tick task' = current_tick (rclock triggered_root) \<and>
    trigger_turn plain_env sample_event triggered_root task' = (None, Some task', triggered_root)"
proof -
  let ?c = "clock_encode (rclock triggered_root) 1"
  have "root_reach tiny_serde no_codec triggered_root"
    unfolding triggered_root_def by (rule root_reach.step [OF sample_events_reach root_step.st_install])
  moreover have "has_trigger (tr_name (tg_trigger sample_trigger_task)) triggered_root"
    by (simp add: triggered_root_def install_trigger_def has_trigger_def im_contains_def store_simps sample_trigger_def Let_def)
  moreover have "\<exists>q. parse_spec plain_env (trigger_query_spec sample_trigger ?c) = Inr q"
    by (simp add: trigger_query_spec_def sample_trigger_def parse_spec_def parse_field_list_def field_parse_def
        generators_from_spec_def opt_parse_def parse_bare_def)
  moreover have "sample_event \<in> set (tick_tx triggered_root)"
    by (simp add: triggered_root_def install_trigger_def sample_events_facts Let_def)
  ultimately show ?thesis
    using trigger_skips_covered_events [of tiny_serde no_codec triggered_root sample_trigger_task sample_event plain_env _ sample_event]
    by auto
qed

section \<open>Loops that outlive their entry\<close>

lemma find_root_at:
  assumes "im_get (roots (w_daemon w)) (canonical E dir) = Some r"
  shows "find_root E msg (VString dir # args) w = (Inr (canonical E dir, touch (ce_now E) r),
    w\<lparr>w_daemon := put_root (canonical E dir) (touch (ce_now E) r) (w_daemon w)\<rparr>)"
  using assms
  by (simp add: find_root_def str_arg_def nth_arg_def hlift_def hbind_def hdaemon_def daemon_root_def put_root_def Let_def)

text \<open>
  C35. Unsubscribing does not stop the pushes: the handler drops the name from the root's registry and leaves
  the subscription's task in place, and each later turn of that task, which never looks at the registry,
  sends and continues exactly as if the client had not unsubscribed.
\<close>

theorem unsubscribe_leaves_pushes:
  assumes "im_get (roots (w_daemon w)) (canonical E dir) = Some r"
    and "unsubscribe_cmd E [VString dir, VString name] w = (ans, w')"
  shows "\<exists>r'. im_get (roots (w_daemon w')) (canonical E dir) = Some r' \<and> im_get (subscriptions r') name = None \<and>
    w_pushes w' = w_pushes w \<and>
    (\<forall>Q ss ev task. fst (push_turn Q ss ev r' task) = fst (push_turn Q ss ev r task) \<and>
      fst (snd (push_turn Q ss ev r' task)) = fst (snd (push_turn Q ss ev r task)))"
proof -
  let ?p = "canonical E dir" and ?r' = "snd (remove_subscription name (touch (ce_now E) r))"
  have "w' = w\<lparr>w_daemon := put_root ?p ?r' (put_root ?p (touch (ce_now E) r) (w_daemon w))\<rparr>"
    using assms(2) find_root_at [OF assms(1)]
    by (simp add: unsubscribe_cmd_def hbind_def str_arg_def nth_arg_def hlift_def on_root_def hreturn_def Let_def
        case_prod_beta)
  moreover have "same_index r ?r'" by (simp add: same_index_def remove_subscription_def touch_def)
  moreover have "im_get (subscriptions ?r') name = None" by (simp add: remove_subscription_def store_simps)
  ultimately show ?thesis
    by (intro exI [of _ ?r'] conjI allI push_turn_same_index) (simp_all add: put_root_def store_simps)
qed

lemma sample_dir: "canonical sample_cmd_env ''/w'' = [RootDir, Normal ''w'']"
  by (simp add: canonical_def sample_cmd_env_def path_of_def SLASH_def inner_component_def DOT_def)

theorem unsubscribe_leaves_pushes_witness:
  "\<exists>r'. im_get (roots (w_daemon (snd (unsubscribe_cmd sample_cmd_env [VString ''/w'', VString ''s''] window_world))))
      (canonical sample_cmd_env ''/w'') = Some r' \<and>
    im_get (subscriptions r') ''s'' = None \<and>
    fst (push_turn plain_env open_session sample_event r' sample_task) =
      fst (push_turn plain_env open_session sample_event sample_events sample_task) \<and>
    fst (push_turn plain_env open_session sample_event sample_events sample_task) \<noteq> None"
proof -
  obtain e where e: "tree_get (rtree sample_events) sample_file = Some e" using sample_entry by blast
  have "fst (push_turn plain_env open_session sample_event sample_events sample_task) \<noteq> None"
    using subscriber_misses_no_existing_change [OF sample_events_reach [of tiny_serde no_codec] sample_due
        sample_task_spec sample_touched e query_entry_unfenced_changes [OF sample_file_not_cookie]] by auto
  moreover have "im_get (roots (w_daemon window_world)) (canonical sample_cmd_env ''/w'') = Some sample_events"
    unfolding sample_dir by (simp add: window_world_def im_get_update)
  ultimately show ?thesis
    using unsubscribe_leaves_pushes [of window_world sample_cmd_env "''/w''" sample_events "''s''"]
    by (metis prod.collapse)
qed

text \<open>
  C36. Installing a trigger again under the same name does not replace what runs: the registry and the list of
  triggers show only the new definition, but the task of the old one is still there beside the new one, and on
  every event it does what it would have done without the new installation, with its old command.
\<close>

theorem reinstalled_trigger_keeps_old_loop:
  assumes "im_get (roots (w_daemon w)) (canonical E dir) = Some r" and "parse_trigger spec = Inr t"
    and "has_trigger (tr_name t) r" and "\<not> jj_events r"
    and "trigger_cmd E [VString dir, spec] w = (ans, w')"
  shows "\<exists>r' task. im_get (roots (w_daemon w')) (canonical E dir) = Some r' \<and> im_get (triggers r') (tr_name t) = Some t \<and>
    w_triggers w' = w_triggers w @ [task] \<and> tg_trigger task = t \<and>
    (\<forall>Q ev old. tr_name (tg_trigger old) = tr_name t \<longrightarrow> fst (trigger_turn Q ev r' old) = fst (trigger_turn Q ev r old) \<and>
      fst (snd (trigger_turn Q ev r' old)) = fst (snd (trigger_turn Q ev r old)))"
proof -
  let ?p = "canonical E dir" and ?r1 = "touch (ce_now E) r"
  let ?r' = "?r1\<lparr>triggers := im_insert (tr_name t) t (triggers ?r1)\<rparr>"
  have "promote E ?r1 = ?r1" using assms(4) by (simp add: promote_def promote_to_full_def touch_def)
  then have "im_get (roots (w_daemon w')) ?p = Some ?r' \<and> (\<exists>task. w_triggers w' = w_triggers w @ [task] \<and> tg_trigger task = t)"
    using assms(2,5) find_root_at [OF assms(1)]
    by (auto simp: trigger_cmd_def parse_trigger_spec_def hbind_def nth_arg_def hlift_def on_root_def on_root_disk_def
        no_result_def hreturn_def spawn_trigger_loop_def install_trigger_def put_root_def store_simps Let_def
        split: if_splits)
  moreover have "same_index r ?r'" by (simp add: same_index_def touch_def)
  moreover have "has_trigger (tr_name t) ?r'" "im_get (triggers ?r') (tr_name t) = Some t"
    by (simp_all add: has_trigger_def im_contains_def store_simps)
  ultimately show ?thesis using assms(3) trigger_turn_same_index [where r = r and r' = ?r'] by metis
qed

text \<open>A watch that has a trigger, and another definition under its name.\<close>

definition built_watch :: root where
  "built_watch = fst (install_trigger tiny_serde no_codec \<lparr> mkdir_ok = True, write_ok = True, rename_ok = True \<rparr>
     sample_trigger (promote sample_cmd_env sample_watch) None)"

definition built_world :: world where
  "built_world = sample_world\<lparr>w_daemon := put_root [RootDir, Normal ''w''] built_watch sample_daemon, w_triggers := [sample_trigger_task]\<rparr>"

abbreviation other_trigger :: wire_value where
  "other_trigger \<equiv> VObject [(''name'', VString ''t''), (''command'', VArray [VString ''test''])]"

theorem reinstalled_trigger_keeps_old_loop_witness:
  "\<exists>r' task. w_triggers (snd (trigger_cmd sample_cmd_env [VString ''/w'', other_trigger] built_world)) = [sample_trigger_task, task] \<and>
    tr_command (tg_trigger task) = [''test''] \<and> map_option tr_command (im_get (triggers r') ''t'') = Some [''test''] \<and>
    im_get (roots (w_daemon (snd (trigger_cmd sample_cmd_env [VString ''/w'', other_trigger] built_world))))
      (canonical sample_cmd_env ''/w'') = Some r' \<and>
    fst (trigger_turn plain_env sample_event r' sample_trigger_task) = fst (trigger_turn plain_env sample_event built_watch sample_trigger_task)"
proof -
  obtain t where t: "parse_trigger other_trigger = Inr t" "tr_name t = ''t''" "tr_command t = [''test'']"
    by (simp add: parse_trigger_def map_filter_simps)
  have "im_get (roots (w_daemon built_world)) (canonical sample_cmd_env ''/w'') = Some built_watch"
    unfolding sample_dir by (simp add: built_world_def im_get_update)
  moreover have "has_trigger (tr_name t) built_watch" "\<not> jj_events built_watch"
    by (simp_all add: t(2) built_watch_def install_trigger_def has_trigger_def im_contains_def store_simps sample_trigger_def
        promote_def promote_to_full_def Let_def split: prod.splits)
  moreover have "tr_name (tg_trigger sample_trigger_task) = tr_name t" by (simp add: t(2) sample_trigger_def)
  ultimately obtain r' task where
    "im_get (roots (w_daemon (snd (trigger_cmd sample_cmd_env [VString ''/w'', other_trigger] built_world))))
      (canonical sample_cmd_env ''/w'') = Some r'" "im_get (triggers r') (tr_name t) = Some t"
    "w_triggers (snd (trigger_cmd sample_cmd_env [VString ''/w'', other_trigger] built_world)) = w_triggers built_world @ [task]"
    "tg_trigger task = t"
    "fst (trigger_turn plain_env sample_event r' sample_trigger_task) = fst (trigger_turn plain_env sample_event built_watch sample_trigger_task)"
    using reinstalled_trigger_keeps_old_loop [OF _ t(1)] by (metis prod.collapse)
  then show ?thesis using t by (intro exI [of _ r'] exI [of _ task]) (simp add: built_world_def)
qed

end
