(* ===== verification/Runtime.thy ===== *)
theory Runtime
  imports Server Push_Loops "HOL-Library.Sublist"
begin

text \<open>
  The running daemon: sessions (\<^verbatim>\<open>daemon/session.rs\<close>), the collector's and the acceptor's tasks (\<^verbatim>\<open>gc::spawn\<close>,
  \<^verbatim>\<open>server::serve\<close>), the settling of notifications (\<^verbatim>\<open>watcher::spawn\<close>), the allocator's statistics
  (\<^verbatim>\<open>daemon/alloc.rs\<close>), and the interleaving of all tasks as a step relation over one shared state. Each step is
  one turn of a task.
\<close>

section \<open>Sessions\<close>

text \<open>\<open>se_open\<close>: the writer still holds the receiving end of the queue.\<close>

record session =
  se_id :: nat
  se_encoding :: encoding
  se_queue :: "wire_value list"
  se_open :: bool

datatype session_closed = SessionClosed

definition session_new :: "encoding \<Rightarrow> nat \<Rightarrow> session \<times> nat" where
  "session_new enc next_id =
     (\<lparr> se_id = next_id, se_encoding = enc, se_queue = [], se_open = True \<rparr>, (next_id + 1) mod 2 ^ 64)"

definition session_is_closed :: "session \<Rightarrow> bool" where
  "session_is_closed s = (\<not> se_open s)"

definition session_send :: "wire_value \<Rightarrow> session \<Rightarrow> (session_closed + unit) \<times> session" where
  "session_send v s = (if se_open s then (Inr (), s\<lparr>se_queue := se_queue s @ [v]\<rparr>) else (Inl SessionClosed, s))"

definition dispatch_and_send ::
  "('g, 'x, 'n) cmd_env \<Rightarrow> info_env \<Rightarrow> wire_value \<Rightarrow> session \<Rightarrow> world \<Rightarrow> session \<times> world" where
  "dispatch_and_send E I pdu s w =
     (let (response, w') = dispatch E I (se_id s) pdu w in (snd (session_send response s), w'))"

section \<open>Settling of notifications\<close>

definition SETTLE_MS :: nat where "SETTLE_MS = 5"
definition MAX_BATCH :: nat where "MAX_BATCH = 1024"

text \<open>One wait for a further notification: it came, the backend is gone, or the time is over.\<close>

datatype 'e received = Got 'e | BackendGone | WaitOver

text \<open>Each observation has the time at which the remaining wait was computed.\<close>

fun settle :: "nat \<Rightarrow> 'e list \<Rightarrow> (nat \<times> 'e received) list \<Rightarrow> 'e list" where
  "settle deadline events [] = events"
| "settle deadline events ((now, r) # obs) =
     (if MAX_BATCH \<le> length events then events
      else if deadline \<le> now then events
      else (case r of Got e \<Rightarrow> settle deadline (events @ [e]) obs | _ \<Rightarrow> events))"

datatype watcher_input =
    WatcherShutdown
  | WatcherBackendGone
  | WatcherEvent nat "notify_event option" "(nat \<times> notify_event option received) list"

text \<open>One turn of the watcher's task on a root that may be gone: \<open>None\<close> when the task ends.\<close>

definition watcher_turn ::
  "'i fs_env \<Rightarrow> nat \<Rightarrow> watcher_input \<Rightarrow> root option \<Rightarrow> 'i jj_scope \<Rightarrow> (root \<times> 'i jj_scope) option" where
  "watcher_turn E arena inp alive scope =
     (case inp of
        WatcherShutdown \<Rightarrow> None
      | WatcherBackendGone \<Rightarrow> None
      | WatcherEvent now first obs \<Rightarrow>
          map_option (\<lambda>r. watcher_batch E arena (settle (now + SETTLE_MS) [first] obs) r scope) alive)"

lemma settle_prefix:
  "length events \<le> MAX_BATCH \<Longrightarrow>
    length (settle deadline events obs) \<le> MAX_BATCH \<and>
    (\<exists>k. settle deadline events obs = events @ List.map_filter (\<lambda>(_, r). case r of Got e \<Rightarrow> Some e | _ \<Rightarrow> None) (take k obs))"
proof (induction deadline events obs rule: settle.induct)
  case (2 deadline events now r obs)
  show ?case
  proof (cases "MAX_BATCH \<le> length events \<or> deadline \<le> now \<or> (\<forall>e. r \<noteq> Got e)")
    case True
    then have "settle deadline events ((now, r) # obs) = events" by (cases r) auto
    then show ?thesis using 2(2) by (auto intro!: exI [of _ 0] simp: map_filter_simps)
  next
    case False
    then obtain e where r: "r = Got e" by auto
    then obtain k where "settle deadline (events @ [e]) obs = (events @ [e])
        @ List.map_filter (\<lambda>(_, r). case r of Got e \<Rightarrow> Some e | _ \<Rightarrow> None) (take k obs)"
      "length (settle deadline (events @ [e]) obs) \<le> MAX_BATCH"
      using 2(1) False by auto
    then show ?thesis using r False by (auto intro!: exI [of _ "Suc k"] simp: map_filter_simps)
  qed
qed (auto simp: map_filter_simps)

section \<open>The allocator\<close>

text \<open>\<open>mallctl\<close> gives the return code and the value read for a key.\<close>

record alloc_stats =
  as_allocated :: "nat option"
  as_active :: "nat option"
  as_mapped :: "nat option"
  as_allocator :: string

definition MALLCTL_ARENAS_ALL :: nat where "MALLCTL_ARENAS_ALL = 4096"

definition read_size :: "(string \<Rightarrow> int \<times> nat) \<Rightarrow> string \<Rightarrow> nat option" where
  "read_size mallctl key = (if fst (mallctl key) = 0 then Some (snd (mallctl key)) else None)"

definition alloc_stats_of :: "(string \<Rightarrow> int \<times> nat) \<Rightarrow> alloc_stats" where
  "alloc_stats_of mallctl =
     \<lparr> as_allocated = read_size mallctl ''stats.allocated'', as_active = read_size mallctl ''stats.active'',
       as_mapped = read_size mallctl ''stats.mapped'', as_allocator = ''jemalloc'' \<rparr>"

definition purge_key :: string where
  "purge_key = ''arena.'' @ nat_str MALLCTL_ARENAS_ALL @ ''.purge''"

definition with_allocator :: "alloc_stats \<Rightarrow> info_env \<Rightarrow> info_env" where
  "with_allocator st I =
     I\<lparr>in_allocator := as_allocator st, in_allocated := as_allocated st, in_active := as_active st, in_mapped := as_mapped st\<rparr>"

section \<open>The tasks\<close>

text \<open>The collector's first tick, right after the start, is skipped.\<close>

datatype gc_phase = GcFirst | GcRunning | GcDone

record runtime =
  rt_world :: world
  rt_gc :: gc_phase
  rt_accepting :: bool
  rt_sock_file :: bool
  rt_pending :: nat
  rt_next_session :: nat
  rt_sessions :: "session list"
  rt_started :: "process_call list"

abbreviation rt_daemon :: "runtime \<Rightarrow> daemon" where
  "rt_daemon r \<equiv> w_daemon (rt_world r)"

definition put_daemon :: "daemon \<Rightarrow> runtime \<Rightarrow> runtime" where
  "put_daemon d r = r\<lparr>rt_world := (rt_world r)\<lparr>w_daemon := d\<rparr>\<rparr>"

definition runtime_new :: "nat \<Rightarrow> path \<Rightarrow> (path \<Rightarrow> byte list option) \<Rightarrow> runtime" where
  "runtime_new now sock disk =
     \<lparr> rt_world = \<lparr> w_daemon = daemon_new now sock, w_disk = disk, w_pushes = [], w_triggers = [] \<rparr>,
       rt_gc = GcFirst, rt_accepting = True, rt_sock_file = True, rt_pending = 0, rt_next_session = 1, rt_sessions = [],
       rt_started = [] \<rparr>"

definition gc_turn :: "gc_env \<Rightarrow> runtime \<Rightarrow> runtime" where
  "gc_turn env r =
     (case rt_gc r of
        GcFirst \<Rightarrow> r\<lparr>rt_gc := GcRunning\<rparr>
      | GcRunning \<Rightarrow>
          (let d = sweep env (rt_daemon r)
           in (put_daemon d r)\<lparr>rt_gc := if shutting_down d then GcDone else GcRunning\<rparr>)
      | GcDone \<Rightarrow> r)"

definition gc_notified :: "runtime \<Rightarrow> runtime" where
  "gc_notified r = (if rt_gc r = GcRunning then r\<lparr>rt_gc := GcDone\<rparr> else r)"

definition stop_accepting :: "runtime \<Rightarrow> runtime" where
  "stop_accepting r = r\<lparr>rt_accepting := False, rt_sock_file := False\<rparr>"

definition accept_turn :: "bool \<Rightarrow> runtime \<Rightarrow> runtime" where
  "accept_turn accepted r =
     (let r1 = (if accepted then r\<lparr>rt_pending := rt_pending r + 1\<rparr> else r)
      in if shutting_down (rt_daemon r1) then stop_accepting r1 else r1)"

text \<open>A connection whose first PDU has been read gets its session.\<close>

definition open_session :: "encoding \<Rightarrow> runtime \<Rightarrow> runtime" where
  "open_session enc r =
     (let (s, next_id) = session_new enc (rt_next_session r)
      in r\<lparr>rt_pending := rt_pending r - 1, rt_next_session := next_id, rt_sessions := rt_sessions r @ [s]\<rparr>)"

definition put_session :: "session \<Rightarrow> runtime \<Rightarrow> runtime" where
  "put_session s r = r\<lparr>rt_sessions := map (\<lambda>s'. if se_id s' = se_id s then s else s') (rt_sessions r)\<rparr>"

definition request_turn ::
  "('g, 'x, 'n) cmd_env \<Rightarrow> info_env \<Rightarrow> session \<Rightarrow> wire_value \<Rightarrow> runtime \<Rightarrow> runtime" where
  "request_turn E I s pdu r =
     (let (s', w) = dispatch_and_send E I pdu s (rt_world r) in put_session s' (r\<lparr>rt_world := w\<rparr>))"

definition writer_gone :: "session \<Rightarrow> runtime \<Rightarrow> runtime" where
  "writer_gone s r = put_session (s\<lparr>se_open := False\<rparr>) r"

text \<open>A task in the list of tasks after its turn: in its next state, or gone.\<close>

fun next_task :: "'t \<Rightarrow> 't option \<Rightarrow> 't list \<Rightarrow> 't list" where
  "next_task task after [] = []"
| "next_task task after (t # ts) =
     (if t = task then (case after of None \<Rightarrow> ts | Some t' \<Rightarrow> t' # ts) else t # next_task task after ts)"

text \<open>One turn of a subscription's loop, with its session and its root.\<close>

definition push_step :: "('g, 'x) query_env \<Rightarrow> tick_event \<Rightarrow> push_task \<Rightarrow> session \<Rightarrow> root \<Rightarrow> runtime \<Rightarrow> runtime" where
  "push_step Q ev task s rr r =
     (let ss = \<lparr> ss_closed = session_is_closed s, ss_send_ok = se_open s \<rparr>;
          (pdu, task', rr') = push_turn Q ss ev rr task;
          rr'' = (case task' of None \<Rightarrow> push_end task rr' | Some _ \<Rightarrow> rr');
          w = rt_world r;
          w' = w\<lparr>w_daemon := put_root (pu_root task) rr'' (w_daemon w),
                 w_pushes := next_task task task' (w_pushes w)\<rparr>;
          s' = (case pdu of None \<Rightarrow> s | Some v \<Rightarrow> snd (session_send v s))
      in put_session s' (r\<lparr>rt_world := w'\<rparr>))"

text \<open>One turn of a trigger's loop: the process it starts, when it starts one, is noted.\<close>

definition trigger_step ::
  "'n serde \<Rightarrow> ('g, 'x) query_env \<Rightarrow> tick_event \<Rightarrow> trigger_task \<Rightarrow> root \<Rightarrow> runtime \<Rightarrow> runtime" where
  "trigger_step S Q ev task rr r =
     (let (names, task', rr') = trigger_turn Q ev rr task;
          started = Option.bind names (fire S (tg_trigger task) (tg_root task));
          w = rt_world r;
          w' = w\<lparr>w_daemon := put_root (tg_root task) rr' (w_daemon w), w_triggers := next_task task task' (w_triggers w)\<rparr>
      in r\<lparr>rt_world := w', rt_started := rt_started r @ (case started of None \<Rightarrow> [] | Some c \<Rightarrow> [c])\<rparr>)"

text \<open>The loops of a root that is gone end: its channel is closed and the weak reference no longer upgrades.\<close>

definition root_gone :: "path \<Rightarrow> nat \<Rightarrow> daemon \<Rightarrow> bool" where
  "root_gone p number d = (case im_get (roots d) p of None \<Rightarrow> True | Some rr \<Rightarrow> rnumber rr \<noteq> number)"

definition orphan_push :: "push_task \<Rightarrow> runtime \<Rightarrow> runtime" where
  "orphan_push task r = r\<lparr>rt_world := (rt_world r)\<lparr>w_pushes := next_task task None (w_pushes (rt_world r))\<rparr>\<rparr>"

definition orphan_trigger :: "trigger_task \<Rightarrow> runtime \<Rightarrow> runtime" where
  "orphan_trigger task r = r\<lparr>rt_world := (rt_world r)\<lparr>w_triggers := next_task task None (w_triggers (rt_world r))\<rparr>\<rparr>"

inductive runtime_step :: "('g, 'x, 'n) cmd_env \<Rightarrow> runtime \<Rightarrow> runtime \<Rightarrow> bool"
  for E0 :: "('g, 'x, 'n) cmd_env" where
  rs_gc: "runtime_step E0 r (gc_turn env r)"
| rs_gc_notified: "shutting_down (rt_daemon r) \<Longrightarrow> runtime_step E0 r (gc_notified r)"
| rs_accept: "rt_accepting r \<Longrightarrow> runtime_step E0 r (accept_turn accepted r)"
| rs_accept_notified: "rt_accepting r \<Longrightarrow> shutting_down (rt_daemon r) \<Longrightarrow> runtime_step E0 r (stop_accepting r)"
| rs_open: "0 < rt_pending r \<Longrightarrow> rt_next_session r < 2 ^ 64 - 1 \<Longrightarrow> runtime_step E0 r (open_session enc r)"
| rs_request: "s \<in> set (rt_sessions r) \<Longrightarrow> env_ok (E :: ('g, 'x, 'n) cmd_env) \<Longrightarrow> ce_serde E = ce_serde E0 \<Longrightarrow> ce_codec E = ce_codec E0 \<Longrightarrow>
    budget 4 (rt_daemon r) \<Longrightarrow> runtime_step E0 r (request_turn E I s pdu r)"
| rs_gone: "s \<in> set (rt_sessions r) \<Longrightarrow> runtime_step E0 r (writer_gone s r)"
| rs_push: "task \<in> set (w_pushes (rt_world r)) \<Longrightarrow> s \<in> set (rt_sessions r) \<Longrightarrow> se_id s = pu_session task \<Longrightarrow>
    im_get (roots (rt_daemon r)) (pu_root task) = Some rr \<Longrightarrow> rnumber rr = pu_number task \<Longrightarrow> ev \<in> set (tick_tx rr) \<Longrightarrow>
    runtime_step E0 r (push_step (Q :: ('g, 'x) query_env) ev task s rr r)"
| rs_trigger: "task \<in> set (w_triggers (rt_world r)) \<Longrightarrow> im_get (roots (rt_daemon r)) (tg_root task) = Some rr \<Longrightarrow>
    rnumber rr = tg_number task \<Longrightarrow> ev \<in> set (tick_tx rr) \<Longrightarrow>
    runtime_step E0 r (trigger_step (ce_serde E0) (Q :: ('g, 'x) query_env) ev task rr r)"
| rs_push_orphan: "task \<in> set (w_pushes (rt_world r)) \<Longrightarrow> root_gone (pu_root task) (pu_number task) (rt_daemon r) \<Longrightarrow>
    runtime_step E0 r (orphan_push task r)"
| rs_trigger_orphan: "task \<in> set (w_triggers (rt_world r)) \<Longrightarrow> root_gone (tg_root task) (tg_number task) (rt_daemon r) \<Longrightarrow>
    runtime_step E0 r (orphan_trigger task r)"
| rs_root: "im_get (roots (rt_daemon r)) p = Some rr \<Longrightarrow> root_step (ce_serde E0) (ce_codec E0) rr rr' \<Longrightarrow>
    runtime_step E0 r (put_daemon (put_root p rr' (rt_daemon r)) r)"

inductive runtime_reach :: "('g, 'x, 'n) cmd_env \<Rightarrow> runtime \<Rightarrow> bool"
  for E0 :: "('g, 'x, 'n) cmd_env" where
  start: "runtime_reach E0 (runtime_new now sock disk)"
| turn: "runtime_reach E0 r \<Longrightarrow> runtime_step E0 r r' \<Longrightarrow> runtime_reach E0 r'"

section \<open>The shared state changes by the daemon's own operations\<close>

lemma put_daemon_simps [simp]:
  "rt_daemon (put_daemon d r) = d" "rt_gc (put_daemon d r) = rt_gc r" "rt_accepting (put_daemon d r) = rt_accepting r"
  "rt_sock_file (put_daemon d r) = rt_sock_file r" "rt_sessions (put_daemon d r) = rt_sessions r"
  "rt_next_session (put_daemon d r) = rt_next_session r"
  by (simp_all add: put_daemon_def)

lemma put_session_simps [simp]:
  "rt_world (put_session s r) = rt_world r" "rt_gc (put_session s r) = rt_gc r" "rt_accepting (put_session s r) = rt_accepting r"
  "rt_sock_file (put_session s r) = rt_sock_file r" "rt_next_session (put_session s r) = rt_next_session r"
  "map se_id (rt_sessions (put_session s r)) = map se_id (rt_sessions r)"
  by (simp_all add: put_session_def)

lemma session_send_id [simp]: "se_id (snd (session_send v s)) = se_id s"
  by (simp add: session_send_def)

lemma root_op_step:
  "root_op S C rr rr' \<Longrightarrow> clock_room rr \<Longrightarrow> im_get (roots d) p = Some rr \<Longrightarrow> (daemon_step S C)\<^sup>*\<^sup>* d (put_root p rr' d)"
  by (auto simp: root_op_def put_root_same intro: daemon_step.ds_root)

lemma run_root: "snd (run Q rr q) = rr \<or> (\<exists>name. snd (run Q rr q) = set_cursor name (current_tick (rclock rr)) rr)"
  by (auto simp: run_def Let_def split: option.splits)

lemma push_turn_root: "snd (snd (push_turn Q ss ev rr task)) = rr \<or>
    (\<exists>name. snd (snd (push_turn Q ss ev rr task)) = set_cursor name (current_tick (rclock rr)) rr)"
  using run_root by (auto simp: push_turn_def Let_def case_prod_beta split: sum.splits)

lemma put_root_twice: "put_root p r2 (put_root p r1 d) = put_root p r2 d"
  by (simp add: put_root_def im_insert_twice)

lemma push_step_daemon:
  assumes "im_get (roots (rt_daemon r)) (pu_root task) = Some rr"
  shows "(daemon_step S C)\<^sup>*\<^sup>* (rt_daemon r) (rt_daemon (push_step Q ev task s rr r))"
proof -
  let ?d = "rt_daemon r" and ?p = "pu_root task"
  obtain pdu task' rr' where pt: "push_turn Q \<lparr> ss_closed = session_is_closed s, ss_send_ok = se_open s \<rparr> ev rr task = (pdu, task', rr')"
    by (metis prod_cases3)
  have first: "(daemon_step S C)\<^sup>*\<^sup>* ?d (put_root ?p rr' ?d)"
    using push_turn_root [of Q _ ev rr task] pt assms
    by (metis daemon_step.ds_root order_refl put_root_same r_into_rtranclp root_step.st_cursor rtranclp.rtrancl_refl snd_conv)
  have "daemon_step S C (put_root ?p rr' ?d) (put_root ?p (push_end task rr') (put_root ?p rr' ?d))"
    unfolding push_end_def by (rule daemon_step.ds_root [where r = rr']) (simp_all add: put_root_def store_simps root_step.st_unsubscribe)
  with first have "(daemon_step S C)\<^sup>*\<^sup>* ?d (put_root ?p (push_end task rr') ?d)"
    by (metis put_root_twice rtranclp.rtrancl_into_rtrancl)
  then show ?thesis using first pt by (simp add: push_step_def Let_def split: option.splits)
qed

lemma trigger_turn_root: "snd (snd (trigger_turn Q ev rr task)) = rr \<or>
    (\<exists>name. snd (snd (trigger_turn Q ev rr task)) = set_cursor name (current_tick (rclock rr)) rr)"
  using run_root by (auto simp: trigger_turn_def Let_def case_prod_beta split: sum.splits)

lemma trigger_step_daemon:
  assumes "im_get (roots (rt_daemon r)) (tg_root task) = Some rr"
  shows "(daemon_step S C)\<^sup>*\<^sup>* (rt_daemon r) (rt_daemon (trigger_step S Q ev task rr r))"
  using trigger_turn_root [of Q ev rr task]
proof (elim disjE exE)
  assume "snd (snd (trigger_turn Q ev rr task)) = rr"
  then show ?thesis using assms by (simp add: trigger_step_def case_prod_beta Let_def put_root_same)
next
  fix name
  assume "snd (snd (trigger_turn Q ev rr task)) = set_cursor name (current_tick (rclock rr)) rr"
  then show ?thesis
    using assms
    by (auto simp: trigger_step_def case_prod_beta Let_def intro!: r_into_rtranclp daemon_step.ds_root root_step.st_cursor)
qed

lemma runtime_step_daemon:
  assumes "runtime_step E0 r r'"
  shows "(daemon_step (ce_serde E0) (ce_codec E0))\<^sup>*\<^sup>* (rt_daemon r) (rt_daemon r')"
  using assms
proof cases
  case (rs_gc env)
  then show ?thesis by (auto simp: gc_turn_def Let_def split: gc_phase.splits intro: daemon_step.ds_sweep)
next
  case (rs_request s E I pdu)
  then have "begun E (rt_daemon r) 4 (rt_world r)" by (simp add: from_daemon_def)
  then have "begun E (rt_daemon r) 0 (snd (dispatch E I (se_id s) pdu (rt_world r)))"
    using dispatch_from rs_request(3) by blast
  then show ?thesis
    using rs_request by (simp add: request_turn_def dispatch_and_send_def from_daemon_def case_prod_beta Let_def)
next
  case (rs_push task s rr ev Q)
  then show ?thesis using push_step_daemon by blast
next
  case (rs_trigger task rr ev Q)
  then show ?thesis using trigger_step_daemon by blast
next
  case (rs_root p rr rr')
  then show ?thesis by (auto intro: daemon_step.ds_root)
qed (simp_all add: orphan_push_def orphan_trigger_def gc_notified_def accept_turn_def stop_accepting_def open_session_def session_new_def writer_gone_def Let_def)

section \<open>Shutting down is final\<close>

lemma sweep_path_shutting_down: "shutting_down (sweep_path env p d) = shutting_down d"
  by (simp add: sweep_path_def reap_def unregister_root_def log_reap_def put_root_def Let_def split: option.splits prod.splits)

lemma sweep_shutting_down: "shutting_down (sweep env d) = shutting_down d"
proof -
  have "shutting_down (fold (sweep_path env) ps d) = shutting_down d" for ps
    by (induction ps arbitrary: d) (simp_all add: sweep_path_shutting_down)
  then show ?thesis by (simp add: sweep_def)
qed

lemma register_shutting_down: "shutting_down (snd (register_root S C env p d)) = shutting_down d"
  unfolding register_root_def by (cases "im_get (roots d) p"; cases "reg_metadata env") (simp_all add: Let_def)

lemma lookup_shutting_down:
  "shutting_down (snd (daemon_root now p d)) = shutting_down d" "shutting_down (snd (unregister_root p d)) = shutting_down d"
  "shutting_down (put_root p r d) = shutting_down d"
  unfolding daemon_root_def unregister_root_def put_root_def by (cases "im_get (roots d) p"; simp add: Let_def)+

lemma drain_shutting_down: "shutting_down (snd (drain_loop ps d)) = shutting_down d"
  by (induction ps arbitrary: d) (simp_all add: Let_def case_prod_beta lookup_shutting_down)

lemma daemon_step_shutting_down: "daemon_step S C d d' \<Longrightarrow> shutting_down d \<Longrightarrow> shutting_down d'"
  by (erule daemon_step.cases)
    (simp_all add: register_shutting_down lookup_shutting_down drain_roots_def drain_shutting_down sweep_shutting_down
      request_shutdown_def)

text \<open>
  The running daemon over the daemon's own operations: whatever every operation keeps, every interleaving
  of the tasks keeps.
\<close>

interpretation stays_reachable: simulation_invariant
  "runtime_step E0" "daemon_step (ce_serde E0) (ce_codec E0)" rt_daemon "daemon_reach (ce_serde E0) (ce_codec E0)"
  for E0 :: "('g, 'x, 'n) cmd_env"
  by unfold_locales (blast intro: runtime_step_daemon daemon_reach.run_step)+

interpretation shutdown_final: simulation_invariant
  "runtime_step E0" "daemon_step (ce_serde E0) (ce_codec E0)" rt_daemon shutting_down
  for E0 :: "('g, 'x, 'n) cmd_env"
  by unfold_locales (blast intro: runtime_step_daemon daemon_step_shutting_down)

section \<open>Invariants\<close>

definition sessions_ok :: "runtime \<Rightarrow> bool" where
  "sessions_ok r \<longleftrightarrow> distinct (map se_id (rt_sessions r)) \<and> list_all (\<lambda>i. i < rt_next_session r) (map se_id (rt_sessions r))"

definition phases_ok :: "runtime \<Rightarrow> bool" where
  "phases_ok r \<longleftrightarrow> (rt_sock_file r \<longleftrightarrow> rt_accepting r) \<and> (rt_accepting r \<or> shutting_down (rt_daemon r)) \<and>
     (rt_gc r = GcDone \<longrightarrow> shutting_down (rt_daemon r))"

lemma request_turn_fields [simp]:
  "rt_gc (request_turn E I s pdu r) = rt_gc r" "rt_accepting (request_turn E I s pdu r) = rt_accepting r"
  "rt_sock_file (request_turn E I s pdu r) = rt_sock_file r" "rt_next_session (request_turn E I s pdu r) = rt_next_session r"
  "map se_id (rt_sessions (request_turn E I s pdu r)) = map se_id (rt_sessions r)"
  by (simp_all add: request_turn_def case_prod_beta)

lemma push_step_fields [simp]:
  "rt_gc (push_step Q ev task s rr r) = rt_gc r" "rt_accepting (push_step Q ev task s rr r) = rt_accepting r"
  "rt_sock_file (push_step Q ev task s rr r) = rt_sock_file r" "rt_next_session (push_step Q ev task s rr r) = rt_next_session r"
  "map se_id (rt_sessions (push_step Q ev task s rr r)) = map se_id (rt_sessions r)"
  by (simp_all add: push_step_def case_prod_beta Let_def)

lemma trigger_step_fields [simp]:
  "rt_gc (trigger_step S Q ev task rr r) = rt_gc r" "rt_accepting (trigger_step S Q ev task rr r) = rt_accepting r"
  "rt_sock_file (trigger_step S Q ev task rr r) = rt_sock_file r" "rt_sessions (trigger_step S Q ev task rr r) = rt_sessions r"
  "rt_next_session (trigger_step S Q ev task rr r) = rt_next_session r"
  by (simp_all add: trigger_step_def case_prod_beta Let_def)

lemmas turn_defs = orphan_push_def orphan_trigger_def gc_turn_def gc_notified_def accept_turn_def stop_accepting_def open_session_def session_new_def writer_gone_def Let_def

lemma sessions_ok_step:
  assumes "runtime_step E0 r r'" and "sessions_ok r"
  shows "sessions_ok r'"
  using assms
proof cases
  case (rs_open enc)
  moreover have "(rt_next_session r + 1) mod 2 ^ 64 = rt_next_session r + 1" using rs_open(3) by simp
  ultimately show ?thesis using assms(2) by (fastforce simp: sessions_ok_def turn_defs list_all_iff)
qed (simp_all add: sessions_ok_def turn_defs split: gc_phase.splits)

lemma phases_ok_step:
  assumes "runtime_step E0 r r'" and "phases_ok r"
  shows "phases_ok r'"
proof -
  have mono: "shutting_down (rt_daemon r) \<Longrightarrow> shutting_down (rt_daemon r')"
    by (rule shutdown_final.step_keeps [OF assms(1)])
  from assms(1) show ?thesis
  proof cases
    case (rs_gc env)
    then show ?thesis using mono assms(2) by (auto simp: phases_ok_def turn_defs split: gc_phase.splits if_splits)
  qed (use mono assms(2) in \<open>auto simp: phases_ok_def turn_defs split: if_splits\<close>)
qed

lemma runtime_inv:
  assumes "runtime_reach E0 r"
  shows "daemon_reach (ce_serde E0) (ce_codec E0) (rt_daemon r) \<and> sessions_ok r \<and> phases_ok r"
  using assms
proof induction
  case (start now sock disk)
  show ?case by (simp add: runtime_new_def daemon_reach.boot sessions_ok_def phases_ok_def)
next
  case (turn r r')
  then show ?case
    using stays_reachable.step_keeps sessions_ok_step phases_ok_step by blast
qed

section \<open>Queues\<close>

definition queue_of :: "nat \<Rightarrow> runtime \<Rightarrow> wire_value list" where
  "queue_of i r = (case List.find (\<lambda>s. se_id s = i) (rt_sessions r) of None \<Rightarrow> [] | Some s \<Rightarrow> se_queue s)"

lemma find_session: "distinct (map se_id ss) \<Longrightarrow> s \<in> set ss \<Longrightarrow> List.find (\<lambda>s'. se_id s' = se_id s) ss = Some s"
  by (induction ss) force+

lemma find_put_same:
  "se_id s \<in> se_id ` set ss \<Longrightarrow>
    List.find (\<lambda>s'. se_id s' = se_id s) (map (\<lambda>s'. if se_id s' = se_id s then s else s') ss) = Some s"
  by (induction ss) (auto split: if_splits)

lemma find_put_other:
  "i \<noteq> se_id s \<Longrightarrow>
    List.find (\<lambda>s'. se_id s' = i) (map (\<lambda>s'. if se_id s' = se_id s then s else s') ss) = List.find (\<lambda>s'. se_id s' = i) ss"
  by (induction ss) auto

lemma queue_put_session:
  assumes "sessions_ok r" and "s \<in> set (rt_sessions r)" and "se_id s' = se_id s" and "prefix (se_queue s) (se_queue s')"
    and "rt_sessions r' = rt_sessions r"
  shows "prefix (queue_of i r) (queue_of i (put_session s' r'))"
proof (cases "i = se_id s'")
  case True
  have "distinct (map se_id (rt_sessions r))" using assms(1) by (simp add: sessions_ok_def)
  then have "List.find (\<lambda>x. se_id x = se_id s) (rt_sessions r) = Some s" using assms(2) by (rule find_session)
  moreover have "se_id s' \<in> se_id ` set (rt_sessions r)" using assms(2,3) by auto
  ultimately show ?thesis
    using True assms(3-5) find_put_same [of s' "rt_sessions r"] by (simp add: queue_of_def put_session_def)
next
  case False
  then show ?thesis using assms(5) by (simp add: queue_of_def put_session_def find_put_other)
qed

lemma session_send_queue: "prefix (se_queue s) (se_queue (snd (session_send v s)))"
  by (simp add: session_send_def)

lemma find_append: "List.find P (xs @ ys) = (case List.find P xs of None \<Rightarrow> List.find P ys | Some x \<Rightarrow> Some x)"
  by (induction xs) auto

lemma queue_grows:
  assumes "runtime_step E0 r r'" and "sessions_ok r"
  shows "prefix (queue_of i r) (queue_of i r')"
  using assms(1)
proof cases
  case (rs_open enc)
  then show ?thesis by (simp add: queue_of_def turn_defs find_append split: option.splits)
next
  case (rs_request s E I pdu)
  then show ?thesis
    using queue_put_session [OF assms(2) rs_request(2)]
    by (simp add: request_turn_def dispatch_and_send_def case_prod_beta session_send_queue)
next
  case (rs_gone s)
  then show ?thesis using queue_put_session [OF assms(2) rs_gone(2)] by (simp add: writer_gone_def)
next
  case (rs_push task s rr ev Q)
  then show ?thesis
    using queue_put_session [OF assms(2) rs_push(3)]
    by (simp add: push_step_def case_prod_beta Let_def session_send_queue split: option.split)
qed (simp_all add: queue_of_def turn_defs split: gc_phase.splits)

lemma queues_grow:
  "(runtime_step E0)\<^sup>*\<^sup>* r r' \<Longrightarrow> runtime_reach E0 r \<Longrightarrow> runtime_reach E0 r' \<and> prefix (queue_of i r) (queue_of i r')"
proof (induction rule: rtranclp_induct)
  case (step r1 r2)
  then show ?case
    using queue_grows [of E0 r1 r2 i] runtime_inv [of E0 r1] by (blast intro: runtime_reach.turn prefix_order.trans)
qed simp

lemma writer_loop_json: "writer_loop S Json vs = concat (map (json_put S) vs)"
  by (induction vs) (simp_all add: server_write_value_def json_put_def)

section \<open>Instances for the witnesses\<close>

text \<open>A JSON library that knows one more document: the answer to a request that is not an array.\<close>

definition refusal :: wire_value where
  "refusal = VObject [(''version'', VString WATCHMAN_COMPAT_VERSION), (''error'', VString ''bad args: PDU must be an array'')]"

definition refusal_text :: "byte list" where
  "refusal_text = as_bytes (map (\<lambda>c. if c = CHR ''`'' then CHR 0x22 else c)
     (''{`version`:`'' @ WATCHMAN_COMPAT_VERSION @ ''`,`error`:`bad args: PDU must be an array`}''))"

definition refusal_serde :: "(int + f64) serde" where
  "refusal_serde = tiny_serde\<lparr>
     to_text := (\<lambda>j. if j = to_serde tiny_serde refusal then refusal_text else tiny_text j),
     from_text := (\<lambda>b. if b = refusal_text then Some (to_serde tiny_serde refusal) else tiny_parse b)\<rparr>"

definition refusal_cmd_env :: "(string, string, int + f64) cmd_env" where
  "refusal_cmd_env = sample_cmd_env\<lparr>ce_serde := refusal_serde\<rparr>"

lemma refusal_serde_same: "to_serde refusal_serde v = to_serde tiny_serde v"
proof (induction v rule: wire_value_induct)
  case (Object m)
  then have "map (\<lambda>(k, v). (k, to_serde refusal_serde v)) m = map (\<lambda>(k, v). (k, to_serde tiny_serde v)) m" by auto
  then show ?case by (simp only: to_serde.simps)
next
  case (Template ks rows)
  then have "map (to_serde refusal_serde) r = map (to_serde tiny_serde) r" if "r \<in> set rows" for r using that by simp
  then show ?case by (simp del: map_eq_conv cong: map_cong)
qed (simp_all add: refusal_serde_def)

lemma refusal_numbers: "number_laws refusal_serde"
  using tiny_number_laws by (simp add: number_laws_def refusal_serde_def)

lemma refusal_laws:
  "json_ok refusal_serde VNull" "text_laws refusal_serde (to_serde refusal_serde refusal)" "value_wf refusal"
proof -
  have "refusal_text \<noteq> []" "as_bytes ''null'' \<noteq> refusal_text" "as_bytes ''null'' \<noteq> []" "hd (as_bytes ''null'') \<noteq> 0"
    "NEWLINE \<notin> set (as_bytes ''null'')" "as_bytes ''null'' \<noteq> as_bytes ''false''" "as_bytes ''null'' \<noteq> as_bytes ''true''"
    "NEWLINE \<notin> set refusal_text"
    by code_simp+
  then show "json_ok refusal_serde VNull" "text_laws refusal_serde (to_serde refusal_serde refusal)"
    by (auto simp: json_ok_def text_laws_def refusal_serde_same) (auto simp: refusal_serde_def refusal_def tiny_parse_def)
  show "value_wf refusal" by (simp add: refusal_def im_wf_def WATCHMAN_COMPAT_VERSION_def)
qed

lemma refused: "dispatch refusal_cmd_env sample_info_env session VNull w = (refusal, w)"
  by (simp add: dispatch_def dispatch_inner_def hbind_def hlift_def ok_or_def error_value_def obj_def refusal_def im_contains_def
      im_insert_front_def)

section \<open>Properties\<close>

text \<open>
  C12. The tasks of the daemon keep its shared state consistent: however the turns of the collector, the
  acceptor, the connections, the subscriptions, the triggers and the watchers interleave, the state of the daemon is one
  its own operations reach (so every invariant of watches holds), no two sessions have the same number, the
  socket file exists exactly while connections are accepted, and neither the acceptor nor the collector ends
  before a shutdown has been requested.
\<close>

theorem runtime_invariant:
  assumes "runtime_reach E0 r"
  shows "daemon_reach (ce_serde E0) (ce_codec E0) (rt_daemon r) \<and> distinct (map se_id (rt_sessions r)) \<and>
    (rt_sock_file r \<longleftrightarrow> rt_accepting r) \<and> (rt_accepting r \<and> rt_gc r \<noteq> GcDone \<or> shutting_down (rt_daemon r))"
  using runtime_inv [OF assms] by (auto simp: sessions_ok_def phases_ok_def)

definition sample_runtime :: runtime where
  "sample_runtime = open_session Json (accept_turn True (gc_turn (ce_gc sample_cmd_env) (runtime_new 1700000000 [RootDir, Normal ''s''] (\<lambda>_. None))))"

lemma sample_runtime_reach: "runtime_reach E0 sample_runtime"
proof -
  let ?r0 = "runtime_new 1700000000 [RootDir, Normal ''s''] (\<lambda>_. None)"
  let ?r1 = "gc_turn (ce_gc sample_cmd_env) ?r0"
  let ?r2 = "accept_turn True ?r1"
  have "runtime_reach E0 ?r1" by (rule runtime_reach.turn [OF runtime_reach.start runtime_step.rs_gc])
  moreover have "runtime_step E0 ?r1 ?r2"
    by (rule runtime_step.rs_accept) (simp add: runtime_new_def turn_defs)
  moreover have "runtime_step E0 ?r2 sample_runtime"
    unfolding sample_runtime_def by (rule runtime_step.rs_open) (simp_all add: runtime_new_def daemon_new_def turn_defs)
  ultimately show ?thesis by (blast intro: runtime_reach.turn)
qed

theorem runtime_invariant_witness:
  "distinct (map se_id (rt_sessions sample_runtime)) \<and> map se_id (rt_sessions sample_runtime) = [1]"
  using runtime_invariant [OF sample_runtime_reach [of sample_cmd_env]]
  by (simp add: sample_runtime_def runtime_new_def daemon_new_def turn_defs)

text \<open>
  C13. A client reads what was queued for it, whole and in order: whatever turns of other tasks come between,
  a session's queue only grows at its end, answers and pushed changes alike, and the bytes the writer has
  produced for a JSON session are read back as exactly the queued PDUs, each as JSON carries it, none split
  or mixed with another.
\<close>

theorem session_stream_in_order:
  assumes "runtime_reach E0 r" and "(runtime_step E0)\<^sup>*\<^sup>* r r'" and "number_laws S"
    and "list_all (\<lambda>v. value_wf v \<and> text_laws S (to_serde S v)) (queue_of i r')" and "length (queue_of i r') < fuel"
  shows "prefix (queue_of i r) (queue_of i r') \<and>
    read_all (json_read_pdu S) fuel (writer_loop S Json (queue_of i r')) = Some (Ok (map json_norm (queue_of i r')))"
  using queues_grow [OF assms(2,1)] pdu_stream.read_all_puts [OF json_pdu_stream [OF assms(3)] assms(4,5)]
  by (simp add: writer_loop_json)

definition sample_session :: session where
  "sample_session = \<lparr> se_id = 1, se_encoding = Json, se_queue = [], se_open = True \<rparr>"

definition answered_runtime :: runtime where
  "answered_runtime = request_turn refusal_cmd_env sample_info_env sample_session VNull sample_runtime"

lemma sample_runtime_sessions: "rt_sessions sample_runtime = [sample_session]"
  by (simp add: sample_session_def sample_runtime_def runtime_new_def daemon_new_def turn_defs)

lemma answered_runtime_step: "runtime_step refusal_cmd_env sample_runtime answered_runtime"
  unfolding answered_runtime_def
proof (rule runtime_step.rs_request)
  show "sample_session \<in> set (rt_sessions sample_runtime)" by (simp add: sample_runtime_sessions)
  show "env_ok refusal_cmd_env" using sample_env_ok by (simp add: env_ok_def refusal_cmd_env_def)
  show "budget 4 (rt_daemon sample_runtime)"
    by (simp add: budget_def sample_runtime_def runtime_new_def daemon_new_def turn_defs)
qed simp_all

lemma answered_queue: "queue_of 1 answered_runtime = [refusal]"
  by (simp add: answered_runtime_def request_turn_def dispatch_and_send_def refused sample_session_def session_send_def queue_of_def
      put_session_def sample_runtime_sessions)

theorem session_stream_in_order_witness:
  "read_all (json_read_pdu refusal_serde) 2 (writer_loop refusal_serde Json (queue_of 1 answered_runtime))
    = Some (Ok [json_norm refusal])"
  using session_stream_in_order [OF sample_runtime_reach r_into_rtranclp [where r = "runtime_step refusal_cmd_env", OF answered_runtime_step] refusal_numbers, of 1 2]
  by (simp add: answered_queue refusal_laws del: One_nat_def)

end
