(* ===== verification/Fences.thy ===== *)
theory Fences
  imports Runtime
begin

text \<open>
  The fences of the loops in the running daemon. A subscription and a trigger each note the tick up to which
  they have seen their root; no task of the daemon ever lets such a fence run ahead of its root, so the event
  of every later batch is due, and with that a change reaches its subscriber's connection.
\<close>

section \<open>What the operations of a root keep\<close>

text \<open>Time goes forward, a root on the full index stays there with its horizon, and events stay in the channel.\<close>

definition later :: "root \<Rightarrow> root \<Rightarrow> bool" where
  "later r r' \<longleftrightarrow> ticks (rclock r) \<le> ticks (rclock r') \<and>
     (\<not> jj_events r \<longrightarrow> \<not> jj_events r' \<and> oldest_available_tick r' = oldest_available_tick r) \<and>
     prefix (tick_tx r) (tick_tx r')"

lemma later_trans: "later r r' \<Longrightarrow> later r' r'' \<Longrightarrow> later r r''"
  by (auto simp: later_def intro: prefix_order.trans)

lemma later_step:
  assumes "root_step S C r r'"
  shows "later r r'"
  using assms
proof cases
  case (st_changes arena cs)
  then show ?thesis by (simp add: apply_changes_eq batch_base_def later_def Let_def split: prod.splits)
qed (simp_all add: later_def seed_eq bump_clock_room promote_to_full_def invalidate_jj_events_def prune_tombstones_def set_cursor_def
    add_subscription_def remove_subscription_def install_trigger_def remove_trigger_def load_persisted_triggers_def
    touch_def mark_missing_def mark_present_def send_tick_def Let_def split: option.splits prod.splits)

lemma later_steps: "(root_step S C)\<^sup>*\<^sup>* r r' \<Longrightarrow> later r r'"
  by (induction rule: rtranclp_induct) (simp add: later_def, blast intro: later_step later_trans)

lemma reach_ticks_pos: "root_reach S C r \<Longrightarrow> 0 < ticks (rclock r)"
proof (induction rule: root_reach.induct)
  case (step r r')
  then show ?case using later_step [OF step(2)] by (simp add: later_def)
qed (simp add: root_new_def clock_new_def)

section \<open>Fences\<close>

text \<open>
  A fence of the root numbered \<open>number\<close> at \<open>p\<close>: the number has been given out, and while that root is
  registered, its state satisfies \<open>ok\<close>.
\<close>

definition fenced :: "(root \<Rightarrow> bool) \<Rightarrow> path \<Rightarrow> nat \<Rightarrow> daemon \<Rightarrow> bool" where
  "fenced ok p number d \<longleftrightarrow> number \<le> root_counter d \<and>
     (\<forall>rr. im_get (roots d) p = Some rr \<longrightarrow> rnumber rr = number \<longrightarrow> ok rr)"

definition push_ok :: "nat \<Rightarrow> root \<Rightarrow> bool" where
  "push_ok tick rr \<longleftrightarrow> 0 < tick \<and> tick \<le> ticks (rclock rr) \<and> \<not> jj_events rr \<and> oldest_available_tick rr \<le> tick"

definition trigger_ok :: "nat \<Rightarrow> root \<Rightarrow> bool" where
  "trigger_ok tick rr \<longleftrightarrow> tick \<le> ticks (rclock rr)"

abbreviation push_fenced :: "daemon \<Rightarrow> push_task \<Rightarrow> bool" where
  "push_fenced d t \<equiv> fenced (push_ok (pu_last_tick t)) (pu_root t) (pu_number t) d"

abbreviation trigger_fenced :: "daemon \<Rightarrow> trigger_task \<Rightarrow> bool" where
  "trigger_fenced d t \<equiv> fenced (trigger_ok (tg_last_tick t)) (tg_root t) (tg_number t) d"

definition tasks_ok :: "world \<Rightarrow> bool" where
  "tasks_ok w \<longleftrightarrow> list_all (push_fenced (w_daemon w)) (w_pushes w) \<and> list_all (trigger_fenced (w_daemon w)) (w_triggers w)"

lemma later_ok: "later rr rr' \<Longrightarrow> push_ok k rr \<Longrightarrow> push_ok k rr'" "later rr rr' \<Longrightarrow> trigger_ok k rr \<Longrightarrow> trigger_ok k rr'"
  by (auto simp: later_def push_ok_def trigger_ok_def)

lemma fenced_step:
  assumes "daemon_step S C d d'" and "fenced ok p number d" and mono: "\<And>rr rr'. later rr rr' \<Longrightarrow> ok rr \<Longrightarrow> ok rr'"
  shows "fenced ok p number d'"
  using assms(1)
proof (cases rule: daemon_step_cases)
  case kept
  have "ok rr'" if get: "im_get (roots d') p = Some rr'" "rnumber rr' = number" for rr'
  proof -
    obtain rr where rr: "im_get (roots d) p = Some rr" "(root_step S C)\<^sup>*\<^sup>* rr rr'" using kept get unfolding kept_def by blast
    then have "rnumber rr = number" using same_watch_steps [OF rr(2)] get(2) by (simp add: same_watch_def)
    then show ?thesis using assms(2) rr(1) mono [OF later_steps [OF rr(2)]] by (simp add: fenced_def)
  qed
  then show ?thesis using assms(2) kept by (simp add: fenced_def kept_def)
next
  case (refused k)
  then show ?thesis using assms(2) by (simp add: fenced_def)
next
  case (new q rr)
  then show ?thesis using assms(2) by (auto simp: fenced_def put_root_def store_simps)
qed

lemma fenced_steps:
  "(daemon_step S C)\<^sup>*\<^sup>* d d' \<Longrightarrow> fenced ok p number d \<Longrightarrow> (\<And>rr rr'. later rr rr' \<Longrightarrow> ok rr \<Longrightarrow> ok rr') \<Longrightarrow> fenced ok p number d'"
  by (induction rule: rtranclp_induct) (auto intro: fenced_step)

text \<open>The daemon moves on and the tasks that are new have their fences right.\<close>

lemma tasks_ok_turn:
  assumes "(daemon_step S C)\<^sup>*\<^sup>* (w_daemon w) (w_daemon w')" and "tasks_ok w"
    and "\<And>t. t \<in> set (w_pushes w') \<Longrightarrow> t \<in> set (w_pushes w) \<or> push_fenced (w_daemon w) t"
    and "\<And>t. t \<in> set (w_triggers w') \<Longrightarrow> t \<in> set (w_triggers w) \<or> trigger_fenced (w_daemon w) t"
  shows "tasks_ok w'"
  unfolding tasks_ok_def list_all_iff
proof (intro conjI ballI)
  show "push_fenced (w_daemon w') t" if "t \<in> set (w_pushes w')" for t
    by (rule fenced_steps [OF assms(1) _ later_ok(1)]) (use assms(2) assms(3) [OF that] in \<open>auto simp: tasks_ok_def list_all_iff\<close>)
  show "trigger_fenced (w_daemon w') t" if "t \<in> set (w_triggers w')" for t
    by (rule fenced_steps [OF assms(1) _ later_ok(2)]) (use assms(2) assms(4) [OF that] in \<open>auto simp: tasks_ok_def list_all_iff\<close>)
qed

lemma tasks_ok_steps:
  assumes "(daemon_step S C)\<^sup>*\<^sup>* (w_daemon w) (w_daemon w')" and "tasks_ok w"
    and "set (w_pushes w') \<subseteq> set (w_pushes w)" and "set (w_triggers w') \<subseteq> set (w_triggers w)"
  shows "tasks_ok w'"
  using assms(3,4) by (auto intro!: tasks_ok_turn [OF assms(1,2)])

section \<open>Handlers that start no loop\<close>

definition keeps_tasks :: "'a handler \<Rightarrow> bool" where
  "keeps_tasks h \<longleftrightarrow> (\<forall>w. w_pushes (snd (h w)) = w_pushes w \<and> w_triggers (snd (h w)) = w_triggers w)"

named_theorems keeps

lemma keeps_bind [keeps]: "keeps_tasks m \<Longrightarrow> (\<And>x. keeps_tasks (f x)) \<Longrightarrow> keeps_tasks (hbind m f)"
  unfolding keeps_tasks_def hbind_def by (auto split: prod.splits sum.splits) (metis snd_conv)+

lemma keeps_basic [keeps]:
  "keeps_tasks (hreturn x)" "keeps_tasks (hfail e)" "keeps_tasks (hlift y)" "keeps_tasks (hdaemon g)"
  "keeps_tasks (str_arg i msg args)" "keeps_tasks (on_root p h r)" "keeps_tasks (on_root_disk p k r)"
  by (simp_all add: keeps_tasks_def hreturn_def hfail_def hlift_def hdaemon_def str_arg_def on_root_def on_root_disk_def
      Let_def split: prod.splits)

lemma keeps_find_root [keeps]: "keeps_tasks (find_root E msg args)"
  unfolding find_root_def Let_def by (intro keeps)

lemma keeps_branch [keeps]:
  "keeps_tasks h \<Longrightarrow> keeps_tasks g \<Longrightarrow> keeps_tasks (if b then h else g)"
  "(\<And>a b. keeps_tasks (f2 a b)) \<Longrightarrow> keeps_tasks (case x of (a, b) \<Rightarrow> f2 a b)"
  "(\<And>x. keeps_tasks (f1 x)) \<Longrightarrow> keeps_tasks (Let y f1)"
  by (simp_all split: prod.split)

lemma keeps_reads [keeps]: "keeps_tasks get_sockname_cmd" "keeps_tasks (status_cmd E I)" "keeps_tasks (version_cmd args)"
  by (simp_all add: keeps_tasks_def get_sockname_cmd_def status_cmd_def version_cmd_def hreturn_def Let_def)

lemma keeps_canonical [keeps]: "keeps_tasks (canonical_arg E args)"
  unfolding canonical_arg_def arg_path_def by (auto intro!: keeps split: sum.split)

lemmas quiet_handlers = get_pid_cmd_def list_capabilities_cmd_def get_config_cmd_def log_level_cmd_def log_cmd_def get_log_cmd_def
  watch_list_cmd_def watch_del_cmd_def watch_del_all_cmd_def clock_cmd_def query_cmd_def find_cmd_def since_cmd_def
  full_query_def unsubscribe_cmd_def flush_subscriptions_cmd_def state_enter_cmd_def state_leave_cmd_def parse_state_def
  trigger_list_cmd_def trigger_del_cmd_def trigger_resolve_root_def recrawl_cmd_def ageout_cmd_def show_cursors_cmd_def
  get_asserted_states_cmd_def get_subscriptions_cmd_def root_status_cmd_def debug_status_cmd_def watcher_info_cmd_def
  contenthash_cmd_def inject_drop_cmd_def gc_tick_cmd_def shutdown_cmd_def simple_def debug_resolve_root_def arg_path_def

lemma keeps_handlers:
  "list_all (\<lambda>(name, h). name \<in> {''watch'', ''watch-project'', ''subscribe'', ''trigger''} \<or> keeps_tasks h)
    (handlers E I session args)"
  unfolding handlers_def list.pred_inject prod.case
  by (intro conjI TrueI; (rule disjI2, (unfold quiet_handlers)?, intro keeps; fail | simp))

section \<open>Handlers that start loops\<close>

text \<open>A handler after which the fences hold again.\<close>

definition arms :: "('g, 'x, 'n) cmd_env \<Rightarrow> 'a handler \<Rightarrow> bool" where
  "arms E h \<longleftrightarrow> (\<forall>w. daemon_reach (ce_serde E) (ce_codec E) (w_daemon w) \<longrightarrow> budget 4 (w_daemon w) \<longrightarrow> tasks_ok w \<longrightarrow>
     tasks_ok (snd (h w)))"

lemma safe_steps:
  "safe E h \<Longrightarrow> budget 4 (w_daemon w) \<Longrightarrow> (daemon_step (ce_serde E) (ce_codec E))\<^sup>*\<^sup>* (w_daemon w) (w_daemon (snd (h w)))"
  unfolding safe_def ends_def triple_def from_daemon_def
  by (cases "h w"; cases "fst (h w)") (force split: sum.splits)+

lemma keeps_arms: "keeps_tasks h \<Longrightarrow> safe E h \<Longrightarrow> arms E h"
  unfolding arms_def keeps_tasks_def
  by (intro allI impI, rule tasks_ok_steps [OF safe_steps]) simp_all

lemma reach_get:
  assumes "daemon_reach S C d" and "im_get (roots d) p = Some r"
  shows "watch_ok S C (root_counter d) p r" "root_reach S C r"
  using daemon_invD [OF daemon_reach_inv [OF assms(1)] assms(2)] by (simp_all add: watch_ok_def)

lemma daemon_reach_steps: "daemon_reach S C d \<Longrightarrow> (daemon_step S C)\<^sup>*\<^sup>* d d' \<Longrightarrow> daemon_reach S C d'"
  by (rotate_tac, induction rule: rtranclp_induct) (auto intro: daemon_reach.run_step)

text \<open>
  A handler that first finds a root without starting a loop, then goes on from the root it holds.
\<close>

lemma arms_holding:
  assumes keep: "keeps_tasks m"
    and find: "\<And>d0. triple (begun E d0 4) m (\<lambda>x w. \<exists>r. at_root E d0 1 (pos x) r w \<and> good x r) (begun E d0 0)"
    and arm: "\<And>x r w. daemon_reach (ce_serde E) (ce_codec E) (w_daemon w) \<Longrightarrow> tasks_ok w \<Longrightarrow>
      im_get (roots (w_daemon w)) (pos x) = Some r \<Longrightarrow> good x r \<Longrightarrow> tasks_ok (snd (f x w))"
  shows "arms E (hbind m f)"
  unfolding arms_def
proof (intro allI impI)
  fix w
  assume w: "daemon_reach (ce_serde E) (ce_codec E) (w_daemon w)" "budget 4 (w_daemon w)" "tasks_ok w"
  obtain ans w1 where m: "m w = (ans, w1)" by (cases "m w")
  have "w_pushes w1 = w_pushes w" "w_triggers w1 = w_triggers w" using keep m by (auto simp: keeps_tasks_def dest: spec [of _ w])
  moreover have post: "case ans of Inl _ \<Rightarrow> begun E (w_daemon w) 0 w1 | Inr x \<Rightarrow> \<exists>r. at_root E (w_daemon w) 1 (pos x) r w1 \<and> good x r"
    using find [of "w_daemon w"] m w(2) by (auto simp: triple_def from_daemon_def split: sum.splits)
  then have steps: "(daemon_step (ce_serde E) (ce_codec E))\<^sup>*\<^sup>* (w_daemon w) (w_daemon w1)"
    by (auto simp: holding_def from_daemon_def split: sum.splits)
  ultimately have ok: "tasks_ok w1" "daemon_reach (ce_serde E) (ce_codec E) (w_daemon w1)"
    using w tasks_ok_steps [OF steps] daemon_reach_steps [OF w(1) steps] by simp_all
  show "tasks_ok (snd (hbind m f w))"
    using post ok arm m by (cases ans) (auto simp: hbind_def holding_def)
qed

lemma tasks_ok_put:
  assumes "tasks_ok w" and "im_get (roots (w_daemon w)) p = Some r" and "root_step S C r r'"
  shows "tasks_ok (w\<lparr>w_daemon := put_root p r' (w_daemon w)\<rparr>)"
  using assms by (auto intro!: tasks_ok_steps [of S C w] daemon_step.ds_root)

lemma push_fenced_now:
  assumes "daemon_reach S C d" and "im_get (roots d) p = Some r" and "\<not> jj_events r"
  shows "fenced (push_ok (current_tick (rclock r))) p (rnumber r) d"
  using reach_get [OF assms(1,2)] reach_ticks_pos root_reach_inv assms(2,3)
  by (fastforce simp: fenced_def push_ok_def watch_ok_def root_inv_def)

lemma trigger_fenced_now:
  assumes "daemon_reach S C d" and "im_get (roots d) p = Some r"
  shows "fenced (trigger_ok (current_tick (rclock r))) p (rnumber r) d"
  using reach_get [OF assms] assms(2) by (auto simp: fenced_def trigger_ok_def watch_ok_def)

text \<open>The steps to a root held, with any condition on where they lead.\<close>

named_theorems finds

lemma finds_root [finds]:
  "(\<And>p r. triple (at_root E d0 n p r) (f (p, r)) R (begun E d0 0)) \<Longrightarrow>
    triple (begun E d0 (Suc n)) (hbind (find_root E msg args) f) R (begun E d0 0)"
  by (rule triple_bind [OF triple_find_root]) auto

lemma finds_arg [finds]:
  "(\<And>x. triple (at_root E d0 n p r) (f x) R (begun E d0 0)) \<Longrightarrow>
    triple (at_root E d0 n p r) (hbind (str_arg i msg args) f) R (begun E d0 0)"
  "(\<And>x. y = Inr x \<Longrightarrow> triple (at_root E d0 n p r) (g x) R (begun E d0 0)) \<Longrightarrow>
    triple (at_root E d0 n p r) (hbind (hlift y) g) R (begun E d0 0)"
proof -
  show "(\<And>x. triple (at_root E d0 n p r) (f x) R (begun E d0 0)) \<Longrightarrow>
    triple (at_root E d0 n p r) (hbind (str_arg i msg args) f) R (begun E d0 0)"
    by (rule triple_bind [OF triple_str_arg]) (auto intro: holding_from)
  show "(\<And>x. y = Inr x \<Longrightarrow> triple (at_root E d0 n p r) (g x) R (begun E d0 0)) \<Longrightarrow>
    triple (at_root E d0 n p r) (hbind (hlift y) g) R (begun E d0 0)"
    by (cases y) (auto simp: triple_def hbind_def hlift_def intro: holding_from)
qed

lemma finds_op [finds]:
  "root_op (ce_serde E) (ce_codec E) r (snd (f r)) \<Longrightarrow>
    (\<And>x r'. f r = (x, r') \<Longrightarrow> triple (at_root E d0 n p r') (g (x, r')) R (begun E d0 0)) \<Longrightarrow>
    triple (at_root E d0 (Suc n) p r) (hbind (on_root p f r) g) R (begun E d0 0)"
  by (rule triple_bind [OF triple_on_root]) (fastforce simp: triple_def)+

lemma finds_op_disk [finds]:
  "(\<And>disk. root_op (ce_serde E) (ce_codec E) r (fst (snd (f r disk)))) \<Longrightarrow>
    (\<And>x r'. triple (at_root E d0 n p r') (g (x, r')) R (begun E d0 0)) \<Longrightarrow>
    triple (at_root E d0 (Suc n) p r) (hbind (on_root_disk p f r) g) R (begun E d0 0)"
  by (rule triple_bind [OF triple_on_root_disk]) auto

lemma finds_return: "good x r \<Longrightarrow> m \<le> n \<Longrightarrow> pos x = p \<Longrightarrow>
    triple (at_root E d0 n p r) (hreturn x) (\<lambda>x w. \<exists>r. at_root E d0 m (pos x) r w \<and> good x r) F"
  by (rule triple_return) (auto simp: holding_def intro: from_mono)

lemma four: "4 = Suc (Suc (Suc (Suc 0)))" by simp

lemma arms_subscribe: "arms E (subscribe_cmd E session args)"
  unfolding subscribe_cmd_def
proof (rule arms_holding [where pos = fst and good = "\<lambda>_ r. \<not> jj_events r"])
  show "keeps_tasks (subscribe_query E args)"
    unfolding subscribe_query_def parse_subscribe_args_def by (intro keeps)
next
  fix d0
  have jj: "no_result (promote E) r = (u, r') \<Longrightarrow> run (ce_query E) r' q = (res, r2) \<Longrightarrow> \<not> jj_events r2" for r r' r2 u q res
    by (auto simp: no_result_def promote_def promote_to_full_def run_def set_cursor_def Let_def split: prod.splits option.splits if_splits)
  show "triple (begun E d0 4) (subscribe_query E args) (\<lambda>x w. \<exists>r. at_root E d0 1 (fst x) r w \<and> \<not> jj_events r) (begun E d0 0)"
    unfolding subscribe_query_def parse_subscribe_args_def hbind_assoc four
    by (auto intro!: finds finds_return simp: hbind_assoc cmd_ops dest: jj)
next
  fix x :: "path \<times> string \<times> wire_value \<times> query_result" and r w
  assume w: "daemon_reach (ce_serde E) (ce_codec E) (w_daemon w)" "tasks_ok w"
    "im_get (roots (w_daemon w)) (fst x) = Some r" "\<not> jj_events r"
  obtain p name raw initial where x: "x = (p, name, raw, initial)" by (metis prod_cases4)
  let ?r = "add_subscription \<lparr> sub_name = name, sub_query = raw \<rparr> r"
  let ?w = "w\<lparr>w_daemon := put_root p ?r (w_daemon w)\<rparr>"
  have step: "root_step (ce_serde E) (ce_codec E) r ?r" by (rule root_step.st_subscribe)
  have "tasks_ok ?w" by (rule tasks_ok_put [OF w(2) _ step]) (use w(3) x in simp)
  moreover have "daemon_reach (ce_serde E) (ce_codec E) (w_daemon ?w)"
    using daemon_reach.run_step [OF w(1) daemon_step.ds_root [OF _ step, of _ p]] w(3) x by simp
  then have "fenced (push_ok (current_tick (rclock ?r))) p (rnumber ?r) (w_daemon ?w)"
    by (rule push_fenced_now) (use w(4) in \<open>simp_all add: im_get_update add_subscription_def\<close>)
  ultimately show "tasks_ok (snd (subscribe_arm session x w))"
    using w(3) x by (simp add: subscribe_arm_def tasks_ok_def add_subscription_def Let_def)
qed

definition trigger_install :: "('g, 'x, 'n) cmd_env \<Rightarrow> wire_value list \<Rightarrow> (path \<times> root \<times> trigger) handler" where
  "trigger_install E args =
     hbind (parse_trigger_spec E args) (\<lambda>(p, r, spec).
     hbind (hlift (parse_trigger spec)) (\<lambda>t.
     hbind (if tr_name t \<noteq> JJ_TRIGGER then on_root p (no_result (promote E)) r else hreturn ((), r)) (\<lambda>(_, r1).
     hbind (on_root_disk p (\<lambda>r disk. ((), install_trigger (ce_serde E) (ce_codec E) (ce_save E) t r disk)) r1) (\<lambda>(_, r2).
     hreturn (p, r2, t)))))"

lemma trigger_cmd_install:
  "trigger_cmd E args = hbind (trigger_install E args) (\<lambda>(p, r, t). hbind (spawn_trigger_loop p r t) (\<lambda>_.
     hreturn (obj [(''trigger'', VString (tr_name t))])))"
  by (simp add: trigger_cmd_def trigger_install_def hbind_assoc split_def)

lemma finds_here: "m \<le> n \<Longrightarrow> triple (at_root E d0 n p r) (hreturn (p, r, t)) (\<lambda>x. at_root E d0 m (fst x) (fst (snd x))) F"
  by (rule triple_return) (auto simp: holding_def intro: from_mono)

lemma arms_trigger: "arms E (trigger_cmd E args)"
  unfolding trigger_cmd_install
proof (rule arms_holding [where pos = fst and good = "\<lambda>x r. r = fst (snd x)"])
  show "keeps_tasks (trigger_install E args)"
    unfolding trigger_install_def parse_trigger_spec_def by (intro keeps)
next
  fix d0
  show "triple (begun E d0 4) (trigger_install E args) (\<lambda>x w. \<exists>r. at_root E d0 1 (fst x) r w \<and> r = fst (snd x)) (begun E d0 0)"
    unfolding trigger_install_def parse_trigger_spec_def hbind_assoc four
    by (auto intro!: finds finds_here simp: hbind_assoc cmd_ops split: if_splits)
next
  fix x :: "path \<times> root \<times> trigger" and r w
  assume w: "daemon_reach (ce_serde E) (ce_codec E) (w_daemon w)" "tasks_ok w"
    "im_get (roots (w_daemon w)) (fst x) = Some r" "r = fst (snd x)"
  then show "tasks_ok (snd ((case x of (p, r, t) \<Rightarrow> hbind (spawn_trigger_loop p r t) (\<lambda>_.
     hreturn (obj [(''trigger'', VString (tr_name t))]))) w))"
    using trigger_fenced_now [OF w(1,3)]
    by (cases x) (simp add: tasks_ok_def spawn_trigger_loop_def hbind_def hreturn_def)
qed

lemma register_tasks:
  assumes "env_ok E" and "daemon_reach (ce_serde E) (ce_codec E) (w_daemon w)" and "budget 4 (w_daemon w)" and "tasks_ok w"
  shows "tasks_ok (snd (register E p w))"
proof -
  let ?S = "ce_serde E" and ?C = "ce_codec E" and ?d = "w_daemon w"
  let ?env = "(ce_register E p)\<lparr>reg_triggers := saved_triggers w p\<rparr>"
  let ?d' = "snd (register_root ?S ?C ?env p ?d)"
  have env: "reg_now ?env < 2 ^ 64" "reg_pid ?env < 2 ^ 32" "root_counter ?d < 2 ^ 64 - 1"
    using assms(1,3) by (simp_all add: env_ok_def budget_def)
  then have step: "daemon_step ?S ?C ?d ?d'" by (rule daemon_step.ds_register)
  then have reach: "daemon_reach ?S ?C ?d'" using assms(2) by (blast intro: daemon_reach.run_step)
  have ok: "tasks_ok (w\<lparr>w_daemon := ?d'\<rparr>)"
    by (rule tasks_ok_steps [OF _ assms(4), of ?S ?C]) (use step in auto)
  from env show ?thesis
  proof (cases rule: register_root_cases [where S = ?S and C = ?C and p = p])
    case (new r)
    then have "im_get (roots ?d') p = Some r" by (simp add: im_get_update)
    then have "list_all (trigger_fenced ?d') (trigger_tasks p r)"
      using trigger_fenced_now [OF reach] by (simp add: trigger_tasks_def list_all_iff)
    then show ?thesis using ok new by (simp add: register_def tasks_ok_def Let_def im_contains_def)
  qed (use ok in \<open>simp_all add: register_def Let_def im_contains_def\<close>)
qed

lemma arms_canonical:
  assumes "\<And>c. arms E (f c)"
  shows "arms E (hbind (canonical_arg E args) f)"
proof -
  have "snd (canonical_arg E args w) = w" for w
    by (simp add: canonical_arg_def arg_path_def str_arg_def hbind_def hlift_def hfail_def hreturn_def split: sum.split)
  then show ?thesis
    using assms unfolding arms_def hbind_def by (auto split: prod.splits sum.splits) (metis snd_conv)+
qed

lemma arms_register: "env_ok E \<Longrightarrow> arms E (hbind (register E p) (\<lambda>r. hreturn (g r)))"
  using register_tasks [of E _ p] unfolding arms_def hbind_def hreturn_def
  by (auto split: prod.splits sum.splits) (metis snd_conv)+

lemma arms_watch: "env_ok E \<Longrightarrow> arms E (watch_cmd E args)" "env_ok E \<Longrightarrow> arms E (watch_project_cmd E args)"
  unfolding watch_cmd_def watch_project_cmd_def
  by (auto intro!: arms_canonical arms_register split: prod.split)

lemma arms_handlers: "env_ok E \<Longrightarrow> list_all (\<lambda>(name, h). arms E h) (handlers E I session args)"
proof -
  assume env: "env_ok E"
  have "arms E h" if "(name, h) \<in> set (handlers E I session args)" for name h
  proof (cases "name \<in> {''watch'', ''watch-project'', ''subscribe'', ''trigger''}")
    case True
    then show ?thesis
      using that arms_watch [OF env] arms_subscribe arms_trigger by (auto simp: handlers_def)
  next
    case False
    then have "keeps_tasks h" using that keeps_handlers [of E I session args] by (auto simp: list_all_iff)
    moreover have "safe E h" using that safe_handlers [OF env, of I session args] by (force simp: list_all_iff)
    ultimately show ?thesis by (rule keeps_arms)
  qed
  then show ?thesis by (auto simp: list_all_iff)
qed

lemma dispatch_tasks:
  assumes "env_ok E" and "daemon_reach (ce_serde E) (ce_codec E) (w_daemon w)" and "budget 4 (w_daemon w)" and "tasks_ok w"
  shows "tasks_ok (snd (dispatch E I session pdu w))"
proof -
  have "arms E h" if "map_of (handlers E I session args) name = Some h" for args name h
    using arms_handlers [OF assms(1), of I session args] map_of_SomeD [OF that] by (force simp: list_all_iff)
  then have "tasks_ok (snd (dispatch_inner E I session pdu w))"
    using assms(2-4)
    by (auto simp: dispatch_inner_def hbind_def hlift_def str_arg_def hfail_def arms_def split: sum.splits option.splits)
  then show ?thesis by (simp add: dispatch_world)
qed

section \<open>The fences hold in the running daemon\<close>

lemma next_task_set: "set (next_task t after ts) \<subseteq> set ts \<union> set_option after"
  by (induction t after ts rule: next_task.induct) (auto split: option.splits)

lemma push_turn_task:
  "fst (snd (push_turn Q ss ev rr task)) = Some t' \<Longrightarrow>
    t' = task \<or> (pu_last_tick task < ev_tick ev \<and> t' = task\<lparr>pu_last_tick := ev_tick ev\<rparr>)"
  by (auto simp: push_turn_def Let_def case_prod_beta split: if_splits sum.splits)

lemma trigger_turn_task:
  assumes "root_reach S C rr" and "fst (snd (trigger_turn Q ev rr task)) = Some t'"
  shows "t' = task \<or> t' = task\<lparr>tg_last_tick := current_tick (rclock rr)\<rparr>"
proof -
  have wf: "clock_wf (rclock rr)" "ticks (rclock rr) < 2 ^ 64"
    using root_reach_inv [OF assms(1)] by (simp_all add: root_inv_def clock_wf_def)
  have "rclock (snd (run Q rr q)) = rclock rr" for q using run_root [of Q rr q] by (auto simp: set_cursor_def)
  then have "tick_against (clock_parse (res_clock (fst (run Q rr q)))) (rclock (snd (run Q rr q))) = ticks (rclock rr)" for q
    using tick_against_encode [OF wf(1)] wf(2) by (simp add: run_def Let_def)
  then show ?thesis using assms(2) by (auto simp: trigger_turn_def Let_def case_prod_beta split: if_splits sum.splits)
qed

lemma tasks_ok_runtime_step:
  assumes "runtime_step E0 r r'" and "runtime_reach E0 r" and "tasks_ok (rt_world r)"
  shows "tasks_ok (rt_world r')"
proof -
  note steps = runtime_step_daemon [OF assms(1)]
  have reach: "daemon_reach (ce_serde E0) (ce_codec E0) (rt_daemon r)" using runtime_inv [OF assms(2)] by simp
  from assms(1) show ?thesis
  proof cases
    case (rs_request s E I pdu)
    then show ?thesis
      using dispatch_tasks [of E "rt_world r" I "se_id s" pdu] reach assms(3)
      by (simp add: request_turn_def dispatch_and_send_def case_prod_beta)
  next
    case (rs_push task s rr ev Q)
    have events: "ev_tick ev \<le> ticks (rclock rr)"
      using root_reach_inv [OF reach_get(2) [OF reach rs_push(5)]] rs_push(7) by (simp add: root_inv_def events_ordered_def)
    have old: "push_fenced (rt_daemon r) task" using assms(3) rs_push(2) by (simp add: tasks_ok_def list_all_iff)
    have moved: "push_fenced (rt_daemon r) (task\<lparr>pu_last_tick := ev_tick ev\<rparr>)" if "pu_last_tick task < ev_tick ev"
      using old that rs_push(5,6) events by (auto simp: fenced_def push_ok_def)
    show ?thesis
    proof (rule tasks_ok_turn [OF steps assms(3)])
      fix t assume "t \<in> set (w_pushes (rt_world r'))"
      then have "t \<in> set (w_pushes (rt_world r)) \<or>
          fst (snd (push_turn Q \<lparr> ss_closed = session_is_closed s, ss_send_ok = se_open s \<rparr> ev rr task)) = Some t"
        using rs_push(1) next_task_set by (fastforce simp: push_step_def case_prod_beta Let_def)
      then show "t \<in> set (w_pushes (rt_world r)) \<or> push_fenced (rt_daemon r) t"
        using push_turn_task old moved by blast
    qed (use rs_push(1) in \<open>simp add: push_step_def case_prod_beta Let_def\<close>)
  next
    case (rs_trigger task rr ev Q)
    have old: "trigger_fenced (rt_daemon r) task" using assms(3) rs_trigger(2) by (simp add: tasks_ok_def list_all_iff)
    have moved: "trigger_fenced (rt_daemon r) (task\<lparr>tg_last_tick := current_tick (rclock rr)\<rparr>)"
      using old rs_trigger(3,4) by (auto simp: fenced_def trigger_ok_def)
    show ?thesis
    proof (rule tasks_ok_turn [OF steps assms(3)])
      fix t assume "t \<in> set (w_triggers (rt_world r'))"
      then have "t \<in> set (w_triggers (rt_world r)) \<or> fst (snd (trigger_turn Q ev rr task)) = Some t"
        using rs_trigger(1) next_task_set by (fastforce simp: trigger_step_def case_prod_beta Let_def)
      then show "t \<in> set (w_triggers (rt_world r)) \<or> trigger_fenced (rt_daemon r) t"
        using trigger_turn_task [OF reach_get(2) [OF reach rs_trigger(3)]] old moved by blast
    qed (use rs_trigger(1) in \<open>simp add: trigger_step_def case_prod_beta Let_def\<close>)
  next
    case (rs_push_orphan task)
    then show ?thesis
      using tasks_ok_steps [OF steps assms(3)] next_task_set [of task None] by (fastforce simp: orphan_push_def)
  next
    case (rs_trigger_orphan task)
    then show ?thesis
      using tasks_ok_steps [OF steps assms(3)] next_task_set [of task None] by (fastforce simp: orphan_trigger_def)
  qed (rule tasks_ok_steps [OF steps assms(3)]; simp add: turn_defs put_daemon_def split: gc_phase.split)+
qed

lemma runtime_tasks_ok: "runtime_reach E0 r \<Longrightarrow> tasks_ok (rt_world r)"
proof (induction rule: runtime_reach.induct)
  case (start now sock disk)
  show ?case by (simp add: tasks_ok_def runtime_new_def)
qed (rule tasks_ok_runtime_step)

section \<open>Properties\<close>

lemma batch_event:
  "clock_room rr \<Longrightarrow> \<lparr> ev_tick = ticks (rclock rr) + 1, ev_changed = map change_path cs \<rparr> \<in> set (tick_tx (snd (apply_changes arena cs rr)))"
  by (simp add: apply_changes_eq Let_def split: prod.splits)

text \<open>The root of a watch after any turns of the daemon's tasks.\<close>

lemma turns_identify:
  assumes "(runtime_step E0)\<^sup>*\<^sup>* r r2" and "runtime_reach E0 r" and "im_get (roots (rt_daemon r)) p = Some rr"
    and "im_get (roots (rt_daemon r2)) p = Some rr2" and "rnumber rr2 = rnumber rr"
  shows "later rr rr2"
proof -
  have "(daemon_step (ce_serde E0) (ce_codec E0))\<^sup>*\<^sup>* (rt_daemon r) (rt_daemon r2)"
    using assms(1) by (induction rule: rtranclp_induct) (auto intro: rtranclp_trans runtime_step_daemon)
  moreover have "daemon_inv (ce_serde E0) (ce_codec E0) (rt_daemon r)" using runtime_inv [OF assms(2)] daemon_reach_inv by blast
  ultimately show ?thesis using number_identifies [OF _ _ assms(3)] assms(4,5) later_steps by blast
qed

lemma runtime_reach_steps: "(runtime_step E0)\<^sup>*\<^sup>* r r2 \<Longrightarrow> runtime_reach E0 r \<Longrightarrow> runtime_reach E0 r2"
  by (induction rule: rtranclp_induct) (auto intro: runtime_reach.turn)

lemma push_step_queue:
  assumes "sessions_ok r" and "s \<in> set (rt_sessions r)" and "se_open s"
    and "fst (push_turn Q \<lparr> ss_closed = False, ss_send_ok = True \<rparr> ev rr task) = Some v"
  shows "queue_of (se_id s) (push_step Q ev task s rr r) = queue_of (se_id s) r @ [v]"
proof -
  have "List.find (\<lambda>x. se_id x = se_id s) (rt_sessions r) = Some s"
    by (rule find_session) (use assms(1,2) in \<open>simp_all add: sessions_ok_def\<close>)
  moreover have "se_id (snd (session_send v s)) \<in> se_id ` set (rt_sessions r)" using assms(2) by auto
  then have "List.find (\<lambda>x. se_id x = se_id s) (rt_sessions (put_session (snd (session_send v s)) r)) = Some (snd (session_send v s))"
    using find_put_same [of "snd (session_send v s)" "rt_sessions r"] by (simp add: put_session_def)
  moreover have "rt_sessions (push_step Q ev task s rr r) = rt_sessions (put_session (snd (session_send v s)) r)"
    using assms(3,4) by (simp only: push_step_def case_prod_beta Let_def session_is_closed_def put_session_def) simp
  ultimately show ?thesis using assms(3) by (simp add: queue_of_def session_send_def)
qed

lemma push_step_delivers:
  assumes "runtime_reach E0 r" and "task \<in> set (w_pushes (rt_world r))"
    and "s \<in> set (rt_sessions r)" and "se_open s"
    and "im_get (roots (rt_daemon r)) (pu_root task) = Some rr" and "rnumber rr = pu_number task"
    and "pu_spec task = VObject m" and "parse_spec Q (VObject m) = Inr q0"
    and "p \<in> touched_since (pu_last_tick task) rr" and "tree_get (rtree rr) p = Some e"
    and "query_entry Q rr (unfenced q0) (p, e) = Some row"
    and "pu_last_tick task < ev_tick ev"
  shows "\<exists>res. row \<in> set (res_files res) \<and>
    queue_of (se_id s) (push_step Q ev task s rr r) = queue_of (se_id s) r @ [push_pdu (pu_name task) (pu_root task) res]"
proof -
  have reach: "daemon_reach (ce_serde E0) (ce_codec E0) (rt_daemon r)" and ses: "sessions_ok r"
    using runtime_inv [OF assms(1)] by auto
  note rr = reach_get(2) [OF reach assms(5)]
  have "push_ok (pu_last_tick task) rr"
    using runtime_tasks_ok [OF assms(1)] assms(2,5,6) by (auto simp: tasks_ok_def list_all_iff fenced_def)
  then have "due \<lparr> ss_closed = False, ss_send_ok = True \<rparr> ev rr task"
    using assms(12) reach_ticks [OF rr] by (simp add: due_def push_ok_def)
  from subscriber_misses_no_existing_change [OF rr this assms(7-11)] show ?thesis
    using push_step_queue [OF ses assms(3,4)] by blast
qed

text \<open>
  C14. A change made while a subscription is armed reaches the client: a batch is applied to the watched
  root, then any turns of any tasks follow, and as long as the push loop has not handled an event its own
  event waits for it; on the first event it does handle, whichever that is, the PDU put at the end of the
  client's queue has the row of every path of the batch that is still in the index and that the
  subscription's query selects.
\<close>

theorem change_reaches_subscriber:
  assumes "runtime_reach E0 r" and "im_get (roots (rt_daemon r)) (pu_root task) = Some rr" and "rnumber rr = pu_number task"
    and "task \<in> set (w_pushes (rt_world r))" and "clock_room rr" and "c \<in> set cs"
    and "(runtime_step E0)\<^sup>*\<^sup>* (put_daemon (put_root (pu_root task) (snd (apply_changes arena cs rr)) (rt_daemon r)) r) r2"
    and "task \<in> set (w_pushes (rt_world r2))" and "s \<in> set (rt_sessions r2)" and "se_open s"
    and "se_id s = pu_session task" and "im_get (roots (rt_daemon r2)) (pu_root task) = Some rr2" and "rnumber rr2 = pu_number task"
    and "pu_spec task = VObject m" and "parse_spec Q (VObject m) = Inr q0"
    and "tree_get (rtree rr2) (change_path c) = Some e" and "query_entry Q rr2 (unfenced q0) (change_path c, e) = Some row"
  shows "(\<exists>ev \<in> set (tick_tx rr2). pu_last_tick task < ev_tick ev) \<and>
    (\<forall>ev. pu_last_tick task < ev_tick ev \<longrightarrow> (\<exists>res. row \<in> set (res_files res) \<and>
      queue_of (pu_session task) (push_step Q ev task s rr2 r2) = queue_of (pu_session task) r2 @ [push_pdu (pu_name task) (pu_root task) res]))"
proof -
  let ?rr1 = "snd (apply_changes arena cs rr)" and ?k = "pu_last_tick task"
  let ?r1 = "put_daemon (put_root (pu_root task) ?rr1 (rt_daemon r)) r"
  let ?ev = "\<lparr> ev_tick = ticks (rclock rr) + 1, ev_changed = map change_path cs \<rparr>"
  have batch: "root_step (ce_serde E0) (ce_codec E0) rr ?rr1" by (rule root_step.st_changes [OF assms(5)])
  have r1: "runtime_reach E0 ?r1" by (rule runtime_reach.turn [OF assms(1) runtime_step.rs_root [OF assms(2) batch]])
  have "rnumber rr2 = rnumber ?rr1" using same_watch_step [OF batch] assms(3,13) by (simp add: same_watch_def)
  then have "later ?rr1 rr2" using turns_identify [OF assms(7) r1 _ assms(12)] by (simp add: im_get_update)
  then have ev: "?ev \<in> set (tick_tx rr2)" using batch_event [OF assms(5), of cs arena] by (auto simp: later_def dest: set_mono_prefix)
  have "push_ok ?k rr" using runtime_tasks_ok [OF assms(1)] assms(2-4) by (auto simp: tasks_ok_def list_all_iff fenced_def)
  then have late: "?k < ev_tick ?ev" by (simp add: push_ok_def)
  then have waiting: "\<exists>ev \<in> set (tick_tx rr2). ?k < ev_tick ev" using ev by blast
  have "change_path c \<in> touched_since ?k rr2" using late ev assms(6) by (force simp: touched_since_def)
  from push_step_delivers [OF runtime_reach_steps [OF assms(7) r1] assms(8-10,12-15) this assms(16,17)] show ?thesis
    using waiting assms(11) by simp
qed

text \<open>A client that watches a directory and subscribes to it.\<close>

lemma dispatch_known:
  "snd (dispatch E I n (VArray [VString ''watch'', VString dir]) w) = snd (watch_cmd E [VString dir] w)"
  "snd (dispatch E I n (VArray (VString ''subscribe'' # args)) w) = snd (subscribe_cmd E n args w)"
  by (simp_all add: dispatch_world dispatch_inner_def handlers_def hbind_def hlift_def str_arg_def nth_arg_def)

lemma subscribe_starts:
  assumes "im_get (roots (w_daemon w)) (canonical E dir) = Some r" and "parse_spec (ce_query E) raw = Inr q"
  obtains rr task where "w_pushes (snd (subscribe_cmd E n [VString dir, VString name, raw] w)) = w_pushes w @ [task]"
    "pu_root task = canonical E dir" "pu_number task = rnumber rr" "pu_spec task = raw" "pu_name task = name" "pu_session task = n"
    "im_get (roots (w_daemon (snd (subscribe_cmd E n [VString dir, VString name, raw] w)))) (canonical E dir) = Some rr"
    "ticks (rclock rr) \<le> ticks (rclock r) + 1"
proof -
  let ?p = "canonical E dir" and ?r1 = "promote E (touch (ce_now E) r)"
  let ?r2 = "snd (run (ce_query E) ?r1 q)"
  let ?rr = "add_subscription \<lparr> sub_name = name, sub_query = raw \<rparr> ?r2"
  let ?w = "snd (subscribe_cmd E n [VString dir, VString name, raw] w)"
  have "rclock ?r2 = rclock ?r1" using run_root [of "ce_query E" ?r1 q] by (auto simp: set_cursor_def)
  moreover have "ticks (rclock ?r1) \<le> ticks (rclock r) + 1"
    by (simp add: promote_def promote_to_full_def touch_def bump_clock_def bump_def Let_def)
  ultimately have "ticks (rclock ?rr) \<le> ticks (rclock r) + 1" by (simp add: add_subscription_def)
  moreover have "im_get (roots (w_daemon ?w)) ?p = Some ?rr \<and> (\<exists>task. w_pushes ?w = w_pushes w @ [task] \<and> pu_root task = ?p \<and>
      pu_number task = rnumber ?rr \<and> pu_spec task = raw \<and> pu_name task = name \<and> pu_session task = n)"
    using assms(2) find_root_at [OF assms(1)]
    by (simp add: subscribe_cmd_def subscribe_query_def parse_subscribe_args_def subscribe_arm_def hbind_def str_arg_def nth_arg_def
        hlift_def on_root_def no_result_def hreturn_def put_root_def store_simps add_subscription_def Let_def case_prod_beta)
  ultimately show thesis using that by blast
qed

definition watching_runtime :: runtime where
  "watching_runtime = request_turn sample_cmd_env sample_info_env sample_session (VArray [VString ''watch'', VString ''/w'']) sample_runtime"

definition watching_session :: session where
  "watching_session = hd (rt_sessions watching_runtime)"

abbreviation subscribe_pdu :: wire_value where
  "subscribe_pdu \<equiv> VArray [VString ''subscribe'', VString ''/w'', VString ''s'', pu_spec sample_task]"

definition subscribed_runtime :: runtime where
  "subscribed_runtime = request_turn sample_cmd_env sample_info_env watching_session subscribe_pdu watching_runtime"

lemma request_world: "rt_world (request_turn E I s pdu r) = snd (dispatch E I (se_id s) pdu (rt_world r))"
  by (simp add: request_turn_def dispatch_and_send_def case_prod_beta)

lemma request_sessions:
  "rt_sessions r = [s] \<Longrightarrow> \<exists>s'. rt_sessions (request_turn E I s pdu r) = [s'] \<and> se_id s' = se_id s \<and> se_open s' = se_open s"
  by (simp add: request_turn_def dispatch_and_send_def case_prod_beta put_session_def session_send_def)

lemma watching_world: "w_daemon (rt_world watching_runtime) = sample_daemon" "w_pushes (rt_world watching_runtime) = []"
proof -
  have w: "rt_world sample_runtime = \<lparr> w_daemon = daemon_new 1700000000 [RootDir, Normal ''s''], w_disk = (\<lambda>_. None), w_pushes = [], w_triggers = [] \<rparr>"
    by (simp add: sample_runtime_def runtime_new_def turn_defs daemon_new_def)
  have reg: "(ce_register sample_cmd_env p)\<lparr>reg_triggers := saved_triggers (rt_world sample_runtime) p\<rparr> = sample_reg" for p
    by (simp add: sample_cmd_env_def sample_reg_def saved_triggers_def w bind_eq_None_conv)
  have "canonical_arg sample_cmd_env [VString ''/w''] v = (Inr [RootDir, Normal ''w''], v)" for v
    using sample_dir
    by (simp add: canonical_arg_def arg_path_def str_arg_def nth_arg_def hbind_def hlift_def hreturn_def canonical_def sample_cmd_env_def)
  then show "w_daemon (rt_world watching_runtime) = sample_daemon" "w_pushes (rt_world watching_runtime) = []"
    using reg [of "[RootDir, Normal ''w'']"]
    by (simp_all add: watching_runtime_def request_world dispatch_known watch_cmd_def hbind_def register_def w sample_daemon_def
        hreturn_def Let_def case_prod_beta split: sum.splits) (simp_all add: sample_cmd_env_def)
qed

lemma watching_sessions: "rt_sessions watching_runtime = [watching_session]" "se_id watching_session = 1" "se_open watching_session"
  using request_sessions [OF sample_runtime_sessions, of sample_cmd_env sample_info_env "VArray [VString ''watch'', VString ''/w'']"]
  by (auto simp: watching_session_def watching_runtime_def sample_session_def)

lemma subscribed_sessions:
  "\<exists>s. rt_sessions subscribed_runtime = [s] \<and> se_id s = 1 \<and> se_open s"
  using request_sessions [OF watching_sessions(1), of sample_cmd_env sample_info_env subscribe_pdu] watching_sessions
  by (auto simp: subscribed_runtime_def)

lemma subscribed_reach: "runtime_reach sample_cmd_env subscribed_runtime"
proof -
  have "runtime_step sample_cmd_env sample_runtime watching_runtime"
    unfolding watching_runtime_def
    by (rule runtime_step.rs_request)
      (simp_all add: sample_runtime_sessions sample_env_ok, simp add: budget_def sample_runtime_def runtime_new_def daemon_new_def turn_defs)
  moreover have "runtime_step sample_cmd_env watching_runtime subscribed_runtime"
    unfolding subscribed_runtime_def
    by (rule runtime_step.rs_request) (simp_all add: watching_sessions sample_env_ok watching_world sample_daemon_budget)
  ultimately show ?thesis by (blast intro: sample_runtime_reach runtime_reach.turn)
qed

lemma sample_watch_room: "ticks (rclock sample_watch) + 1 < 2 ^ 64 - 1"
  using sample_daemon_budget sample_daemon_get by (force simp: budget_def)

lemma upserted: "clock_room rr \<Longrightarrow> \<exists>e. tree_get (rtree (snd (apply_changes arena [Upsert p md None] rr))) p = Some e"
  by (simp add: apply_changes_eq Let_def tree_gets split: prod.splits option.splits)

theorem change_reaches_subscriber_witness:
  "\<exists>r2 task s rr2 ev res. task \<in> set (w_pushes (rt_world subscribed_runtime)) \<and> ev \<in> set (tick_tx rr2) \<and>
    name_row sample_file \<in> set (res_files res) \<and>
    queue_of 1 (push_step plain_env ev task s rr2 r2) = queue_of 1 r2 @ [push_pdu ''s'' [RootDir, Normal ''w''] res]"
proof -
  let ?w = "rt_world subscribed_runtime" and ?c = "Upsert sample_file sample_md None"
  have at_w: "im_get (roots (w_daemon (rt_world watching_runtime))) (canonical sample_cmd_env ''/w'') = Some sample_watch"
    by (simp add: watching_world sample_dir sample_daemon_get)
  have parse: "parse_spec (ce_query sample_cmd_env) (pu_spec sample_task) = Inr (changes_spec (clock_parse ''0''))"
    using sample_task_spec by (simp add: sample_cmd_env_def)
  have w: "?w = snd (subscribe_cmd sample_cmd_env 1 [VString ''/w'', VString ''s'', pu_spec sample_task] (rt_world watching_runtime))"
    by (simp add: subscribed_runtime_def request_world dispatch_known watching_sessions)
  obtain rr task where task: "w_pushes ?w = [] @ [task]" "pu_root task = [RootDir, Normal ''w'']" "pu_number task = rnumber rr"
    "pu_spec task = pu_spec sample_task" "pu_name task = ''s''" "pu_session task = 1"
    "im_get (roots (w_daemon ?w)) [RootDir, Normal ''w''] = Some rr" "ticks (rclock rr) \<le> ticks (rclock sample_watch) + 1"
    using subscribe_starts [OF at_w parse, of 1 "''s''"] unfolding w sample_dir watching_world by metis
  obtain s where s: "rt_sessions subscribed_runtime = [s]" "se_id s = 1" "se_open s" using subscribed_sessions by blast
  have room: "clock_room rr" using task(8) sample_watch_room by (simp add: clock_room_def)
  let ?rr = "snd (apply_changes 0 [?c] rr)"
  let ?r1 = "put_daemon (put_root (pu_root task) ?rr (rt_daemon subscribed_runtime)) subscribed_runtime"
  obtain e where e: "tree_get (rtree ?rr) sample_file = Some e" using upserted [OF room] by blast
  have kept: "rnumber ?rr = rnumber rr" using same_watch_step [OF root_step.st_changes [OF room]] by (simp add: same_watch_def)
  have "(\<exists>ev \<in> set (tick_tx ?rr). pu_last_tick task < ev_tick ev) \<and>
    (\<forall>ev. pu_last_tick task < ev_tick ev \<longrightarrow> (\<exists>res. name_row sample_file \<in> set (res_files res) \<and>
      queue_of (pu_session task) (push_step plain_env ev task s ?rr ?r1)
        = queue_of (pu_session task) ?r1 @ [push_pdu (pu_name task) (pu_root task) res]))"
    by (rule change_reaches_subscriber [OF subscribed_reach, where c = ?c and cs = "[?c]" and arena = 0 and rr = rr and e = e])
      (use task s room e kept sample_task_spec query_entry_unfenced_changes [OF sample_file_not_cookie] in
        \<open>simp_all add: put_daemon_def im_get_update\<close>)
  then show ?thesis using task by simp blast
qed

end
