(* ===== verification/Launch_Agent.thy ===== *)
theory Launch_Agent
  imports Cli_Run
begin

text \<open>
  The launch agent of the macOS build (\<^verbatim>\<open>cli.rs\<close>: \<^verbatim>\<open>install-agent\<close>, \<^verbatim>\<open>uninstall-agent\<close>): which binary the agent starts,
  the property list written for it, and the steps of installing and removing it. What the two commands do to
  the machine is the list of their actions in order; the answers of the machine are the parameter \<open>agent_env\<close>.
\<close>

section \<open>Paths\<close>

record agent_env =
  ag_sock :: sock_env
  ag_exe :: "path option"
  ag_exists :: "path \<Rightarrow> bool"
  ag_uid :: nat
  ag_mkdir_ok :: "path \<Rightarrow> bool"
  ag_write_ok :: bool
  ag_bootstrap :: "bool option"

definition AGENT_LABEL :: string where
  "AGENT_LABEL = ''cc.blit.watchwoman''"

definition agent_plist_path :: "agent_env \<Rightarrow> path" where
  "agent_plist_path G =
     path_join (path_join (path_of (case env_var (ag_sock G) ''HOME'' of Some h \<Rightarrow> h | None \<Rightarrow> ''/tmp''))
       (path_of ''Library/LaunchAgents'')) (path_of (AGENT_LABEL @ ''.plist''))"

datatype agent_error = NoCurrentExe | NoStateDir | NoSocketPath cli_error | PlistDir | PlistWrite | BootstrapFailed | BootstrapNonZero

text \<open>The places a stable binary may be in, best first; those below the home directory only when there is one.\<close>

definition stable_candidates :: "string option \<Rightarrow> path list" where
  "stable_candidates home =
     (let below = (\<lambda>p. case home of None \<Rightarrow> [] | Some h \<Rightarrow> [path_join (path_of h) (path_of p)]) in
      below ''.local/share/mise/shims/watchman'' @ below ''.local/share/mise/shims/watchwoman'' @
      [path_of ''/opt/homebrew/bin/watchman'', path_of ''/opt/homebrew/bin/watchwoman'',
       path_of ''/usr/local/bin/watchman'', path_of ''/usr/local/bin/watchwoman''] @
      below ''.cargo/bin/watchman'' @ below ''.cargo/bin/watchwoman'')"

definition resolve_stable_binary :: "agent_env \<Rightarrow> agent_error + path" where
  "resolve_stable_binary G =
     (case ag_exe G of
        None \<Rightarrow> Inl NoCurrentExe
      | Some running \<Rightarrow>
          (case filter (ag_exists G) (stable_candidates (sk_var (ag_sock G) ''HOME'')) of
             best # _ \<Rightarrow> Inr best
           | [] \<Rightarrow> Inr running))"

definition watchwoman_state_dir :: "agent_env \<Rightarrow> agent_error + path" where
  "watchwoman_state_dir G =
     (case sock_resolve (ag_sock G) None of
        Inl e \<Rightarrow> Inl (NoSocketPath e)
      | Inr base \<Rightarrow> ok_or NoStateDir (path_parent (path_of base)))"

section \<open>The property list\<close>

text \<open>The lines of the file; a double quote is written as a back quote here.\<close>

definition quoted :: "string \<Rightarrow> string" where
  "quoted = map (\<lambda>c. if c = CHR ''`'' then CHR 0x22 else c)"

definition plist_body :: "string \<Rightarrow> string \<Rightarrow> string \<Rightarrow> string" where
  "plist_body exe sock logf =
     concat (map (\<lambda>l. l @ [CHR 0x0A])
       [quoted ''<?xml version=`1.0` encoding=`UTF-8`?>'',
        quoted ''<!DOCTYPE plist PUBLIC `-//Apple//DTD PLIST 1.0//EN` `http://www.apple.com/DTDs/PropertyList-1.0.dtd`>'',
        quoted ''<plist version=`1.0`>'',
        ''<dict>'',
        ''    <key>Label</key><string>'' @ AGENT_LABEL @ ''</string>'',
        ''    <key>ProgramArguments</key>'',
        ''    <array>'',
        ''        <string>'' @ exe @ ''</string>'',
        ''        <string>--sockname</string>'',
        ''        <string>'' @ sock @ ''</string>'',
        ''        <string>--foreground-daemon</string>'',
        ''    </array>'',
        ''    <key>KeepAlive</key>'',
        ''    <dict><key>Crashed</key><true/></dict>'',
        ''    <key>RunAtLoad</key><true/>'',
        ''    <key>StandardErrorPath</key><string>'' @ logf @ ''</string>'',
        ''    <key>StandardOutPath</key><string>'' @ logf @ ''</string>'',
        ''    <key>ProcessType</key><string>Interactive</string>'',
        ''</dict>'',
        ''</plist>''])"

section \<open>Installing and removing\<close>

datatype agent_action =
    CreateDirAll path
  | WriteFile path string
  | Launchctl "string list"
  | RemoveFile path

definition gui_target :: "agent_env \<Rightarrow> string" where
  "gui_target G = ''gui/'' @ nat_str (ag_uid G)"

definition create_parent :: "path \<Rightarrow> agent_action list" where
  "create_parent p = (case path_parent p of None \<Rightarrow> [] | Some d \<Rightarrow> [CreateDirAll d])"

definition install_launch_agent :: "agent_env \<Rightarrow> agent_action list \<times> (agent_error + unit)" where
  "install_launch_agent G =
     (case sbind (resolve_stable_binary G) (\<lambda>exe. sbind (watchwoman_state_dir G) (\<lambda>dir. Inr (exe, dir))) of
        Inl e \<Rightarrow> ([], Inl e)
      | Inr (exe, dir) \<Rightarrow>
          (let plist = agent_plist_path G;
               logf = path_join dir (path_of ''watchwoman.log'');
               sock = path_join dir (path_of ''sock'');
               dirs = create_parent logf @ create_parent plist;
               body = plist_body (to_string_lossy exe) (to_string_lossy sock) (to_string_lossy logf);
               written = dirs @ [WriteFile plist body];
               booted = written @ [Launchctl [''bootout'', gui_target G @ ''/'' @ AGENT_LABEL],
                 Launchctl [''bootstrap'', gui_target G, path_str plist]]
           in if (case path_parent plist of None \<Rightarrow> False | Some d \<Rightarrow> \<not> ag_mkdir_ok G d) then (dirs, Inl PlistDir)
              else if \<not> ag_write_ok G then (dirs, Inl PlistWrite)
              else (booted, case ag_bootstrap G of
                      None \<Rightarrow> Inl BootstrapFailed
                    | Some True \<Rightarrow> Inr ()
                    | Some False \<Rightarrow> Inl BootstrapNonZero)))"

definition uninstall_launch_agent :: "agent_env \<Rightarrow> agent_action list" where
  "uninstall_launch_agent G =
     Launchctl [''bootout'', gui_target G @ ''/'' @ AGENT_LABEL] #
     (if ag_exists G (agent_plist_path G) then [RemoveFile (agent_plist_path G)] else [])"

section \<open>Properties\<close>

text \<open>
  The agent starts the first candidate there is: an upgrade that replaces a versioned installation does not
  matter as long as a shim or a prefix is there, and the running binary is only the last resort.
\<close>

lemma stable_binary_preferred:
  assumes "ag_exe G = Some running" and "stable_candidates (sk_var (ag_sock G) ''HOME'') = pre @ c # post"
    and "ag_exists G c" and "list_all (\<lambda>p. \<not> ag_exists G p) pre"
  shows "resolve_stable_binary G = Inr c"
proof -
  have "filter (ag_exists G) pre = []" using assms(4) by (simp add: list_all_iff filter_empty_conv)
  then show ?thesis using assms(1-3) by (simp add: resolve_stable_binary_def)
qed

lemma stable_binary_running:
  assumes "ag_exe G = Some running" and "list_all (\<lambda>p. \<not> ag_exists G p) (stable_candidates (sk_var (ag_sock G) ''HOME''))"
  shows "resolve_stable_binary G = Inr running"
proof -
  have "filter (ag_exists G) (stable_candidates (sk_var (ag_sock G) ''HOME'')) = []"
    using assms(2) by (simp add: list_all_iff filter_empty_conv)
  then show ?thesis using assms(1) by (simp add: resolve_stable_binary_def)
qed

text \<open>The agent's socket is the one a client of the same user finds without an option.\<close>

lemma agent_socket_is_default:
  assumes "sock_resolve (ag_sock G) None = Inr s" and "watchwoman_state_dir G = Inr dir" and "path_file_name (path_of s) = Some ''sock''"
  shows "path_join dir (path_of ''sock'') = path_of s"
proof -
  have dir: "dir = butlast (path_of s)" "path_of s \<noteq> []"
    using assms(1,2) by (auto simp: watchwoman_state_dir_def path_parent_def ok_or_def split: if_splits)
  moreover have "last (path_of s) = Normal ''sock''"
    using assms(3) by (auto simp: path_file_name_def split: if_splits path_component.splits)
  ultimately have "path_of s = dir @ [Normal ''sock'']" by (metis append_butlast_last_id)
  then show ?thesis by (simp add: path_join_def path_of_def SLASH_def inner_component_def DOT_def is_absolute_def)
qed

text \<open>
  Installing again is possible: the old agent is booted out after the new list is written and before it is
  bootstrapped. An installation whose bootstrap is refused reports the failure and leaves the list in place;
  removing it then deletes exactly that file.
\<close>

lemma install_failure_leaves_plist:
  assumes "resolve_stable_binary G = Inr exe" and "watchwoman_state_dir G = Inr dir"
    and "\<And>d. ag_mkdir_ok G d" and "ag_write_ok G" and "ag_bootstrap G \<noteq> Some True"
  shows "(\<exists>e. snd (install_launch_agent G) = Inl e) \<and> (\<exists>body. WriteFile (agent_plist_path G) body \<in> set (fst (install_launch_agent G)))"
  using assms by (auto simp: install_launch_agent_def Let_def split: option.splits bool.splits)

lemma uninstall_removes_plist:
  "ag_exists G (agent_plist_path G) \<Longrightarrow> RemoveFile (agent_plist_path G) \<in> set (uninstall_launch_agent G)"
  by (simp add: uninstall_launch_agent_def)

end
