(* ===== verification/Test_Support.thy ===== *)
theory Test_Support
  imports Cli_Run Companions
begin

text \<open>
  The crate of the integration tests (\<^verbatim>\<open>watchwoman-tests/src\<close>): which binary is tested and how it is started, the
  client the tests talk with, and the program that records golden fixtures of the protocol. The machine is the
  \<open>host\<close> of the command line client; a daemon is a function from the bytes of a connection to its answer.
\<close>

section \<open>The binary under test\<close>

datatype target_binary = Watchwoman | Watchman | Explicit path

record harness_env =
  he_var :: "string \<Rightarrow> string option"
  he_is_file :: "path \<Rightarrow> bool"
  he_debug :: bool

text \<open>\<^verbatim>\<open>std::env::var\<close> refuses a value that is not UTF-8.\<close>

definition utf8_var :: "harness_env \<Rightarrow> string \<Rightarrow> string option" where
  "utf8_var V name = (case he_var V name of Some v \<Rightarrow> if utf8_valid v then Some v else None | None \<Rightarrow> None)"

definition from_env :: "harness_env \<Rightarrow> target_binary" where
  "from_env V =
     (case utf8_var V ''WATCHWOMAN_UNDER_TEST'' of
        Some s \<Rightarrow> if s = ''watchman'' then Watchman else if s \<noteq> [] then Explicit (path_of s) else Watchwoman
      | None \<Rightarrow> Watchwoman)"

datatype harness_error =
    NoPathVar
  | NotOnPath string
  | NoManifestDir
  | NotInTarget string
  | HarnessSpawn path
  | NeverBound path

definition which :: "harness_env \<Rightarrow> string \<Rightarrow> harness_error + path" where
  "which V bin =
     (case he_var V ''PATH'' of
        None \<Rightarrow> Inl NoPathVar
      | Some p \<Rightarrow>
          ok_or (NotOnPath bin)
            (List.find (he_is_file V) (map (\<lambda>d. path_join (path_of d) (path_of bin)) (split_on (CHR '':'') p))))"

definition target_candidate :: "harness_env \<Rightarrow> string \<Rightarrow> path \<Rightarrow> path" where
  "target_candidate V bin cur =
     path_join (path_join (path_join cur (path_of ''target'')) (path_of (if he_debug V then ''debug'' else ''release''))) (path_of bin)"

function locate_from :: "harness_env \<Rightarrow> string \<Rightarrow> path \<Rightarrow> path option" where
  "locate_from V bin cur =
     (if he_is_file V (target_candidate V bin cur) then Some (target_candidate V bin cur)
      else (case path_parent cur of None \<Rightarrow> None | Some parent \<Rightarrow> locate_from V bin parent))"
  by pat_completeness auto
termination
  by (relation "measure (\<lambda>(V, bin, cur). length cur)") (auto dest: path_parent_shorter)

declare locate_from.simps [simp del]

definition locate_in_target :: "harness_env \<Rightarrow> string \<Rightarrow> harness_error + path" where
  "locate_in_target V bin =
     (case utf8_var V ''CARGO_MANIFEST_DIR'' of
        None \<Rightarrow> Inl NoManifestDir
      | Some d \<Rightarrow> ok_or (NotInTarget bin) (locate_from V bin (path_of d)))"

fun target_resolve :: "harness_env \<Rightarrow> target_binary \<Rightarrow> harness_error + path" where
  "target_resolve V Watchwoman =
     (case he_var V ''CARGO_BIN_EXE_watchwoman'' of
        Some p \<Rightarrow> Inr (path_of p)
      | None \<Rightarrow> locate_in_target V ''watchwoman'')"
| "target_resolve V Watchman = which V ''watchman''"
| "target_resolve V (Explicit p) = Inr p"

section \<open>The harness\<close>

fun harness_args :: "target_binary \<Rightarrow> path \<Rightarrow> path \<Rightarrow> string list" where
  "harness_args Watchman sock dir =
     [''--foreground'', ''--sockname'', path_str sock, ''--logfile'', path_str (path_join dir (path_of ''log'')),
      ''--statefile'', path_str (path_join dir (path_of ''state'')), ''--pidfile'', path_str (path_join dir (path_of ''pid''))]"
| "harness_args _ sock dir = [''--sockname'', path_str sock, ''--foreground-daemon'']"

definition wait_for_socket :: "('w, 'c) host \<Rightarrow> path \<Rightarrow> nat \<Rightarrow> 'w \<Rightarrow> ((harness_error + unit) \<times> 'w) option" where
  "wait_for_socket H sock timeout w =
     map_option (\<lambda>(found, w'). (if found then Inr () else Inl (NeverBound sock), w'))
       (wait_socket H sock (ho_now_ms H w + timeout) w)"

text \<open>\<open>dir\<close> is the fresh temporary directory; the answer is the path of the socket.\<close>

definition spawn_inner ::
  "('w, 'c) host \<Rightarrow> harness_env \<Rightarrow> target_binary \<Rightarrow> path \<Rightarrow> 'w \<Rightarrow> ((harness_error + path) \<times> 'w) option" where
  "spawn_inner H V target dir w =
     (let sock = path_join dir (path_of ''sock'') in
      case target_resolve V target of
        Inl e \<Rightarrow> Some (Inl e, w)
      | Inr binary \<Rightarrow>
          (let (spawned, w1) = ho_spawn H binary (harness_args target sock dir) w in
           if \<not> spawned then Some (Inl (HarnessSpawn binary), w1)
           else map_option (\<lambda>(res, w2). (map_sum id (\<lambda>_. sock) res, w2)) (wait_for_socket H sock 5000 w1)))"

section \<open>The client of the tests\<close>

text \<open>The bytes written so far and the bytes still to come.\<close>

record test_client =
  tc_sent :: "byte list"
  tc_in :: "byte list"

datatype client_error = ClosedBeforeResponse | ClientProtocol protocol_error

definition read_unilateral :: "'n serde \<Rightarrow> test_client \<Rightarrow> (client_error, wire_value option) outcome \<times> test_client" where
  "read_unilateral S c =
     (case json_read_pdu S (tc_in c) of
        Ok (v, r) \<Rightarrow> (Ok v, c\<lparr>tc_in := r\<rparr>)
      | Err e \<Rightarrow> (Err (ClientProtocol e), c)
      | Panic \<Rightarrow> (Panic, c))"

definition client_send :: "'n serde \<Rightarrow> wire_value \<Rightarrow> test_client \<Rightarrow> (client_error, wire_value) outcome \<times> test_client" where
  "client_send S pdu c =
     (let (res, c') = read_unilateral S (c\<lparr>tc_sent := json_encode_pdu S (tc_sent c) pdu\<rparr>)
      in (obind res (\<lambda>v. case v of None \<Rightarrow> Err ClosedBeforeResponse | Some resp \<Rightarrow> Ok resp), c'))"

definition client_call ::
  "'n serde \<Rightarrow> string \<Rightarrow> wire_value list \<Rightarrow> test_client \<Rightarrow> (client_error, wire_value) outcome \<times> test_client" where
  "client_call S name args = client_send S (VArray (VString name # args))"

section \<open>Recording fixtures\<close>

record scenario =
  sc_name :: string
  sc_pdu :: "path \<Rightarrow> wire_value"

definition SCENARIOS :: "scenario list" where
  "SCENARIOS =
     [\<lparr> sc_name = ''version'', sc_pdu = (\<lambda>_. VArray [VString ''version'']) \<rparr>,
      \<lparr> sc_name = ''list_capabilities'', sc_pdu = (\<lambda>_. VArray [VString ''list-capabilities'']) \<rparr>,
      \<lparr> sc_name = ''get_sockname'', sc_pdu = (\<lambda>_. VArray [VString ''get-sockname'']) \<rparr>,
      \<lparr> sc_name = ''watch_project'', sc_pdu = (\<lambda>p. VArray [VString ''watch-project'', VString (to_string_lossy p)]) \<rparr>,
      \<lparr> sc_name = ''watch_list'', sc_pdu = (\<lambda>_. VArray [VString ''watch-list'']) \<rparr>,
      \<lparr> sc_name = ''clock'', sc_pdu = (\<lambda>p. VArray [VString ''clock'', VString (to_string_lossy p)]) \<rparr>,
      \<lparr> sc_name = ''query_suffix'', sc_pdu = (\<lambda>p. VArray [VString ''query'', VString (to_string_lossy p),
          VObject [(''suffix'', VArray [VString ''rs'']), (''fields'', VArray [VString ''name''])]]) \<rparr>]"

fun fixture_to_serde :: "'n serde \<Rightarrow> wire_value \<Rightarrow> 'n json" where
  "fixture_to_serde S VNull = JNull"
| "fixture_to_serde S (VBool b) = JBool b"
| "fixture_to_serde S (VInt i) = JNumber (num_from_i64 S i)"
| "fixture_to_serde S (VReal f) = (case num_from_f64 S f of None \<Rightarrow> JNull | Some n \<Rightarrow> JNumber n)"
| "fixture_to_serde S (VString s) = JString s"
| "fixture_to_serde S (VBytes b) = JString (from_utf8_lossy (chars_of b))"
| "fixture_to_serde S (VArray a) = JArray (map (fixture_to_serde S) a)"
| "fixture_to_serde S (VObject m) = JObject (im_inserts (map (\<lambda>(k, v). (k, fixture_to_serde S v)) m) [])"
| "fixture_to_serde S (VTemplate ks rows) =
     JArray (map (\<lambda>row. JObject (im_inserts (zip ks (map (fixture_to_serde S) row)) [])) rows)"

interpretation fixture_print: json_printer S "fixture_to_serde S" for S :: "'n serde"
  by unfold_locales simp_all

datatype record_error = NoJsonResponse | NoBserResponse | RecordProtocol protocol_error

fun no_response :: "record_error \<Rightarrow> (protocol_error, 'a option \<times> byte list) outcome \<Rightarrow> (record_error, 'a) outcome" where
  "no_response e (Ok (Some v, _)) = Ok v"
| "no_response e (Ok (None, _)) = Err e"
| "no_response e (Err x) = Err (RecordProtocol x)"
| "no_response e Panic = Panic"

definition read_json :: "'n serde \<Rightarrow> byte list \<Rightarrow> (record_error, wire_value) outcome" where
  "read_json S r = no_response NoJsonResponse (json_read_pdu S r)"

definition read_bser :: "allocator \<Rightarrow> byte list \<Rightarrow> (record_error, wire_value \<times> encoding) outcome" where
  "read_bser A r = no_response NoBserResponse (bser_read_pdu A r)"

fun record_protocol :: "(protocol_error, 'a) outcome \<Rightarrow> (record_error, 'a) outcome" where
  "record_protocol (Ok x) = Ok x"
| "record_protocol (Err e) = Err (RecordProtocol e)"
| "record_protocol Panic = Panic"

definition fixtures_dir :: "path \<Rightarrow> path option" where
  "fixtures_dir manifest =
     map_option (\<lambda>crates. path_join (path_join (path_join crates (path_of ''watchwoman-protocol'')) (path_of ''tests''))
       (path_of ''fixtures'')) (path_parent manifest)"

text \<open>
  The two fixtures of a scenario: each is asked on a connection of its own. \<open>ask\<close> is the daemon, \<open>pretty\<close> the
  pretty printer of \<^verbatim>\<open>serde_json\<close>; the files written are returned, also when a later one fails.
\<close>

definition record_json ::
  "'n serde \<Rightarrow> ('n json \<Rightarrow> byte list) \<Rightarrow> (byte list \<Rightarrow> 'd \<Rightarrow> byte list \<times> 'd) \<Rightarrow> wire_value \<Rightarrow> 'd
    \<Rightarrow> (record_error, byte list) outcome \<times> 'd" where
  "record_json S pretty ask pdu d =
     (let (answer, d') = ask (json_encode_pdu S [] pdu) d
      in (obind (read_json S answer) (\<lambda>resp. Ok (pretty (fixture_to_serde S resp))), d'))"

definition record_bser ::
  "allocator \<Rightarrow> (byte list \<Rightarrow> 'd \<Rightarrow> byte list \<times> 'd) \<Rightarrow> wire_value \<Rightarrow> 'd \<Rightarrow> (record_error, byte list) outcome \<times> 'd" where
  "record_bser A ask pdu d =
     (case bser_encode_pdu pdu BserV2 of
        Ok bytes \<Rightarrow>
          (let (answer, d') = ask bytes d
           in (obind (read_bser A answer) (\<lambda>(resp, _). record_protocol (bser_encode_pdu resp BserV2)), d'))
      | Err e \<Rightarrow> (Err (RecordProtocol e), d)
      | Panic \<Rightarrow> (Panic, d))"

fun record_all ::
  "'n serde \<Rightarrow> ('n json \<Rightarrow> byte list) \<Rightarrow> allocator \<Rightarrow> (byte list \<Rightarrow> 'd \<Rightarrow> byte list \<times> 'd) \<Rightarrow> path \<Rightarrow> path
    \<Rightarrow> scenario list \<Rightarrow> 'd \<Rightarrow> (path \<times> byte list) list \<times> (record_error, unit) outcome" where
  "record_all S pretty A ask out p [] d = ([], Ok ())"
| "record_all S pretty A ask out p (sc # scs) d =
     (case record_json S pretty ask (sc_pdu sc p) d of
        (Err e, _) \<Rightarrow> ([], Err e)
      | (Panic, _) \<Rightarrow> ([], Panic)
      | (Ok j, d1) \<Rightarrow>
          (let f1 = (path_join out (path_of (sc_name sc @ ''.json'')), j) in
           case record_bser A ask (sc_pdu sc p) d1 of
             (Err e, _) \<Rightarrow> ([f1], Err e)
           | (Panic, _) \<Rightarrow> ([f1], Panic)
           | (Ok b, d2) \<Rightarrow>
               (let (fs, res) = record_all S pretty A ask out p scs d2
                in (f1 # (path_join out (path_of (sc_name sc @ ''.bser2'')), b) # fs, res))))"

text \<open>The whole run: a watch is set up first, so that the daemon can answer the rest.\<close>

definition record_main ::
  "'n serde \<Rightarrow> ('n json \<Rightarrow> byte list) \<Rightarrow> allocator \<Rightarrow> (byte list \<Rightarrow> 'd \<Rightarrow> byte list \<times> 'd) \<Rightarrow> path \<Rightarrow> path \<Rightarrow> 'd
    \<Rightarrow> (path \<times> byte list) list \<times> (record_error, unit) outcome" where
  "record_main S pretty A ask out p d =
     (let (answer, d1) = ask (json_encode_pdu S [] (VArray [VString ''watch-project'', VString (to_string_lossy p)])) d in
      case read_json S answer of
        Ok _ \<Rightarrow> record_all S pretty A ask out p SCENARIOS d1
      | Err e \<Rightarrow> ([], Err e)
      | Panic \<Rightarrow> ([], Panic))"

section \<open>Properties\<close>

text \<open>The binary under test is the nearest one above the crate, and the search ends at the root.\<close>

lemma locate_from_nearest:
  assumes "locate_from V bin cur = Some b"
  shows "\<exists>dir rest. cur = dir @ rest \<and> b = target_candidate V bin dir \<and> he_is_file V b"
  using assms
proof (induction V bin cur rule: locate_from.induct)
  case (1 V bin cur)
  show ?case
  proof (cases "he_is_file V (target_candidate V bin cur)")
    case True
    then show ?thesis using "1.prems" by (subst (asm) locate_from.simps) auto
  next
    case False
    then obtain parent where p: "path_parent cur = Some parent" "locate_from V bin parent = Some b"
      using "1.prems" by (subst (asm) locate_from.simps) (auto split: option.splits)
    from "1.IH" [OF False p] obtain dir rest where "parent = dir @ rest" "b = target_candidate V bin dir \<and> he_is_file V b" by blast
    moreover have "cur = parent @ [last cur]" using p(1) by (auto simp: path_parent_def split: if_splits)
    ultimately show ?thesis by (metis append_assoc)
  qed
qed

text \<open>Every request of the recorder is one the daemon knows.\<close>

lemma scenarios_known:
  "list_all (\<lambda>sc. \<exists>name args. sc_pdu sc p = VArray (VString name # args) \<and> name \<in> set command_names) SCENARIOS"
  by (simp add: SCENARIOS_def command_names_def)

text \<open>
  The client of the tests keeps its buffer between calls, so that unlike the companion programs it loses no
  PDU however many arrive together: each call takes exactly the next one.
\<close>

lemma client_send_next:
  assumes "number_laws S" and "value_wf v \<and> text_laws S (to_serde S v)"
  shows "client_send S pdu \<lparr> tc_sent = out, tc_in = json_put S v @ rest \<rparr>
    = (Ok (json_norm v), \<lparr> tc_sent = json_encode_pdu S out pdu, tc_in = rest \<rparr>)"
  using pdu_stream.rd_put [OF json_pdu_stream [OF assms(1)] assms(2), of rest]
  by (simp add: client_send_def read_unilateral_def)

text \<open>A recorded BSER fixture decodes to the response it was made from, whichever version the daemon answered in.\<close>

lemma bser_fixture_decodes:
  assumes "pdu_ok A v" and "A KByte (int (length (write_value v)))" and "wire_norm v = v" and "ver \<noteq> Json"
    and "bser_encode_pdu pdu BserV2 = Ok bytes" and "ask bytes d = (bser_put ver v @ rest, d')"
  shows "\<exists>fixture. record_bser A ask pdu d = (Ok fixture, d') \<and> bser_decode_pdu A fixture = Ok (v, length fixture)"
proof -
  have "bser_encode_pdu v BserV2 = Ok (bser_put BserV2 v)" using assms(1) bser_encode_pdu_put by (simp add: pdu_ok_def)
  moreover have "read_bser A (bser_put ver v @ rest) = Ok (v, ver)"
    using bser_read_put [OF assms(4), of A v rest] assms(1-3) by (simp add: read_bser_def)
  ultimately show ?thesis
    using bser_decode_put [of BserV2 A v "[]"] assms by (simp add: record_bser_def)
qed

text \<open>With a daemon that answers, both fixtures of every scenario are written, in order.\<close>

lemma record_all_complete:
  assumes "\<And>sc d. sc \<in> set scs \<Longrightarrow> \<exists>f d'. record_json S pretty ask (sc_pdu sc p) d = (Ok f, d')"
    and "\<And>sc d. sc \<in> set scs \<Longrightarrow> \<exists>f d'. record_bser A ask (sc_pdu sc p) d = (Ok f, d')"
  shows "snd (record_all S pretty A ask out p scs d) = Ok () \<and>
    map fst (fst (record_all S pretty A ask out p scs d))
      = concat (map (\<lambda>sc. [path_join out (path_of (sc_name sc @ ''.json'')), path_join out (path_of (sc_name sc @ ''.bser2''))]) scs)"
  using assms
proof (induction scs arbitrary: d)
  case (Cons sc scs)
  obtain j d1 where j: "record_json S pretty ask (sc_pdu sc p) d = (Ok j, d1)" using Cons.prems(1) by fastforce
  obtain b d2 where b: "record_bser A ask (sc_pdu sc p) d1 = (Ok b, d2)" using Cons.prems(2) by fastforce
  have "snd (record_all S pretty A ask out p scs d2) = Ok () \<and>
    map fst (fst (record_all S pretty A ask out p scs d2))
      = concat (map (\<lambda>sc. [path_join out (path_of (sc_name sc @ ''.json'')), path_join out (path_of (sc_name sc @ ''.bser2''))]) scs)"
    by (rule Cons.IH) (use Cons.prems in auto)
  then show ?case using j b by (simp add: case_prod_beta Let_def)
qed simp

text \<open>The harness always returns on a machine whose clock advances.\<close>

lemma spawn_inner_total:
  assumes "\<And>w. ho_now_ms H w < ho_now_ms H (ho_sleep_ms H 25 w)"
  shows "\<exists>r. spawn_inner H V target dir w = Some r"
  using wait_socket_total [OF assms]
  by (fastforce simp: spawn_inner_def wait_for_socket_def Let_def split: sum.split prod.split)

end
