(* ===== verification/Spec2Isabelle.thy ===== *)
theory Spec2Isabelle
  imports Scm Command_Answers Companions Fences Launch_Agent Test_Support
begin

text \<open>
  A model of watchwoman, a file watching daemon that speaks watchman's wire protocol, and of its command
  line client. The Linux build is modelled (inotify, \<^verbatim>\<open>/proc\<close>; of the macOS build only the launch agent), compiled in release mode: integer arithmetic
  wraps, and a panic aborts the process.

  \<^bold>\<open>The program.\<close> A client connects to a Unix socket and sends PDUs (requests) in JSON or in one of two
  versions of a binary encoding, BSER. The daemon dispatches each to a command handler. Its state is a set of
  watched \<^emph>\<open>roots\<close>; each has a clock, an index of the files below it with the tick of their last change,
  named cursors, triggers and subscriptions. A watcher feeds the index with changes; queries select entries
  of the index, usually those changed since a clock the client remembers; push loops and trigger loops run a
  query after each batch of changes; a garbage collector drops roots that are gone or idle.

  \<^bold>\<open>Theories, bottom up, and the code they model\<close> (paths under \<^verbatim>\<open>crates/\<close>):
    \<^item> \<^verbatim>\<open>Prelude\<close>, \<^verbatim>\<open>Rust_Std\<close>, \<^verbatim>\<open>Rust_Str\<close>, \<^verbatim>\<open>Rust_Text\<close>, \<^verbatim>\<open>Paths\<close>: results (\<open>outcome\<close>: value, error or
      panic), insertion ordered maps, casts and byte orders, UTF-8, text functions, paths as components.
    \<^item> \<^verbatim>\<open>Wire_Value\<close>, \<^verbatim>\<open>Bser\<close>, \<^verbatim>\<open>Bser_Pdu\<close>, \<^verbatim>\<open>Json_Codec\<close> (\<^verbatim>\<open>watchwoman-protocol\<close>): values, both codecs and their
      framing; \<^verbatim>\<open>Json_Copies\<close>: the program's other conversions to and from JSON, shown to agree. Encoded values decode to themselves, a prefix of a PDU is reported as truncated, whatever is
      decoded is well-formed, and the locale \<open>pdu_stream\<close> gives the reading of whole streams once for all
      encodings.
    \<^item> \<^verbatim>\<open>Root_Clock\<close>, \<^verbatim>\<open>File_Tree\<close>, \<^verbatim>\<open>Root_State\<close>, \<^verbatim>\<open>Root_Triggers\<close> (\<^verbatim>\<open>daemon/clock.rs\<close>, \<^verbatim>\<open>tree.rs\<close>, \<^verbatim>\<open>root.rs\<close>): clock
      strings, the index with its counters, and every operation on a root. \<^verbatim>\<open>Root_Inv\<close> has the step relation
      \<open>root_step\<close>, the invariant of reachable roots and what it says about recorded changes and pruning.
    \<^item> \<^verbatim>\<open>Query_Expr\<close>, \<^verbatim>\<open>Query_Field\<close>, \<^verbatim>\<open>Query_Run\<close> (\<^verbatim>\<open>query/\<close>): expressions, fields, generators, the executor.
      \<^verbatim>\<open>Query_Props\<close>: a query since a clock returns exactly the files changed since, named cursors advance, a
      fresh instance lists everything, responses are well-formed.
    \<^item> \<^verbatim>\<open>Jj_Scope\<close>, \<^verbatim>\<open>Watcher\<close> (\<^verbatim>\<open>daemon/jj_scope.rs\<close>, \<^verbatim>\<open>watcher.rs\<close>): ignore files with their cache, the initial
      scan and the translation of notifications into changes.
    \<^item> \<^verbatim>\<open>Daemon\<close> (\<^verbatim>\<open>daemon/state.rs\<close>, \<^verbatim>\<open>gc.rs\<close>): registration and collection of roots, with the step relation
      \<open>daemon_step\<close>. \<^verbatim>\<open>Scm\<close> (\<^verbatim>\<open>daemon/scm.rs\<close>): the paths git and Mercurial report as changed.
    \<^item> \<^verbatim>\<open>Command_Env\<close>, \<^verbatim>\<open>Commands\<close>, \<^verbatim>\<open>Info\<close>, \<^verbatim>\<open>Dispatch\<close> (\<^verbatim>\<open>commands.rs\<close>, \<^verbatim>\<open>commands/\<close>): every handler as a function
      on \<open>world\<close> that keeps what it changed before an error, and the dispatch table. \<^verbatim>\<open>Command_Props\<close> shows,
      with Hoare triples for handlers, that every command keeps the daemon reachable and answers with a
      version; \<^verbatim>\<open>Command_Answers\<close> has the answers of single commands.
    \<^item> \<^verbatim>\<open>Push_Loops\<close> (\<^verbatim>\<open>commands/subscribe.rs\<close>, \<^verbatim>\<open>commands/trigger.rs\<close>): one turn of a subscription's or a trigger's
      loop, what it reports and what it skips; a loop does not look at the registry that names it, so
      unsubscribing or replacing a trigger leaves the old loop running.
    \<^item> \<^verbatim>\<open>Server\<close> (\<^verbatim>\<open>daemon/server.rs\<close>): encoding detection, reading and answering of a connection.
    \<^item> \<^verbatim>\<open>Cli_Pdu\<close>, \<^verbatim>\<open>Cli_Report\<close>, \<^verbatim>\<open>Cli_Run\<close> (\<^verbatim>\<open>cli.rs\<close>, \<^verbatim>\<open>sock.rs\<close>): subcommands and their requests, the status report,
      connecting or spawning, the exchange.
    \<^item> \<^verbatim>\<open>Companions\<close> (\<^verbatim>\<open>bin/\<close>): the four companion programs; \<^verbatim>\<open>watchman-make\<close> never runs its command.
    \<^item> \<^verbatim>\<open>Runtime\<close> (\<^verbatim>\<open>daemon/session.rs\<close>, \<^verbatim>\<open>alloc.rs\<close> and the tasks of \<^verbatim>\<open>gc.rs\<close>, \<^verbatim>\<open>server.rs\<close>, \<^verbatim>\<open>watcher.rs\<close>): sessions with
      their queues, and the step relation \<open>runtime_step\<close> in which the turns of all tasks interleave over one
      shared state, with its invariants. \<^verbatim>\<open>Fences\<close>: no loop is ever ahead of its root, so a change made while a
      subscription is armed ends up in its client's queue.
    \<^item> \<^verbatim>\<open>Launch_Agent\<close> (\<^verbatim>\<open>cli.rs\<close>, macOS only): the two commands that install and remove a launch agent.
      \<^verbatim>\<open>Test_Support\<close> (\<^verbatim>\<open>watchwoman-tests/src\<close>): the harness, client and fixture recorder of the tests.
    \<^item> This theory: the client and the daemon together.

  \<^bold>\<open>Interfaces.\<close> Locales state what one part relies on and are interpreted on the model's definitions:
  \<open>keyed_store\<close> (the insertion ordered maps behind every table), \<open>pdu_stream\<close> (a writer and a reader of PDUs;
  both BSER versions, JSON and the socket reader), \<open>json_printer\<close> and \<open>json_reader\<close> (the copies of the JSON
  conversions), \<open>forward_simulation\<close> and \<open>simulation_invariant\<close> (a layer of the program as steps of the layer
  below: commands over the daemon's operations, all tasks over the daemon's operations).

  \<^bold>\<open>State, effects, parameters.\<close> Structs are records and every operation returns the changed record; errors are
  values. Locks are not modelled: an operation of the model runs atomically, and the relations \<open>root_step\<close>,
  \<open>daemon_step\<close> and \<open>runtime_step\<close> interleave operations in any order; in \<open>runtime_step\<close> a request is one step
  (what can come between the parts of \<^verbatim>\<open>subscribe\<close> is the subject of \<open>subscribe_window_loses_changes\<close>). Code outside the repository is a parameter with its
  documented behaviour as a named hypothesis: \<^verbatim>\<open>serde_json\<close> (\<open>serde\<close>, \<open>number_laws\<close>, \<open>text_laws\<close>), \<^verbatim>\<open>globset\<close> and
  \<^verbatim>\<open>regex\<close> (\<open>query_env\<close>), the \<^verbatim>\<open>ignore\<close> crate, SHA-1, the file system, the allocator's limit, the clock, the
  operating system's answers.

  \<^bold>\<open>Bounds.\<close> Ticks, sizes and counters are natural numbers; theorems that need them below \<^verbatim>\<open>2^64\<close> say so
  (\<open>clock_room\<close>, \<open>budget\<close>: the ticks the operation can add still fit). Loops over input are total functions
  whose measure is the input left (\<open>conn_loop\<close>, \<open>drain_pdus\<close>, \<open>words_from\<close> with the length of the text as fuel);
  \<open>read_all\<close> has as fuel the number of PDUs and any greater number gives the result; \<open>wait_socket\<close>, which polls a
  clock, is a partial function proved to return when the clock advances.

  \<^bold>\<open>Not modelled.\<close> Threads, locks and channel capacities; the binding of the socket and the setting up of the
  notification backend; the bump arena of the index and its memory estimates as addresses (its bytes in
  use are a parameter); the resource probes of macOS; clap's parsing of arguments and shell completion;
  logging; the scratch directories of the tests and the test cases themselves.
\<close>

section \<open>The client and the daemon together\<close>

text \<open>
  What the daemon does with all the bytes of a connection: the bytes its writer sends back and the state
  it is left in.
\<close>

definition daemon_serve ::
  "allocator \<Rightarrow> (conn_error \<Rightarrow> string) \<Rightarrow> ('g, 'x, 'n) cmd_env \<Rightarrow> info_env \<Rightarrow> nat \<Rightarrow> byte list \<Rightarrow> world \<Rightarrow> byte list \<times> world" where
  "daemon_serve A msg E I session bytes w =
     (case handle_connection A (ce_serde E) msg (dispatch E I session) (\<lambda>w. shutting_down (w_daemon w)) bytes w of
        (Some (resps, enc), w', _) \<Rightarrow> (writer_loop (ce_serde E) enc resps, w')
      | (None, w', _) \<Rightarrow> ([], w'))"

lemma drain_end: "drain_pdus L no_pretty enc code [] = ([], Ok code)"
  by (subst drain_pdus.simps) (simp add: json_read_pdu_def read_until_def)



end
